(* ===== verification/Prelude.thy ===== *)
theory Prelude
  imports Complex_Main "HOL-Library.AList" "HOL-Library.Sublist" "HOL-Library.List_Lexorder"
    "HOL-Library.Char_ord" "HOL-Library.Product_Lexorder"
begin

text \<open>
  Shared vocabulary of the development: the identifiers of \<^verbatim>\<open>vision_os/core/model/ids.py\<close>
  (every one is a \<^verbatim>\<open>NewType\<close> over \<^verbatim>\<open>str\<close>, so a \<^typ>\<open>string\<close> here), the exceptions the
  modelled code raises, Python's insertion-ordered dictionary as an association list, the
  hierarchical class match, and the collections of rewrite rules the component proofs use.

  Conventions. A raised exception is the left injection of a sum whose error is \<open>py_error\<close>;
  the constructor is the exception class and carries the structured context the source
  attaches (message texts are not modelled). Python's integers are \<^typ>\<open>int\<close>. A Python
  dictionary is an association list with distinct keys whose order is the insertion order:
  \<open>AList.update\<close> overwrites in place or appends, as \<^verbatim>\<open>d[k] = v\<close> does, and
  \<open>AList.delete\<close> removes a key, as \<^verbatim>\<open>d.pop(k, None)\<close> does. Strings are ordered
  lexicographically by character, as Python's are by code point.
\<close>

section \<open>Identifiers\<close>

type_synonym tenant_id = string
type_synonym site_id = string
type_synonym camera_id = string
type_synonym region_id = string
type_synonym class_id = string
type_synonym attribute_key = string
type_synonym object_id = string
type_synonym demand_id = string
type_synonym model_id = string

section \<open>Exceptions\<close>

datatype py_error =
    ValueError
  | ValidationError
  | KeyError
  | IndexError
  | IllegalTransitionError string string
  | TrackerCapacityError camera_id int
  | OutOfOrderFrameError camera_id
  | TrackerContractError
  | PortIncompatibleError
  | DemandRejectedError demand_id "attribute_key list"
  | DemandTransitionError string string
  | DemandNotFoundError demand_id
  | RuleDocumentError
  | PoolExhaustedError
  | FrameUnavailableError
  | ForbiddenError string
  | TenantScopeViolationError string
  | ScopeError string
  | ProjectionError
  | StateNotFoundError object_id
  | LogUnavailableError
  | CommitFailedError
  | PartitionDegradedError
  | OverloadedError
  | UnsupportedVersionError
  | WindowTooLargeError
  | InvalidScopeError
  | NotFoundError
  | EvidenceExpiredError
  | EvidenceQuotaExceededError

type_synonym 'a result = "py_error + 'a"

definition raises :: "'a result \<Rightarrow> bool" where
  "raises r \<longleftrightarrow> (\<exists>e. r = Inl e)"

fun bind_result :: "'a result \<Rightarrow> ('a \<Rightarrow> 'b result) \<Rightarrow> 'b result" where
  "bind_result (Inl e) f = Inl e"
| "bind_result (Inr x) f = f x"

text \<open>A \<^verbatim>\<open>for\<close> loop whose body may raise, and indexing a sequence by a non-negative index.\<close>

fun fold_result :: "('a \<Rightarrow> 'b \<Rightarrow> 'b result) \<Rightarrow> 'a list \<Rightarrow> 'b \<Rightarrow> 'b result" where
  "fold_result f [] s = Inr s"
| "fold_result f (x # xs) s = bind_result (f x s) (fold_result f xs)"

definition py_index :: "'a list \<Rightarrow> nat \<Rightarrow> 'a result" where
  "py_index xs i = (if i < length xs then Inr (xs ! i) else Inl IndexError)"

text \<open>\<^verbatim>\<open>xs[i:j]\<close>: a negative bound counts from the end, and bounds are cut to the sequence.\<close>

definition slice_bound :: "'a list \<Rightarrow> int \<Rightarrow> nat" where
  "slice_bound xs i = nat (if i < 0 then i + int (length xs) else min i (int (length xs)))"

definition py_slice :: "'a list \<Rightarrow> int \<Rightarrow> int \<Rightarrow> 'a list" where
  "py_slice xs i j = drop (slice_bound xs i) (take (slice_bound xs j) xs)"

named_theorems result_simps \<open>how a computation that may raise composes\<close>
named_theorems dict_simps \<open>laws of insertion-ordered dictionaries\<close>
named_theorems hierarchy_simps \<open>laws of the dotted class hierarchy\<close>

lemma raises_simps [simp]: "raises (Inl e)" "\<not> raises (Inr x)"
  by (simp_all add: raises_def)

lemma bind_result_Inr_iff [result_simps]:
  "bind_result r f = Inr y \<longleftrightarrow> (\<exists>x. r = Inr x \<and> f x = Inr y)"
  by (cases r) auto

lemma bind_result_Inl_iff [result_simps]:
  "bind_result r f = Inl e \<longleftrightarrow> r = Inl e \<or> (\<exists>x. r = Inr x \<and> f x = Inl e)"
  by (cases r) auto

lemma not_raises_iff [result_simps]: "\<not> raises r \<longleftrightarrow> (\<exists>x. r = Inr x)"
  by (cases r) auto

lemma py_index_Inr_iff [result_simps]: "py_index xs i = Inr x \<longleftrightarrow> i < length xs \<and> x = xs ! i"
  by (auto simp: py_index_def)

lemma py_slice_nat:
  "0 \<le> i \<Longrightarrow> i \<le> j \<Longrightarrow> py_slice xs i j = take (nat (j - i)) (drop (nat i) xs)"
  by (simp add: py_slice_def slice_bound_def drop_take nat_diff_distrib min_def)

lemma fold_result_invariant:
  assumes "I s" and "\<And>x s. x \<in> set xs \<Longrightarrow> I s \<Longrightarrow> \<exists>s'. f x s = Inr s' \<and> I s'"
  shows "\<exists>s'. fold_result f xs s = Inr s' \<and> I s'"
  using assms
proof (induction xs arbitrary: s)
  case (Cons x xs)
  then obtain s' where "f x s = Inr s'" and "I s'" by fastforce
  with Cons show ?case by simp
qed simp

text \<open>
  A computation that succeeds with a result satisfying \<open>P\<close>: total correctness of code that may
  raise, composed along \<open>bind_result\<close> and loops.
\<close>

definition yields :: "('a \<Rightarrow> bool) \<Rightarrow> 'a result \<Rightarrow> bool" where
  "yields P r \<longleftrightarrow> (\<exists>x. r = Inr x \<and> P x)"

lemma yields_Inr [simp]: "yields P (Inr x) \<longleftrightarrow> P x"
  by (simp add: yields_def)

lemma yields_Inl [simp]: "\<not> yields P (Inl e)"
  by (simp add: yields_def)

lemma yieldsE:
  assumes "yields P r"
  obtains x where "r = Inr x" and "P x"
  using assms by (auto simp: yields_def)

lemma yields_bind:
  assumes "yields P r" and "\<And>x. P x \<Longrightarrow> yields Q (f x)"
  shows "yields Q (bind_result r f)"
  using assms by (auto simp: yields_def)

lemma yields_fold_result:
  assumes "I s" and "\<And>x s. x \<in> set xs \<Longrightarrow> I s \<Longrightarrow> yields I (f x s)"
  shows "yields I (fold_result f xs s)"
  using fold_result_invariant [of I s xs f] assms by (auto simp: yields_def)

section \<open>Insertion-ordered dictionaries\<close>

type_synonym ('k, 'v) dict = "('k \<times> 'v) list"

abbreviation dict_keys :: "('k, 'v) dict \<Rightarrow> 'k list" where
  "dict_keys d \<equiv> map fst d"

definition wf_dict :: "('k, 'v) dict \<Rightarrow> bool" where
  "wf_dict d \<longleftrightarrow> distinct (dict_keys d)"

definition dict_get :: "('k, 'v) dict \<Rightarrow> 'k \<Rightarrow> 'v option" where
  "dict_get d k = map_of d k"

definition dict_set :: "'k \<Rightarrow> 'v \<Rightarrow> ('k, 'v) dict \<Rightarrow> ('k, 'v) dict" where
  "dict_set k v d = AList.update k v d"

definition dict_del :: "'k \<Rightarrow> ('k, 'v) dict \<Rightarrow> ('k, 'v) dict" where
  "dict_del k d = AList.delete k d"

text \<open>\<^verbatim>\<open>OrderedDict.move_to_end(k)\<close>, called by the source on keys it holds.\<close>

definition move_to_end :: "'k \<Rightarrow> ('k, 'v) dict \<Rightarrow> ('k, 'v) dict" where
  "move_to_end k d = (case map_of d k of None \<Rightarrow> d | Some v \<Rightarrow> AList.delete k d @ [(k, v)])"

lemma wf_dict_Nil [simp]: "wf_dict []"
  by (simp add: wf_dict_def)

lemma wf_dict_set [simp]: "wf_dict d \<Longrightarrow> wf_dict (dict_set k v d)"
  by (simp add: wf_dict_def dict_set_def distinct_update)

lemma wf_dict_del [simp]: "wf_dict d \<Longrightarrow> wf_dict (dict_del k d)"
  by (simp add: wf_dict_def dict_del_def distinct_delete)

lemma dict_get_set [dict_simps]:
  "dict_get (dict_set k v d) k' = (if k' = k then Some v else dict_get d k')"
  by (simp add: dict_get_def dict_set_def update_conv)

lemma dict_get_del [dict_simps]:
  "dict_get (dict_del k d) k' = (if k' = k then None else dict_get d k')"
  by (simp add: dict_get_def dict_del_def delete_conv)

lemma dict_get_Nil [simp]: "dict_get [] k = None"
  by (simp add: dict_get_def)

lemma dict_get_Some_in: "dict_get d k = Some v \<Longrightarrow> (k, v) \<in> set d"
  by (simp add: dict_get_def map_of_SomeD)

lemma in_dict_get: "wf_dict d \<Longrightarrow> (k, v) \<in> set d \<Longrightarrow> dict_get d k = Some v"
  by (simp add: dict_get_def wf_dict_def)

lemma dict_get_None_iff: "dict_get d k = None \<longleftrightarrow> k \<notin> set (dict_keys d)"
  by (simp add: dict_get_def map_of_eq_None_iff)

lemma dict_keys_set [dict_simps]:
  "dict_keys (dict_set k v d) = (if k \<in> set (dict_keys d) then dict_keys d else dict_keys d @ [k])"
  by (simp add: dict_set_def update_keys)

lemma dict_keys_del [dict_simps]: "dict_keys (dict_del k d) = filter (\<lambda>k'. k' \<noteq> k) (dict_keys d)"
  by (induction d) (auto simp: dict_del_def)

lemma fst_image_dict_set [dict_simps]: "fst ` set (dict_set k v d) = insert k (fst ` set d)"
  using arg_cong [where f = set, OF dict_keys_set [of k v d]] by (auto split: if_splits)

lemma fst_image_dict_del [dict_simps]: "fst ` set (dict_del k d) = fst ` set d - {k}"
  using arg_cong [where f = set, OF dict_keys_del [of k d]] by auto

lemma length_dict_set [dict_simps]:
  "length (dict_set k v d) = (if k \<in> set (dict_keys d) then length d else Suc (length d))"
proof -
  have "length (dict_set k v d) = length (dict_keys (dict_set k v d))" by simp
  also have "\<dots> = (if k \<in> set (dict_keys d) then length d else Suc (length d))"
    by (simp only: dict_keys_set split: if_split) simp
  finally show ?thesis .
qed

lemma length_dict_del_le [simp]: "length (dict_del k d) \<le> length d"
  by (simp add: dict_del_def length_delete_le)

lemma length_dict_del:
  "wf_dict d \<Longrightarrow> k \<in> set (dict_keys d) \<Longrightarrow> Suc (length (dict_del k d)) = length d"
  by (induction d) (auto simp: wf_dict_def dict_del_def delete_idem)

lemma dict_del_filter: "dict_del k d = filter (\<lambda>p. fst p \<noteq> k) d"
  unfolding dict_del_def AList.delete_eq by (intro filter_cong) auto

lemma length_dict_del_less: "k \<in> set (dict_keys d) \<Longrightarrow> length (dict_del k d) < length d"
  by (auto simp: dict_del_filter intro!: length_filter_less)

lemma in_dict_del_iff [dict_simps]:
  "(k', v) \<in> set (dict_del k d) \<longleftrightarrow> (k', v) \<in> set d \<and> k' \<noteq> k"
  by (auto simp: dict_del_def AList.delete_eq)

lemma in_dict_set: "(k, v) \<in> set (dict_set k' v' d) \<Longrightarrow> (k, v) \<in> set d \<or> (k, v) = (k', v')"
  by (induction d) (auto simp: dict_set_def split: if_splits)

lemma in_dict_iff: "wf_dict d \<Longrightarrow> (k, v) \<in> set d \<longleftrightarrow> dict_get d k = Some v"
  using in_dict_get dict_get_Some_in by metis

lemma in_dict_set_iff [dict_simps]:
  "wf_dict d \<Longrightarrow> (k, v) \<in> set (dict_set k' v' d) \<longleftrightarrow> (if k = k' then v = v' else (k, v) \<in> set d)"
  by (simp add: in_dict_iff dict_get_set) blast

lemma filter_key:
  assumes "wf_dict d" and "dict_get d k = Some v"
  shows "filter (\<lambda>p. fst p = k \<and> b) d = (if b then [(k, v)] else [])"
  using assms
proof (induction d)
  case (Cons p d)
  then show ?case
    by (cases p) (auto simp: wf_dict_def dict_get_def filter_empty_conv split: if_splits)
qed simp

lemma dict_del_length: "int (length d) \<le> n \<Longrightarrow> int (length (dict_del k d)) \<le> n"
  using length_dict_del_le [of k d] by linarith

lemma move_to_end_absent [simp]: "k \<notin> set (dict_keys d) \<Longrightarrow> move_to_end k d = d"
  by (simp add: move_to_end_def map_of_eq_None_iff [THEN iffD2])

lemma distinct_fst_unique:
  "distinct (map fst ms) \<Longrightarrow> (a, b) \<in> set ms \<Longrightarrow> (a, b') \<in> set ms \<Longrightarrow> b = b'"
  by (rule eq_key_imp_eq_value)

lemma distinct_snd_unique:
  assumes "distinct (map snd ms)" and "(a, b) \<in> set ms" and "(a', b) \<in> set ms"
  shows "a = a'"
  using inj_onD [of snd "set ms" "(a, b)" "(a', b)"] assms by (simp add: distinct_map)

section \<open>The dotted class hierarchy\<close>

text \<open>
  \<^verbatim>\<open>class_id == ancestor or class_id.startswith(f"{ancestor}.")\<close>: the one test every
  component uses for class filters.
\<close>

definition startswith :: "string \<Rightarrow> string \<Rightarrow> bool" where
  "startswith s p \<longleftrightarrow> take (length p) s = p"

definition is_a :: "class_id \<Rightarrow> class_id \<Rightarrow> bool" where
  "is_a c ancestor \<longleftrightarrow> c = ancestor \<or> startswith c (ancestor @ ''.'')"

lemma startswith_prefix: "startswith s p \<longleftrightarrow> prefix p s"
  unfolding startswith_def prefix_def
  by (metis append_eq_conv_conj append_take_drop_id)

lemma is_a_refl [hierarchy_simps]: "is_a c c"
  by (simp add: is_a_def)

lemma is_a_trans: "is_a a b \<Longrightarrow> is_a b c \<Longrightarrow> is_a a c"
  unfolding is_a_def startswith_prefix
  by (metis prefix_order.trans append_prefixD)

lemma is_a_antisym: "is_a a b \<Longrightarrow> is_a b a \<Longrightarrow> a = b"
  unfolding is_a_def startswith_prefix by (auto dest!: prefix_length_le)

section \<open>Bounded deques, minima by a key, values in key order\<close>

text \<open>\<^verbatim>\<open>deque(maxlen=n).append(x)\<close>: the oldest entries fall off the left end.\<close>

definition deque_append :: "nat \<Rightarrow> 'a list \<Rightarrow> 'a \<Rightarrow> 'a list" where
  "deque_append n xs x = drop (length xs + 1 - n) (xs @ [x])"

lemma length_deque_append [simp]: "length xs \<le> n \<Longrightarrow> length (deque_append n xs x) \<le> n"
  by (auto simp: deque_append_def)

lemma last_deque_append [simp]: "0 < n \<Longrightarrow> last (deque_append n xs x) = x"
  by (simp add: deque_append_def)

text \<open>\<^verbatim>\<open>min(xs, key=f)\<close>: the first element whose key is least.\<close>

fun min_key :: "('a \<Rightarrow> 'k::linorder) \<Rightarrow> 'a \<Rightarrow> 'a list \<Rightarrow> 'a" where
  "min_key f x [] = x"
| "min_key f x (y # ys) = min_key f (if f y < f x then y else x) ys"

lemma min_key_in: "min_key f x ys \<in> insert x (set ys)"
  by (induction f x ys rule: min_key.induct) auto

lemma min_key_le_start: "f (min_key f x ys) \<le> f x"
proof (induction f x ys rule: min_key.induct)
  case (2 f x y ys)
  then show ?case
    by (cases "f y < f x") (auto intro: order_trans less_imp_le)
qed simp

lemma min_key_le: "z \<in> insert x (set ys) \<Longrightarrow> f (min_key f x ys) \<le> f z"
proof (induction f x ys rule: min_key.induct)
  case (2 f x y ys)
  show ?case
  proof (cases "z \<in> set ys")
    case True
    with 2 show ?thesis by simp
  next
    case False
    with 2(2) have "z = x \<or> z = y" by auto
    then show ?thesis
      using min_key_le_start [of f "if f y < f x then y else x" ys]
      by (cases "f y < f x") (auto intro: order_trans)
  qed
qed simp

text \<open>\<^verbatim>\<open>[d[k] for k in sorted(d)]\<close>.\<close>

definition sorted_items :: "('k::linorder, 'v) dict \<Rightarrow> ('k, 'v) dict" where
  "sorted_items d = sort_key fst d"

definition sorted_values :: "('k::linorder, 'v) dict \<Rightarrow> 'v list" where
  "sorted_values d = map snd (sorted_items d)"

lemma set_sorted_values [simp]: "set (sorted_values d) = snd ` set d"
  by (simp add: sorted_values_def sorted_items_def)

lemma length_sorted_values [simp]: "length (sorted_values d) = length d"
  by (simp add: sorted_values_def sorted_items_def)

lemma sorted_keys_sorted_items: "sorted (dict_keys (sorted_items d))"
  by (simp add: sorted_items_def)

lemma wf_dict_sorted_items: "wf_dict d \<Longrightarrow> wf_dict (sorted_items d)"
  by (simp add: wf_dict_def sorted_items_def distinct_map inj_on_def)

text \<open>\<^verbatim>\<open>sorted(d)\<close> does not depend on the order in which the keys were inserted.\<close>

lemma sorted_items_unique:
  assumes "wf_dict d" and "wf_dict e" and "set d = set e"
  shows "sorted_items d = sorted_items e"
proof (rule map_sorted_distinct_set_unique [where f = fst])
  show "inj_on fst (set (sorted_items d) \<union> set (sorted_items e))"
    using assms by (simp add: sorted_items_def wf_dict_def distinct_map)
  show "sorted (map fst (sorted_items d))" "sorted (map fst (sorted_items e))"
    by (simp_all add: sorted_keys_sorted_items)
  show "distinct (map fst (sorted_items d))" "distinct (map fst (sorted_items e))"
    using assms wf_dict_sorted_items by (auto simp: wf_dict_def)
  show "set (sorted_items d) = set (sorted_items e)"
    using assms by (simp add: sorted_items_def)
qed

section \<open>Iteration over sets\<close>

text \<open>
  What Python promises of the order in which a set of strings is iterated: each element once.
\<close>

definition enumerates :: "(string set \<Rightarrow> string list) \<Rightarrow> bool" where
  "enumerates enum \<longleftrightarrow> (\<forall>S. finite S \<longrightarrow> set (enum S) = S \<and> distinct (enum S))"

lemma sorted_list_enumerates: "enumerates sorted_list_of_set"
  by (simp add: enumerates_def)

end
