(* ===== verification/Closed_Machine.thy ===== *)
theory Closed_Machine
  imports Prelude
begin

text \<open>
  The contract shared by the platform's lifecycles. Track, object and demand lifecycles are
  each a closed machine: a finite table of allowed transitions, checked on every step, and
  terminal states that nothing leaves. \<open>closed_machine\<close> states the contract of the table,
  \<open>closed_machine_handler\<close> the contract of the code that moves through it. The component
  theories interpret both on the tables and handlers of the source. \<open>history\<close> is the list of
  states a handler passes through on a sequence of events, cut at the first exception.
\<close>

primrec history :: "('e \<Rightarrow> 's \<Rightarrow> 's result) \<Rightarrow> 's \<Rightarrow> 'e list \<Rightarrow> 's list" where
  "history handle s [] = [s]"
| "history handle s (e # es) =
     s # (case handle e s of Inl _ \<Rightarrow> [] | Inr t \<Rightarrow> history handle t es)"

lemma history_starts: "\<exists>ts. history handle s es = s # ts"
  by (cases es) auto

locale closed_machine =
  fixes allowed :: "'s \<Rightarrow> 's \<Rightarrow> bool"
    and terminal :: "'s \<Rightarrow> bool"
  assumes terminal_is_final: "terminal s \<Longrightarrow> \<not> allowed s t"
begin

lemma terminal_ends_history:
  assumes "successively allowed (xs @ s # ys)" and "terminal s"
  shows "ys = []"
proof (cases ys)
  case (Cons y zs)
  with assms(1) have "allowed s y"
    by (simp add: successively_append_iff)
  with assms(2) show ?thesis
    by (simp add: terminal_is_final)
qed simp

lemma history_nonterminal_before_end:
  assumes "successively allowed (xs @ ys)" and "ys \<noteq> []" and "s \<in> set xs"
  shows "\<not> terminal s"
proof
  assume "terminal s"
  from \<open>s \<in> set xs\<close> obtain as bs where "xs = as @ s # bs"
    by (meson split_list)
  with assms(1) have "successively allowed (as @ s # (bs @ ys))"
    by simp
  with \<open>terminal s\<close> have "bs @ ys = []"
    by (rule terminal_ends_history [rotated])
  with \<open>ys \<noteq> []\<close> show False by simp
qed

lemma reachable_from_terminal:
  assumes "allowed\<^sup>*\<^sup>* s t" and "terminal s"
  shows "t = s"
  using assms by (induction rule: converse_rtranclp_induct) (auto dest: terminal_is_final)

end

text \<open>
  A handler consumes events. It accepts an event exactly when it does not raise, accepts nothing
  in a terminal state, and every step it takes is one the table allows.
\<close>

locale closed_machine_handler = closed_machine allowed terminal
  for allowed :: "'s \<Rightarrow> 's \<Rightarrow> bool" and terminal :: "'s \<Rightarrow> bool" +
  fixes handle :: "'e \<Rightarrow> 's \<Rightarrow> 's result"
    and accepts :: "'e \<Rightarrow> 's \<Rightarrow> bool"
  assumes handle_allowed: "handle e s = Inr t \<Longrightarrow> allowed s t"
    and handle_accepts: "accepts e s \<Longrightarrow> \<exists>t. handle e s = Inr t"
    and handle_refuses: "\<not> accepts e s \<Longrightarrow> raises (handle e s)"
begin

lemma handle_raises_iff: "raises (handle e s) \<longleftrightarrow> \<not> accepts e s"
  using handle_accepts [of e s] handle_refuses [of e s] by auto

lemma terminal_accepts_nothing: "terminal s \<Longrightarrow> \<not> accepts e s"
  using handle_accepts [of e s] handle_allowed [of e s] terminal_is_final [of s] by blast

lemma history_legal: "successively allowed (history handle s es)"
proof (induction es arbitrary: s)
  case (Cons e es)
  show ?case
  proof (cases "handle e s")
    case (Inr t)
    obtain ts where ts: "history handle t es = t # ts"
      using history_starts [of handle t es] by blast
    from Inr have "allowed s t" by (rule handle_allowed)
    with Inr Cons.IH [of t] ts show ?thesis
      by simp
  qed simp
qed simp

lemma terminal_only_last:
  assumes "terminal t"
  shows "t \<notin> set (butlast (history handle s es))"
proof
  let ?h = "history handle s es"
  assume "t \<in> set (butlast ?h)"
  moreover have split: "?h = butlast ?h @ [last ?h]"
    using history_starts [of handle s es] by auto
  ultimately have "\<not> terminal t"
    using history_nonterminal_before_end [of "butlast ?h" "[last ?h]" t] history_legal [of s es] by simp
  with assms show False by simp
qed

end

end
