(* ===== verification/Timebase.thy ===== *)
theory Timebase
  imports Prelude
begin

text \<open>
  The time base of \<^verbatim>\<open>vision_os/core/model/timebase.py\<close>: instants and durations are integer
  nanoseconds, ordered as the \<^verbatim>\<open>order=True\<close> dataclasses are, and the rule for when two
  frames may be fused. Constructors from floating-point seconds are not modelled.
\<close>

section \<open>Instants and durations\<close>

datatype instant = Instant (instant_ns: int)

datatype duration = Duration (duration_ns: int)

definition instant_from_millis :: "int \<Rightarrow> instant" where
  "instant_from_millis m = Instant (m * 1000000)"

definition instant_millis :: "instant \<Rightarrow> int" where
  "instant_millis t = instant_ns t div 1000000"

definition instant_plus :: "instant \<Rightarrow> duration \<Rightarrow> instant" where
  "instant_plus t d = Instant (instant_ns t + duration_ns d)"

definition instant_minus :: "instant \<Rightarrow> duration \<Rightarrow> instant" where
  "instant_minus t d = Instant (instant_ns t - duration_ns d)"

definition since :: "instant \<Rightarrow> instant \<Rightarrow> duration" where
  "since t earlier = Duration (instant_ns t - instant_ns earlier)"

definition duration_from_millis :: "int \<Rightarrow> duration" where
  "duration_from_millis m = Duration (m * 1000000)"

definition duration_add :: "duration \<Rightarrow> duration \<Rightarrow> duration" where
  "duration_add a b = Duration (duration_ns a + duration_ns b)"

instantiation instant :: linorder
begin

definition less_eq_instant :: "instant \<Rightarrow> instant \<Rightarrow> bool" where
  "less_eq_instant a b \<longleftrightarrow> instant_ns a \<le> instant_ns b"

definition less_instant :: "instant \<Rightarrow> instant \<Rightarrow> bool" where
  "less_instant a b \<longleftrightarrow> instant_ns a < instant_ns b"

instance
  by standard (auto simp: less_eq_instant_def less_instant_def instant.expand)

end

instantiation duration :: linorder
begin

definition less_eq_duration :: "duration \<Rightarrow> duration \<Rightarrow> bool" where
  "less_eq_duration a b \<longleftrightarrow> duration_ns a \<le> duration_ns b"

definition less_duration :: "duration \<Rightarrow> duration \<Rightarrow> bool" where
  "less_duration a b \<longleftrightarrow> duration_ns a < duration_ns b"

instance
  by standard (auto simp: less_eq_duration_def less_duration_def duration.expand)

end

named_theorems time_simps \<open>instants and durations as integer nanoseconds\<close>

lemmas time_defs [time_simps] =
  instant_from_millis_def instant_plus_def instant_minus_def since_def
  duration_from_millis_def duration_add_def less_eq_instant_def less_instant_def
  less_eq_duration_def less_duration_def

lemma instant_plus_since [simp]: "instant_plus s (since t s) = t"
  by (cases t) (simp add: time_simps)

lemma since_instant_plus [simp]: "since (instant_plus t d) t = d"
  by (cases d) (simp add: time_simps)

lemma instant_minus_plus [simp]: "instant_minus (instant_plus t d) d = t"
  by (cases t) (simp add: time_simps)

lemma instant_millis_from_millis [simp]: "instant_millis (instant_from_millis m) = m"
  by (simp add: instant_millis_def time_simps)

section \<open>Clock quality and fusability\<close>

datatype clock_quality = PTP_LOCKED | NTP_SYNCED | RTCP_DERIVED | ESTIMATED | CLOCK_UNKNOWN

definition fusable :: "clock_quality \<Rightarrow> bool" where
  "fusable q \<longleftrightarrow> q \<noteq> CLOCK_UNKNOWN"

record frame_time =
  pts :: int
  t_capture :: instant
  t_capture_uncertainty :: duration
  t_ingest :: instant
  t_decoded :: instant
  frame_clock_quality :: clock_quality

definition check_frame_time :: "frame_time \<Rightarrow> frame_time result" where
  "check_frame_time t =
     (if duration_ns (t_capture_uncertainty t) < 0 then Inl ValueError else Inr t)"

definition ingest_latency :: "frame_time \<Rightarrow> duration" where
  "ingest_latency t = since (t_ingest t) (t_capture t)"

definition decode_latency :: "frame_time \<Rightarrow> duration" where
  "decode_latency t = since (t_decoded t) (t_ingest t)"

definition may_fuse_with :: "frame_time \<Rightarrow> frame_time \<Rightarrow> duration \<Rightarrow> bool" where
  "may_fuse_with a b scale =
     (if \<not> (fusable (frame_clock_quality a) \<and> fusable (frame_clock_quality b)) then False
      else duration_ns (t_capture_uncertainty a) + duration_ns (t_capture_uncertainty b)
             \<le> duration_ns scale)"

lemma may_fuse_with_commute: "may_fuse_with a b s = may_fuse_with b a s"
  by (auto simp: may_fuse_with_def)

lemma may_fuse_with_mono: "may_fuse_with a b s \<Longrightarrow> s \<le> s' \<Longrightarrow> may_fuse_with a b s'"
  by (auto simp: may_fuse_with_def time_simps split: if_splits)

end
