(* ===== verification/Track_Lifecycle.thy ===== *)
theory Track_Lifecycle
  imports Closed_Machine Timebase
begin

text \<open>
  The track lifecycle: states and break reasons of \<^verbatim>\<open>vision_os/core/model/track.py\<close> and
  the machine of \<^verbatim>\<open>vision_os/perception/tracking/lifecycle.py\<close>. \<open>on_hit\<close>, \<open>on_miss\<close> and
  \<open>terminate_track\<close> are the three methods of \<^verbatim>\<open>LifecycleMachine\<close>; each goes through
  \<open>track_to\<close>, which checks the table \<open>track_allowed\<close> as \<^verbatim>\<open>_to\<close> does.
\<close>

section \<open>States, reasons and the table\<close>

datatype track_state = TENTATIVE | CONFIRMED | COASTING | LOST | TERMINATED

fun track_state_value :: "track_state \<Rightarrow> string" where
  "track_state_value TENTATIVE = ''tentative''"
| "track_state_value CONFIRMED = ''confirmed''"
| "track_state_value COASTING = ''coasting''"
| "track_state_value LOST = ''lost''"
| "track_state_value TERMINATED = ''terminated''"

definition track_is_alive :: "track_state \<Rightarrow> bool" where
  "track_is_alive s \<longleftrightarrow> s \<noteq> TERMINATED"

definition track_is_predicted :: "track_state \<Rightarrow> bool" where
  "track_is_predicted s \<longleftrightarrow> s \<in> {COASTING, LOST}"

datatype break_reason =
  NONE | OCCLUSION | EXIT | DETECTOR_MISS | ASSOCIATION_FAILURE | EPOCH_RESET_BREAK

datatype transition_reason =
    CREATED | HIT | CONFIRMED_REASON | MISS | RECOVERED | COAST_EXCEEDED | LOST_WINDOW_EXPIRED
  | MAX_AGE_EXCEEDED | LEFT_FRAME | EPOCH_RESET | CAPACITY_EVICTED | AMBIGUOUS_ASSOCIATION

definition track_allowed :: "(track_state \<times> track_state) list" where
  "track_allowed =
     [(TENTATIVE, TENTATIVE), (TENTATIVE, CONFIRMED), (TENTATIVE, TERMINATED),
      (CONFIRMED, CONFIRMED), (CONFIRMED, COASTING), (CONFIRMED, TERMINATED),
      (COASTING, CONFIRMED), (COASTING, COASTING), (COASTING, LOST), (COASTING, TERMINATED),
      (LOST, CONFIRMED), (LOST, LOST), (LOST, TERMINATED)]"

definition track_is_legal :: "track_state \<Rightarrow> track_state \<Rightarrow> bool" where
  "track_is_legal previous current \<longleftrightarrow> (previous, current) \<in> set track_allowed"

definition check_track_transition :: "track_state \<Rightarrow> track_state \<Rightarrow> unit result" where
  "check_track_transition previous current =
     (if \<not> track_is_legal previous current
      then Inl (IllegalTransitionError (track_state_value previous) (track_state_value current))
      else Inr ())"

section \<open>The policy\<close>

record track_policy =
  min_hits_to_confirm :: int
  max_coast_frames :: int
  max_lost_frames :: int
  max_age_frames :: int
  max_tracks_per_camera :: int
  max_unmeasured_ns :: int

definition default_track_policy :: track_policy where
  "default_track_policy =
     \<lparr>min_hits_to_confirm = 3, max_coast_frames = 5, max_lost_frames = 15,
      max_age_frames = 36000, max_tracks_per_camera = 256, max_unmeasured_ns = 30000000000\<rparr>"

definition check_track_policy :: "track_policy \<Rightarrow> track_policy result" where
  "check_track_policy p =
     (if min_hits_to_confirm p < 1 then Inl ValueError
      else if max_coast_frames p < 0 then Inl ValueError
      else if max_lost_frames p < 0 then Inl ValueError
      else if max_age_frames p < 1 then Inl ValueError
      else if max_tracks_per_camera p < 1 then Inl ValueError
      else Inr p)"

section \<open>The machine\<close>

record transition =
  previous_state :: track_state
  current_state :: track_state
  transition_why :: transition_reason
  transition_break :: break_reason

definition transition_changed :: "transition \<Rightarrow> bool" where
  "transition_changed t \<longleftrightarrow> previous_state t \<noteq> current_state t"

definition is_recovery :: "transition \<Rightarrow> bool" where
  "is_recovery t \<longleftrightarrow> transition_why t = RECOVERED"

definition transition_is_terminal :: "transition \<Rightarrow> bool" where
  "transition_is_terminal t \<longleftrightarrow> current_state t = TERMINATED"

definition track_to ::
  "track_state \<Rightarrow> track_state \<Rightarrow> transition_reason \<Rightarrow> break_reason \<Rightarrow> transition result" where
  "track_to previous current why broken =
     bind_result (check_track_transition previous current) (\<lambda>_.
       Inr \<lparr>previous_state = previous, current_state = current, transition_why = why,
            transition_break = (if current \<noteq> CONFIRMED then broken else NONE)\<rparr>)"

definition on_hit :: "track_policy \<Rightarrow> track_state \<Rightarrow> int \<Rightarrow> int \<Rightarrow> transition result" where
  "on_hit policy state hit_count age_frames =
     (if state = TERMINATED
      then Inl (IllegalTransitionError (track_state_value state) ''hit'')
      else if age_frames \<ge> max_age_frames policy
      then track_to state TERMINATED MAX_AGE_EXCEEDED NONE
      else if state \<in> {COASTING, LOST}
      then track_to state CONFIRMED RECOVERED NONE
      else if state = TENTATIVE
      then (if hit_count \<ge> min_hits_to_confirm policy
            then track_to state CONFIRMED CONFIRMED_REASON NONE
            else track_to state TENTATIVE HIT NONE)
      else track_to state CONFIRMED HIT NONE)"

definition on_miss ::
  "track_policy \<Rightarrow> track_state \<Rightarrow> int \<Rightarrow> int \<Rightarrow> break_reason \<Rightarrow> int \<Rightarrow> transition result" where
  "on_miss policy state coast_frames age_frames broken since_measurement_ns =
     (if state = TERMINATED
      then Inl (IllegalTransitionError (track_state_value state) ''miss'')
      else if max_unmeasured_ns policy > 0 \<and> state \<noteq> TENTATIVE
           \<and> since_measurement_ns \<ge> max_unmeasured_ns policy
      then track_to state TERMINATED LOST_WINDOW_EXPIRED broken
      else if age_frames \<ge> max_age_frames policy
      then track_to state TERMINATED MAX_AGE_EXCEEDED broken
      else if state = TENTATIVE
      then track_to state TERMINATED MISS broken
      else if state = CONFIRMED
      then (if max_coast_frames policy = 0
            then track_to state TERMINATED COAST_EXCEEDED broken
            else track_to state COASTING MISS broken)
      else if state = COASTING
      then (if coast_frames > max_coast_frames policy
            then (if max_lost_frames policy = 0
                  then track_to state TERMINATED COAST_EXCEEDED broken
                  else track_to state LOST COAST_EXCEEDED broken)
            else track_to state COASTING MISS broken)
      else (let lost_frames = coast_frames - max_coast_frames policy
            in if lost_frames > max_lost_frames policy
               then track_to state TERMINATED LOST_WINDOW_EXPIRED broken
               else track_to state LOST MISS broken))"

definition terminate_track ::
  "track_state \<Rightarrow> transition_reason \<Rightarrow> break_reason \<Rightarrow> transition result" where
  "terminate_track state why broken =
     (if state = TERMINATED
      then Inl (IllegalTransitionError (track_state_value state) (track_state_value TERMINATED))
      else track_to state TERMINATED why broken)"

text \<open>
  The machine as one handler of events: the three methods with the arguments their callers
  pass.
\<close>

datatype track_event =
    Hit_Event int int
  | Miss_Event int int break_reason int
  | Terminate_Event transition_reason break_reason

fun track_transition :: "track_policy \<Rightarrow> track_event \<Rightarrow> track_state \<Rightarrow> transition result" where
  "track_transition p (Hit_Event hits age) s = on_hit p s hits age"
| "track_transition p (Miss_Event coast age broken gap) s = on_miss p s coast age broken gap"
| "track_transition p (Terminate_Event why broken) s = terminate_track s why broken"

definition track_handle :: "track_policy \<Rightarrow> track_event \<Rightarrow> track_state \<Rightarrow> track_state result" where
  "track_handle p e s = bind_result (track_transition p e s) (\<lambda>t. Inr (current_state t))"

section \<open>The machine keeps to its table\<close>

lemma track_is_legal_simps [simp]:
  "track_is_legal TENTATIVE t \<longleftrightarrow> t \<in> {TENTATIVE, CONFIRMED, TERMINATED}"
  "track_is_legal CONFIRMED t \<longleftrightarrow> t \<in> {CONFIRMED, COASTING, TERMINATED}"
  "track_is_legal COASTING t \<longleftrightarrow> t \<in> {CONFIRMED, COASTING, LOST, TERMINATED}"
  "track_is_legal LOST t \<longleftrightarrow> t \<in> {CONFIRMED, LOST, TERMINATED}"
  "\<not> track_is_legal TERMINATED t"
  by (auto simp: track_is_legal_def track_allowed_def)

lemma track_to_Inr_iff:
  "track_to s t why b = Inr r \<longleftrightarrow>
     track_is_legal s t \<and>
     r = \<lparr>previous_state = s, current_state = t, transition_why = why,
          transition_break = (if t \<noteq> CONFIRMED then b else NONE)\<rparr>"
  by (auto simp: track_to_def check_track_transition_def)

lemma track_to_legal: "track_to s t why b = Inr r \<Longrightarrow>
    previous_state r = s \<and> current_state r = t \<and> track_is_legal s t"
  by (simp add: track_to_Inr_iff)

lemma on_hit_outcome:
  assumes "on_hit p s h a = Inr r"
  shows "previous_state r = s \<and> track_is_legal s (current_state r)"
  using assms by (auto simp: on_hit_def dest!: track_to_legal split: if_splits)

lemma on_miss_outcome:
  assumes "on_miss p s c a b g = Inr r"
  shows "previous_state r = s \<and> track_is_legal s (current_state r)"
  using assms by (auto simp: on_miss_def Let_def dest!: track_to_legal split: if_splits)

lemma track_transition_outcome:
  assumes "track_transition p e s = Inr r"
  shows "previous_state r = s \<and> track_is_legal s (current_state r)"
  using assms
  by (cases e) (auto simp: terminate_track_def dest: on_hit_outcome on_miss_outcome track_to_legal
      split: if_splits)

lemma track_transition_total: "s \<noteq> TERMINATED \<Longrightarrow> \<exists>r. track_transition p e s = Inr r"
  by (cases e; cases s)
     (auto simp: on_hit_def on_miss_def terminate_track_def track_to_def Let_def
        check_track_transition_def)

interpretation track_machine: closed_machine track_is_legal "\<lambda>s. s = TERMINATED"
  by unfold_locales auto

lemma track_handle_terminated: "raises (track_handle p e TERMINATED)"
  by (cases e) (simp_all add: track_handle_def on_hit_def on_miss_def terminate_track_def)

interpretation track_handler:
  closed_machine_handler track_is_legal "\<lambda>s. s = TERMINATED" "track_handle p" "\<lambda>e s. s \<noteq> TERMINATED"
proof
  show "track_is_legal s t" if "track_handle p e s = Inr t" for e s t
    using that by (auto simp: track_handle_def result_simps dest: track_transition_outcome)
  show "\<exists>t. track_handle p e s = Inr t" if "s \<noteq> TERMINATED" for s e
    using track_transition_total [OF that, of p e] by (auto simp: track_handle_def)
  show "raises (track_handle p e s)" if "\<not> s \<noteq> TERMINATED" for s e
    using that track_handle_terminated by simp
qed

text \<open>
  C33: the track lifecycle is closed. Every state the machine passes through, on any sequence of
  hits, misses and forced terminations with any arguments, follows the table of allowed
  transitions; a transition raises exactly when the track is already terminated; and
  TERMINATED can only be the last state of a history.
\<close>

theorem track_lifecycle_closed:
  "successively track_is_legal (history (track_handle p) s es)
   \<and> (raises (track_transition p e s) \<longleftrightarrow> s = TERMINATED)
   \<and> TERMINATED \<notin> set (butlast (history (track_handle p) s es))"
proof -
  have "raises (track_transition p e s) \<longleftrightarrow> raises (track_handle p e s)"
    by (cases "track_transition p e s") (simp_all add: track_handle_def)
  then show ?thesis
    using track_handler.history_legal track_handler.handle_raises_iff track_handler.terminal_only_last
    by blast
qed

end
