(* ===== verification/Track_Table.thy ===== *)
theory Track_Table
  imports Track_Lifecycle
begin

text \<open>
  The per-camera track table of \<^verbatim>\<open>vision_os/perception/tracking/table.py\<close>, over the
  identifiers \<^verbatim>\<open>TrackId\<close> and \<^verbatim>\<open>FrameRef\<close> of \<^verbatim>\<open>core/model/ids.py\<close>. The table issues
  local ids, holds the live records and remembers the ids it retired. Confidences and
  costs are Python floats in the source; here they are exact rationals, of which the table
  only uses the order. The motion predictor of a record is a value of a type parameter
  \<open>'p\<close>: the table stores it and never looks inside.
\<close>

section \<open>Identifiers\<close>

datatype frame_ref = FrameRef (fr_camera: camera_id) (fr_stream_epoch: int) (fr_frame_seq: int)

definition mk_frame_ref :: "camera_id \<Rightarrow> int \<Rightarrow> int \<Rightarrow> frame_ref result" where
  "mk_frame_ref c e s =
     (if e < 0 then Inl ValueError else if s < 0 then Inl ValueError else Inr (FrameRef c e s))"

definition follows_in_same_epoch :: "frame_ref \<Rightarrow> frame_ref \<Rightarrow> bool" where
  "follows_in_same_epoch a b \<longleftrightarrow>
     fr_camera a = fr_camera b \<and> fr_stream_epoch a = fr_stream_epoch b
     \<and> fr_frame_seq a > fr_frame_seq b"

datatype track_id = TrackId (tid_camera: camera_id) (tid_epoch: int) (tid_local: int)

definition mk_track_id :: "camera_id \<Rightarrow> int \<Rightarrow> int \<Rightarrow> track_id result" where
  "mk_track_id c e l =
     (if e < 0 then Inl ValueError else if l < 0 then Inl ValueError else Inr (TrackId c e l))"

definition same_epoch_as :: "track_id \<Rightarrow> track_id \<Rightarrow> bool" where
  "same_epoch_as a b \<longleftrightarrow> tid_camera a = tid_camera b \<and> tid_epoch a = tid_epoch b"

definition tid_key :: "track_id \<Rightarrow> string \<times> int \<times> int" where
  "tid_key t = (tid_camera t, tid_epoch t, tid_local t)"

lemma tid_key_inject [simp]: "tid_key a = tid_key b \<longleftrightarrow> a = b"
  by (auto simp: tid_key_def track_id.expand)

instantiation track_id :: linorder
begin

definition less_eq_track_id :: "track_id \<Rightarrow> track_id \<Rightarrow> bool" where
  "less_eq_track_id a b \<longleftrightarrow> tid_key a \<le> tid_key b"

definition less_track_id :: "track_id \<Rightarrow> track_id \<Rightarrow> bool" where
  "less_track_id a b \<longleftrightarrow> tid_key a < tid_key b"

instance
proof
  fix a b c :: track_id
  show "a < b \<longleftrightarrow> a \<le> b \<and> \<not> b \<le> a"
    unfolding less_eq_track_id_def less_track_id_def by (rule less_le_not_le)
  show "a \<le> a" and "a \<le> b \<or> b \<le> a"
    unfolding less_eq_track_id_def by (rule order_refl, rule linear)
  show "a \<le> c" if "a \<le> b" and "b \<le> c"
    using that order_trans by (auto simp: less_eq_track_id_def)
  show "a = b" if "a \<le> b" and "b \<le> a"
    using that antisym [of "tid_key a" "tid_key b"] by (simp add: less_eq_track_id_def)
qed

end

section \<open>Records\<close>

datatype motion_state = STATIONARY | MOVING | ERRATIC | MOTION_UNKNOWN

datatype association_method =
  IOU | MOTION_GATED_IOU | CENTROID_DISTANCE | APPEARANCE | REINITIALIZED

record box =
  box_x1 :: rat
  box_y1 :: rat
  box_x2 :: rat
  box_y2 :: rat

record 'p track_record =
  rec_id :: track_id
  rec_class :: class_id
  rec_box :: box
  rec_state :: track_state
  rec_predictor :: 'p
  rec_tenant :: tenant_id
  rec_site :: site_id
  first_seen :: instant
  last_seen :: instant
  last_updated :: instant
  age_frames :: int
  hit_count :: int
  coast_frames :: int
  since_measurement_ns :: int
  association_confidence :: rat
  assoc_method :: association_method
  association_cost :: rat
  runner_up_cost :: "rat option"
  gated_candidates :: int
  rec_motion :: motion_state
  rec_break :: break_reason
  rec_history :: "frame_ref list"
  still_frames :: int
  moving_frames :: int
  direction_changes :: int
  last_heading :: "rat option"

definition is_measured_this_frame :: "'p track_record \<Rightarrow> bool" where
  "is_measured_this_frame r \<longleftrightarrow> coast_frames r = 0"

section \<open>The table\<close>

record 'p track_table =
  tt_camera :: camera_id
  tt_epoch :: int
  tt_max_tracks :: int
  tt_history_length :: int
  tt_records :: "(track_id, 'p track_record) dict"
  tt_next_local :: int
  tt_retired :: "track_id set"

definition new_table :: "camera_id \<Rightarrow> int \<Rightarrow> int \<Rightarrow> int \<Rightarrow> 'p track_table result" where
  "new_table camera epoch max_tracks history_length =
     (if max_tracks < 1 then Inl ValueError
      else if history_length < 1 then Inl ValueError
      else Inr \<lparr>tt_camera = camera, tt_epoch = epoch, tt_max_tracks = max_tracks,
                tt_history_length = history_length, tt_records = [], tt_next_local = 0,
                tt_retired = {}\<rparr>)"

definition table_records :: "'p track_table \<Rightarrow> 'p track_record list" where
  "table_records t = sorted_values (tt_records t)"

definition table_get :: "'p track_table \<Rightarrow> track_id \<Rightarrow> 'p track_record option" where
  "table_get t i = dict_get (tt_records t) i"

definition table_create ::
  "class_id \<Rightarrow> box \<Rightarrow> 'p \<Rightarrow> instant \<Rightarrow> frame_ref \<Rightarrow> tenant_id \<Rightarrow> site_id \<Rightarrow>
   'p track_table \<Rightarrow> ('p track_record \<times> 'p track_table) result" where
  "table_create cls bx predictor now ref tenant site t =
     (if int (length (tt_records t)) \<ge> tt_max_tracks t
      then Inl (TrackerCapacityError (tt_camera t) (tt_max_tracks t))
      else bind_result (mk_track_id (tt_camera t) (tt_epoch t) (tt_next_local t)) (\<lambda>i.
        let r = \<lparr>rec_id = i, rec_class = cls, rec_box = bx, rec_state = TENTATIVE,
                 rec_predictor = predictor, rec_tenant = tenant, rec_site = site,
                 first_seen = now, last_seen = now, last_updated = now,
                 age_frames = 1, hit_count = 1, coast_frames = 0, since_measurement_ns = 0,
                 association_confidence = 0, assoc_method = REINITIALIZED,
                 association_cost = 0, runner_up_cost = None, gated_candidates = 0,
                 rec_motion = MOTION_UNKNOWN, rec_break = NONE,
                 rec_history = deque_append (nat (tt_history_length t)) [] ref,
                 still_frames = 0, moving_frames = 0, direction_changes = 0,
                 last_heading = None\<rparr>
        in Inr (r, t\<lparr>tt_next_local := tt_next_local t + 1,
                      tt_records := dict_set i r (tt_records t)\<rparr>)))"

definition table_remove ::
  "track_id \<Rightarrow> 'p track_table \<Rightarrow> 'p track_record option \<times> 'p track_table" where
  "table_remove i t =
     (case dict_get (tt_records t) i of
        None \<Rightarrow> (None, t)
      | Some r \<Rightarrow> (Some r, t\<lparr>tt_records := dict_del i (tt_records t),
                             tt_retired := insert i (tt_retired t)\<rparr>))"

definition eviction_key :: "'p track_record \<Rightarrow> bool \<times> int \<times> rat \<times> int" where
  "eviction_key r =
     (rec_state r \<noteq> TENTATIVE, - coast_frames r, association_confidence r, tid_local (rec_id r))"

definition evict_weakest :: "'p track_table \<Rightarrow> 'p track_record option \<times> 'p track_table" where
  "evict_weakest t =
     (case map snd (tt_records t) of
        [] \<Rightarrow> (None, t)
      | r # rs \<Rightarrow> table_remove (rec_id (min_key eviction_key r rs)) t)"

definition table_reset :: "int \<Rightarrow> 'p track_table \<Rightarrow> 'p track_record list \<times> 'p track_table" where
  "table_reset epoch t =
     (sorted_values (tt_records t),
      t\<lparr>tt_records := [], tt_retired := {}, tt_epoch := epoch, tt_next_local := 0\<rparr>)"

definition was_retired :: "'p track_table \<Rightarrow> track_id \<Rightarrow> bool" where
  "was_retired t i \<longleftrightarrow> i \<in> tt_retired t"

text \<open>Writing a field of a live record, which the tracker does through the reference it holds.\<close>

definition table_write :: "'p track_record \<Rightarrow> 'p track_table \<Rightarrow> 'p track_table" where
  "table_write r t = t\<lparr>tt_records := dict_set (rec_id r) r (tt_records t)\<rparr>"

section \<open>The invariant of the table\<close>

definition issued :: "'p track_table \<Rightarrow> track_id \<Rightarrow> bool" where
  "issued t i \<longleftrightarrow> tid_camera i = tt_camera t \<and> tid_epoch i = tt_epoch t
     \<and> 0 \<le> tid_local i \<and> tid_local i < tt_next_local t"

definition table_ok :: "'p track_table \<Rightarrow> bool" where
  "table_ok t \<longleftrightarrow>
     wf_dict (tt_records t)
     \<and> (\<forall>(i, r) \<in> set (tt_records t). rec_id r = i \<and> issued t i \<and> i \<notin> tt_retired t)
     \<and> (\<forall>i \<in> tt_retired t. issued t i)
     \<and> int (length (tt_records t)) \<le> tt_max_tracks t
     \<and> 1 \<le> tt_max_tracks t \<and> 1 \<le> tt_history_length t
     \<and> 0 \<le> tt_epoch t \<and> 0 \<le> tt_next_local t"

definition live :: "'p track_table \<Rightarrow> track_id set" where
  "live t = set (dict_keys (tt_records t))"

lemma table_okD:
  assumes "table_ok t"
  shows "wf_dict (tt_records t)" and "live t \<inter> tt_retired t = {}"
    and "i \<in> live t \<Longrightarrow> issued t i" and "i \<in> tt_retired t \<Longrightarrow> issued t i"
    and "(i, r) \<in> set (tt_records t) \<Longrightarrow> rec_id r = i"
    and "int (length (tt_records t)) \<le> tt_max_tracks t" and "1 \<le> tt_max_tracks t"
    and "0 \<le> tt_next_local t" and "0 \<le> tt_epoch t"
  using assms by (auto simp: table_ok_def live_def)

lemma new_table_ok: "0 \<le> e \<Longrightarrow> new_table c e m h = Inr t \<Longrightarrow> table_ok t"
  by (auto simp: new_table_def table_ok_def split: if_splits)

lemma table_create_fresh:
  assumes "table_create cls bx p now ref tn st t = Inr (r, t')"
  shows "rec_id r = TrackId (tt_camera t) (tt_epoch t) (tt_next_local t)"
    and "t' = t\<lparr>tt_next_local := tt_next_local t + 1,
              tt_records := dict_set (rec_id r) r (tt_records t)\<rparr>"
    and "int (length (tt_records t)) < tt_max_tracks t"
  using assms
  by (auto simp: table_create_def mk_track_id_def Let_def split: if_splits)

lemma table_create_ok:
  assumes ok: "table_ok t" and create: "table_create cls bx p now ref tn st t = Inr (r, t')"
  shows "table_ok t'"
proof -
  note c = table_create_fresh [OF create]
  have fresh: "\<not> issued t (rec_id r)"
    by (simp add: issued_def c(1))
  have "rec_id r \<notin> live t" and "rec_id r \<notin> tt_retired t"
    using fresh ok by (auto dest: table_okD)
  moreover have "issued t' i" if "issued t i" for i
    using that by (simp add: issued_def c(2))
  moreover have "issued t' (rec_id r)"
    using table_okD(8) [OF ok] by (simp add: issued_def c(1,2))
  ultimately show ?thesis
    using ok c(3)
    by (auto simp: table_ok_def c(2) live_def dict_simps dest!: in_dict_set)
qed

lemma in_table_remove_iff:
  "(i, q) \<in> set (tt_records (snd (table_remove j t))) \<longleftrightarrow> i \<noteq> j \<and> (i, q) \<in> set (tt_records t)"
  by (force simp: table_remove_def dict_simps dict_get_None_iff split: option.splits)

lemma table_remove_ok:
  assumes "table_ok t"
  shows "table_ok (snd (table_remove i t))"
proof (cases "dict_get (tt_records t) i")
  case (Some r)
  then have "issued t i"
    using assms by (auto simp: table_ok_def dest!: dict_get_Some_in)
  with Some assms show ?thesis
    by (auto simp: table_ok_def table_remove_def issued_def dict_simps dict_del_length)
qed (simp add: table_remove_def assms)

lemma evict_weakest_victim:
  assumes ok: "table_ok t" and ne: "tt_records t \<noteq> []"
  obtains i r where "(i, r) \<in> set (tt_records t)"
    and "\<forall>(j, q) \<in> set (tt_records t). eviction_key r \<le> eviction_key q"
    and "evict_weakest t = (Some r, snd (table_remove i t))"
proof -
  obtain j q rest where d: "tt_records t = (j, q) # rest"
    using ne by (cases "tt_records t") auto
  define r where "r = min_key eviction_key q (map snd rest)"
  have "r \<in> snd ` set (tt_records t)"
    using min_key_in [of eviction_key q "map snd rest"] by (auto simp: d r_def)
  then obtain i where i: "(i, r) \<in> set (tt_records t)" by auto
  have least: "eviction_key r \<le> eviction_key q'" if "(j', q') \<in> set (tt_records t)" for j' q'
    using that min_key_le [of q' q "map snd rest" eviction_key]
    by (force simp: d r_def)
  have "rec_id r = i" and get: "dict_get (tt_records t) i = Some r"
    using ok i by (auto dest: table_okD intro: in_dict_get)
  then have "evict_weakest t = (Some r, snd (table_remove i t))"
    by (simp add: evict_weakest_def d r_def [symmetric] table_remove_def)
  with i least show thesis by (intro that) auto
qed

lemma evict_weakest_ok:
  assumes "table_ok t"
  shows "table_ok (snd (evict_weakest t))"
proof (cases "tt_records t = []")
  case True
  with assms show ?thesis by (simp add: evict_weakest_def)
next
  case False
  with assms obtain i r where "evict_weakest t = (Some r, snd (table_remove i t))"
    by (rule evict_weakest_victim)
  with assms show ?thesis by (simp add: table_remove_ok)
qed

lemma table_reset_ok: "table_ok t \<Longrightarrow> 0 \<le> e \<Longrightarrow> table_ok (snd (table_reset e t))"
  by (simp add: table_ok_def table_reset_def)

lemma table_write_ok:
  assumes "table_ok t" and "rec_id r \<in> live t"
  shows "table_ok (table_write r t)" and "live (table_write r t) = live t"
  using assms
  by (auto simp: table_ok_def table_write_def issued_def live_def dict_simps dest!: in_dict_set)

section \<open>Runs of the table within one tracker epoch\<close>

inductive table_step :: "'p track_table \<Rightarrow> 'p track_table \<Rightarrow> bool" where
  create: "table_create cls bx p now ref tn st t = Inr (r, t') \<Longrightarrow> table_step t t'"
| remove: "table_step t (snd (table_remove i t))"
| evict: "table_step t (snd (evict_weakest t))"
| overwrite: "rec_id r \<in> live t \<Longrightarrow> table_step t (table_write r t)"

lemma table_remove_frame:
  "tt_retired t \<subseteq> tt_retired (snd (table_remove i t))"
  "tt_epoch (snd (table_remove i t)) = tt_epoch t"
  "tt_camera (snd (table_remove i t)) = tt_camera t"
  "tt_next_local (snd (table_remove i t)) = tt_next_local t"
  "tt_max_tracks (snd (table_remove i t)) = tt_max_tracks t"
  by (auto simp: table_remove_def split: option.splits)

lemma evict_weakest_frame:
  "tt_retired t \<subseteq> tt_retired (snd (evict_weakest t))"
  "tt_epoch (snd (evict_weakest t)) = tt_epoch t"
  "tt_camera (snd (evict_weakest t)) = tt_camera t"
  "tt_next_local (snd (evict_weakest t)) = tt_next_local t"
  "tt_max_tracks (snd (evict_weakest t)) = tt_max_tracks t"
  using table_remove_frame by (auto simp: evict_weakest_def split: list.splits)

lemma table_step_frame:
  assumes "table_step t u"
  shows "tt_retired t \<subseteq> tt_retired u \<and> tt_epoch u = tt_epoch t \<and> tt_camera u = tt_camera t
    \<and> tt_next_local t \<le> tt_next_local u \<and> tt_max_tracks u = tt_max_tracks t"
  using assms
proof (cases rule: table_step.cases)
  case (create cls bx p now ref tn st r)
  then show ?thesis by (simp add: table_create_fresh(2) [OF create])
qed (simp_all add: table_remove_frame evict_weakest_frame table_write_def)

lemma table_step_ok: "table_step t u \<Longrightarrow> table_ok t \<Longrightarrow> table_ok u"
  by (induction rule: table_step.induct)
     (auto intro: table_create_ok table_remove_ok evict_weakest_ok table_write_ok)

text \<open>Once issued, an id is never issued again: it stays live or goes to the retired set.\<close>

lemma table_step_issued_stays:
  assumes "table_step t u" and "table_ok t" and "i \<in> live u" and "i \<notin> live t"
  shows "\<not> issued t i"
  using assms
proof (cases rule: table_step.cases)
  case (create cls bx p now ref tn st r)
  note c = table_create_fresh [OF create]
  have "i = rec_id r"
    using assms(3,4) by (auto simp: c(2) live_def dict_simps split: if_splits)
  then show ?thesis by (simp add: c(1) issued_def)
next
  case (remove j)
  with assms(3,4) have False
    by (auto simp: live_def table_remove_def dict_simps split: option.splits)
  then show ?thesis ..
next
  case evict
  have "live (snd (evict_weakest t)) \<subseteq> live t"
    by (auto simp: live_def evict_weakest_def table_remove_def dict_simps
        split: option.splits list.splits)
  with evict assms(3,4) have False by auto
  then show ?thesis ..
next
  case (overwrite r)
  with table_write_ok(2) [OF assms(2) overwrite(2)] assms(3,4) show ?thesis by simp
qed

lemma table_run_ok:
  assumes "table_step\<^sup>*\<^sup>* t u" and "table_ok t"
  shows "table_ok u \<and> tt_retired t \<subseteq> tt_retired u \<and> tt_epoch u = tt_epoch t
    \<and> tt_camera u = tt_camera t \<and> tt_max_tracks u = tt_max_tracks t"
  using assms
proof (induction rule: rtranclp_induct)
  case (step u v)
  then show ?case
    using table_step_ok [of u v] table_step_frame [of u v] by auto
qed simp

lemma table_step_issued_mono: "table_step t u \<Longrightarrow> issued t i \<Longrightarrow> issued u i"
  using table_step_frame [of t u] by (auto simp: issued_def)

lemma table_run_gone_stays_gone:
  assumes "table_step\<^sup>*\<^sup>* t u" and "table_ok t" and "issued t i" and "i \<notin> live t"
  shows "issued u i \<and> i \<notin> live u"
  using assms
proof (induction rule: rtranclp_induct)
  case (step u v)
  then have "table_ok u" using table_run_ok by blast
  with step show ?case
    using table_step_issued_mono [of u v i] table_step_issued_stays [of u v i] by blast
qed simp

end
