(* ===== verification/Motion.thy ===== *)
theory Motion
  imports Track_Table
begin

text \<open>
  Boxes of \<^verbatim>\<open>vision_os/core/model/space.py\<close> and the motion predictors of
  \<^verbatim>\<open>vision_os/adapters/tracking/motion.py\<close>. Floats are exact rationals. The two
  transcendental functions of Python's \<^verbatim>\<open>math\<close> module that the source calls
  (\<^verbatim>\<open>hypot\<close>, and \<^verbatim>\<open>degrees(atan2(y, x))\<close>) return rounded values that no exact
  definition reproduces; they are the two fields of \<open>math_lib\<close>, an argument of the definitions
  that call them, and no theorem below assumes anything of them but where it says so.
\<close>

record math_lib =
  hypot :: "rat \<Rightarrow> rat \<Rightarrow> rat"
  atan2_degrees :: "rat \<Rightarrow> rat \<Rightarrow> rat"

section \<open>Boxes\<close>

definition degenerate_box :: "box \<Rightarrow> bool" where
  "degenerate_box b \<longleftrightarrow> box_x2 b \<le> box_x1 b \<or> box_y2 b \<le> box_y1 b"

definition mk_box :: "rat \<Rightarrow> rat \<Rightarrow> rat \<Rightarrow> rat \<Rightarrow> box result" where
  "mk_box x1 y1 x2 y2 =
     (let b = \<lparr>box_x1 = x1, box_y1 = y1, box_x2 = x2, box_y2 = y2\<rparr>
      in if degenerate_box b then Inl ValueError else Inr b)"

definition box_width :: "box \<Rightarrow> rat" where
  "box_width b = box_x2 b - box_x1 b"

definition box_height :: "box \<Rightarrow> rat" where
  "box_height b = box_y2 b - box_y1 b"

definition box_area :: "box \<Rightarrow> rat" where
  "box_area b = box_width b * box_height b"

definition box_centre :: "box \<Rightarrow> rat \<times> rat" where
  "box_centre b = ((box_x1 b + box_x2 b) / 2, (box_y1 b + box_y2 b) / 2)"

definition distance_to :: "math_lib \<Rightarrow> rat \<times> rat \<Rightarrow> rat \<times> rat \<Rightarrow> rat" where
  "distance_to ml p q = hypot ml (fst p - fst q) (snd p - snd q)"

definition clamp_unit :: "rat \<Rightarrow> rat" where
  "clamp_unit x = max 0 (min 1 x)"

definition clamped_to_unit :: "box \<Rightarrow> box result" where
  "clamped_to_unit b =
     mk_box (clamp_unit (box_x1 b)) (clamp_unit (box_y1 b)) (clamp_unit (box_x2 b)) (clamp_unit (box_y2 b))"

definition is_within_unit :: "box \<Rightarrow> bool" where
  "is_within_unit b \<longleftrightarrow> 0 \<le> box_x1 b \<and> 0 \<le> box_y1 b \<and> box_x2 b \<le> 1 \<and> box_y2 b \<le> 1"

lemma clamp_unit_range [simp]: "0 \<le> clamp_unit x" "clamp_unit x \<le> 1"
  by (simp_all add: clamp_unit_def)

lemma clamp_unit_id: "0 \<le> x \<Longrightarrow> x \<le> 1 \<Longrightarrow> clamp_unit x = x"
  by (simp add: clamp_unit_def)

lemma mk_box_Inr_iff:
  "mk_box x1 y1 x2 y2 = Inr b \<longleftrightarrow>
     b = \<lparr>box_x1 = x1, box_y1 = y1, box_x2 = x2, box_y2 = y2\<rparr> \<and> x1 < x2 \<and> y1 < y2"
  by (auto simp: mk_box_def degenerate_box_def Let_def)

lemma box_area_pos: "\<not> degenerate_box b \<Longrightarrow> 0 < box_area b"
  by (simp add: degenerate_box_def box_area_def box_width_def box_height_def)

lemma clamped_to_unit_within: "clamped_to_unit b = Inr c \<Longrightarrow> is_within_unit c \<and> \<not> degenerate_box c"
  by (auto simp: clamped_to_unit_def mk_box_Inr_iff is_within_unit_def degenerate_box_def)

section \<open>Predictions\<close>

definition duration_seconds :: "duration \<Rightarrow> rat" where
  "duration_seconds d = of_int (duration_ns d) / 1000000000"

record prediction =
  pr_x1 :: rat
  pr_y1 :: rat
  pr_x2 :: rat
  pr_y2 :: rat
  pr_uncertainty :: rat

definition mk_prediction :: "rat \<Rightarrow> rat \<Rightarrow> rat \<Rightarrow> rat \<Rightarrow> rat \<Rightarrow> prediction result" where
  "mk_prediction x1 y1 x2 y2 u =
     (if u < 0 then Inl ValueError
      else Inr \<lparr>pr_x1 = x1, pr_y1 = y1, pr_x2 = x2, pr_y2 = y2, pr_uncertainty = u\<rparr>)"

definition prediction_of_box :: "box \<Rightarrow> prediction" where
  "prediction_of_box b =
     \<lparr>pr_x1 = box_x1 b, pr_y1 = box_y1 b, pr_x2 = box_x2 b, pr_y2 = box_y2 b, pr_uncertainty = 0\<rparr>"

text \<open>The two predictors with their fields.\<close>

record linear_predictor =
  lp_smoothing :: rat
  lp_growth :: rat
  lp_box :: "box option"
  lp_velocity :: "rat \<times> rat"
  lp_acceleration :: "(rat \<times> rat) option"
  lp_observations :: int

datatype motion_predictor = StationaryPredictor "box option" rat | LinearPredictor linear_predictor

definition new_stationary :: motion_predictor where
  "new_stationary = StationaryPredictor None (5 / 100)"

definition new_linear :: "rat \<Rightarrow> motion_predictor result" where
  "new_linear smoothing =
     (if \<not> (0 < smoothing \<and> smoothing \<le> 1) then Inl ValueError
      else Inr (LinearPredictor
        \<lparr>lp_smoothing = smoothing, lp_growth = 5 / 100, lp_box = None, lp_velocity = (0, 0),
         lp_acceleration = None, lp_observations = 0\<rparr>))"

definition linear_observe :: "linear_predictor \<Rightarrow> box \<Rightarrow> duration \<Rightarrow> linear_predictor" where
  "linear_observe p b elapsed =
     (let seconds = duration_seconds elapsed;
          p' = (case lp_box p of
                  None \<Rightarrow> p
                | Some prev \<Rightarrow>
                    if seconds > 0 then
                      (let (pcx, pcy) = box_centre prev;
                           (cx, cy) = box_centre b;
                           inst = ((cx - pcx) / seconds, (cy - pcy) / seconds);
                           pv = lp_velocity p;
                           alpha = lp_smoothing p;
                           v = (alpha * fst inst + (1 - alpha) * fst pv,
                                alpha * snd inst + (1 - alpha) * snd pv);
                           q = p\<lparr>lp_velocity := v\<rparr>
                       in if lp_observations p \<ge> 2
                          then q\<lparr>lp_acceleration :=
                                 Some ((fst v - fst pv) / seconds, (snd v - snd pv) / seconds)\<rparr>
                          else q)
                    else p)
      in p'\<lparr>lp_box := Some b, lp_observations := lp_observations p + 1\<rparr>)"

fun predictor_observe :: "motion_predictor \<Rightarrow> box \<Rightarrow> duration \<Rightarrow> motion_predictor" where
  "predictor_observe (StationaryPredictor _ g) b elapsed = StationaryPredictor (Some b) g"
| "predictor_observe (LinearPredictor p) b elapsed = LinearPredictor (linear_observe p b elapsed)"

fun predictor_predict :: "motion_predictor \<Rightarrow> duration \<Rightarrow> prediction result" where
  "predictor_predict (StationaryPredictor bx g) elapsed =
     (case bx of
        None \<Rightarrow> Inl ValueError
      | Some b \<Rightarrow> mk_prediction (box_x1 b) (box_y1 b) (box_x2 b) (box_y2 b)
                    (g * duration_seconds elapsed))"
| "predictor_predict (LinearPredictor p) elapsed =
     (case lp_box p of
        None \<Rightarrow> Inl ValueError
      | Some b \<Rightarrow>
          let seconds = duration_seconds elapsed;
              dx = fst (lp_velocity p) * seconds;
              dy = snd (lp_velocity p) * seconds
          in mk_prediction (box_x1 b + dx) (box_y1 b + dy) (box_x2 b + dx) (box_y2 b + dy)
               (lp_growth p * seconds))"

fun predictor_velocity :: "motion_predictor \<Rightarrow> rat \<times> rat" where
  "predictor_velocity (StationaryPredictor _ _) = (0, 0)"
| "predictor_velocity (LinearPredictor p) = lp_velocity p"

fun predictor_acceleration :: "motion_predictor \<Rightarrow> (rat \<times> rat) option" where
  "predictor_acceleration (StationaryPredictor _ _) = None"
| "predictor_acceleration (LinearPredictor p) = lp_acceleration p"

definition speed_of :: "math_lib \<Rightarrow> rat \<times> rat \<Rightarrow> rat" where
  "speed_of ml v = hypot ml (fst v) (snd v)"

text \<open>Python's \<^verbatim>\<open>x % 360.0\<close> takes the sign of the divisor.\<close>

definition mod_360 :: "rat \<Rightarrow> rat" where
  "mod_360 x = x - 360 * of_int \<lfloor>x / 360\<rfloor>"

definition heading_of :: "math_lib \<Rightarrow> rat \<times> rat \<Rightarrow> rat option" where
  "heading_of ml v =
     (if speed_of ml v < 1 / 10000 then None
      else Some (mod_360 (atan2_degrees ml (snd v) (fst v))))"

lemma mod_360_range: "0 \<le> mod_360 x \<and> mod_360 x < 360"
proof -
  have "of_int \<lfloor>x / 360\<rfloor> \<le> x / 360" and "x / 360 < of_int \<lfloor>x / 360\<rfloor> + 1"
    by linarith+
  then show ?thesis unfolding mod_360_def by linarith
qed

lemma heading_range: "heading_of ml v = Some h \<Longrightarrow> 0 \<le> h \<and> h < 360"
  using mod_360_range by (auto simp: heading_of_def split: if_splits)

text \<open>
  A linear predictor keeps the size of the box it last saw: it moves, it never scales. The
  same holds trivially of the stationary one.
\<close>

lemma predict_keeps_size:
  assumes "predictor_predict p d = Inr q"
  obtains b where "pr_x2 q - pr_x1 q = box_width b" and "pr_y2 q - pr_y1 q = box_height b"
    and "(case p of StationaryPredictor bx _ \<Rightarrow> bx | LinearPredictor l \<Rightarrow> lp_box l) = Some b"
proof (cases p)
  case (StationaryPredictor bx g)
  with assms show thesis
    by (auto simp: mk_prediction_def box_width_def box_height_def intro!: that split: option.splits if_splits)
next
  case (LinearPredictor l)
  with assms show thesis
    by (auto simp: mk_prediction_def box_width_def box_height_def Let_def intro!: that
        split: option.splits if_splits)
qed

text \<open>
  A straight walk: n further measurements, each one duration \<open>d\<close> later and displaced by the
  same velocity.
\<close>

definition shift_box :: "box \<Rightarrow> rat \<Rightarrow> rat \<Rightarrow> box" where
  "shift_box b dx dy = \<lparr>box_x1 = box_x1 b + dx, box_y1 = box_y1 b + dy,
                        box_x2 = box_x2 b + dx, box_y2 = box_y2 b + dy\<rparr>"

lemma centre_shift: "box_centre (shift_box b dx dy) = (fst (box_centre b) + dx, snd (box_centre b) + dy)"
  by (simp add: box_centre_def shift_box_def field_simps)

lemma linear_observe_velocity:
  assumes "lp_box p = Some b" and "0 < duration_seconds d"
  shows "lp_velocity (linear_observe p (shift_box b dx dy) d) =
    (lp_smoothing p * (dx / duration_seconds d) + (1 - lp_smoothing p) * fst (lp_velocity p),
     lp_smoothing p * (dy / duration_seconds d) + (1 - lp_smoothing p) * snd (lp_velocity p))"
  using assms by (simp add: linear_observe_def centre_shift Let_def split: prod.split)

fun observe_line :: "rat \<Rightarrow> rat \<Rightarrow> duration \<Rightarrow> nat \<Rightarrow> box \<Rightarrow> linear_predictor \<Rightarrow> linear_predictor" where
  "observe_line vx vy d 0 b p = p"
| "observe_line vx vy d (Suc n) b p =
     (let c = shift_box b (vx * duration_seconds d) (vy * duration_seconds d)
      in observe_line vx vy d n c (linear_observe p c d))"

lemma linear_observe_fields [simp]:
  "lp_smoothing (linear_observe p c d) = lp_smoothing p"
  "lp_box (linear_observe p c d) = Some c"
  by (simp_all add: linear_observe_def Let_def split: option.split prod.split)

text \<open>
  While an object moves in a straight line at constant velocity, the error of the velocity
  estimate shrinks by the factor (1 - smoothing) with every measurement: after n of them it is
  (1 - smoothing) to the n times the initial error, in each coordinate.
\<close>

theorem linear_velocity_error_decays:
  assumes "lp_box p = Some b" and "0 < duration_ns d"
  shows "lp_velocity (observe_line vx vy d n b p) =
    (vx + (1 - lp_smoothing p) ^ n * (fst (lp_velocity p) - vx),
     vy + (1 - lp_smoothing p) ^ n * (snd (lp_velocity p) - vy))"
  using assms(1)
proof (induction n arbitrary: b p)
  case (Suc n)
  have pos: "0 < duration_seconds d"
    using assms(2) by (simp add: duration_seconds_def)
  let ?c = "shift_box b (vx * duration_seconds d) (vy * duration_seconds d)"
  show ?case
    using Suc.IH [of "linear_observe p ?c d" ?c] pos
    by (simp add: Let_def linear_observe_velocity [OF Suc.prems pos] field_simps)
qed simp

theorem linear_velocity_error_decays_witness:
  "lp_velocity (observe_line 1 2 (Duration 1000000000) 3
     \<lparr>box_x1 = 0, box_y1 = 0, box_x2 = 1, box_y2 = 1\<rparr>
     \<lparr>lp_smoothing = 1 / 2, lp_growth = 0,
      lp_box = Some \<lparr>box_x1 = 0, box_y1 = 0, box_x2 = 1, box_y2 = 1\<rparr>,
      lp_velocity = (0, 0), lp_acceleration = None, lp_observations = 1\<rparr>) = (7 / 8, 7 / 4)"
  by (subst linear_velocity_error_decays) (simp_all add: power3_eq_cube)

end
