(* ===== verification/Association.thy ===== *)
theory Association
  imports Prelude
begin

text \<open>
  Greedy association of \<^verbatim>\<open>vision_os/perception/tracking/association.py\<close>, over the
  candidate and result types of \<^verbatim>\<open>core/ports/tracking.py\<close>. Costs are compared and never
  computed with here, so they range over any linear order \<open>'c\<close>. \<open>greedy_loop\<close> is the first
  loop of \<^verbatim>\<open>GreedyAssociator.assign\<close> with its \<^verbatim>\<open>break\<close> and two \<^verbatim>\<open>continue\<close>s,
  \<open>runner_up_loop\<close> the second.
\<close>

section \<open>Model\<close>

record 'c candidate =
  track_index :: nat
  detection_index :: nat
  cand_cost :: 'c

record 'c assignment_result =
  res_matches :: "(nat \<times> nat) list"
  res_unmatched_tracks :: "nat list"
  res_unmatched_detections :: "nat list"
  res_costs :: "(nat \<times> nat, 'c) dict"
  res_runner_up :: "(nat, 'c) dict"

record 'c greedy_state =
  g_matches :: "(nat \<times> nat) list"
  g_costs :: "(nat \<times> nat, 'c) dict"
  g_runner_up :: "(nat, 'c) dict"
  g_taken_tracks :: "nat set"
  g_taken_detections :: "nat set"

definition greedy_start :: "'c greedy_state" where
  "greedy_start = \<lparr>g_matches = [], g_costs = [], g_runner_up = [], g_taken_tracks = {},
                   g_taken_detections = {}\<rparr>"

definition candidate_order :: "'c candidate \<Rightarrow> 'c \<times> nat \<times> nat" where
  "candidate_order c = (cand_cost c, track_index c, detection_index c)"

definition setdefault :: "'k \<Rightarrow> 'v \<Rightarrow> ('k, 'v) dict \<Rightarrow> ('k, 'v) dict" where
  "setdefault k v d = (case dict_get d k of None \<Rightarrow> dict_set k v d | Some _ \<Rightarrow> d)"

definition take_candidate :: "'c candidate \<Rightarrow> 'c greedy_state \<Rightarrow> 'c greedy_state" where
  "take_candidate c st =
     st\<lparr>g_matches := g_matches st @ [(track_index c, detection_index c)],
        g_costs := dict_set (track_index c, detection_index c) (cand_cost c) (g_costs st),
        g_taken_tracks := insert (track_index c) (g_taken_tracks st),
        g_taken_detections := insert (detection_index c) (g_taken_detections st)\<rparr>"

fun greedy_loop :: "'c::linorder \<Rightarrow> 'c candidate list \<Rightarrow> 'c greedy_state \<Rightarrow> 'c greedy_state" where
  "greedy_loop mx [] st = st"
| "greedy_loop mx (c # cs) st =
     (if cand_cost c > mx then st
      else if track_index c \<in> g_taken_tracks st then greedy_loop mx cs st
      else if detection_index c \<in> g_taken_detections st
      then greedy_loop mx cs
             (st\<lparr>g_runner_up := setdefault (track_index c) (cand_cost c) (g_runner_up st)\<rparr>)
      else greedy_loop mx cs (take_candidate c st))"

fun runner_up_loop ::
  "nat set \<Rightarrow> (nat \<times> nat, 'c::linorder) dict \<Rightarrow> 'c candidate list \<Rightarrow> (nat, 'c) dict \<Rightarrow> (nat, 'c) dict"
where
  "runner_up_loop taken costs [] ru = ru"
| "runner_up_loop taken costs (c # cs) ru =
     runner_up_loop taken costs cs
       (if track_index c \<in> taken then
          (case dict_get costs (track_index c, detection_index c) of
             Some _ \<Rightarrow> ru
           | None \<Rightarrow>
               (case dict_get ru (track_index c) of
                  None \<Rightarrow> dict_set (track_index c) (cand_cost c) ru
                | Some e \<Rightarrow> if cand_cost c < e then dict_set (track_index c) (cand_cost c) ru else ru))
        else ru)"

definition greedy_assign ::
  "nat \<Rightarrow> nat \<Rightarrow> 'c::linorder candidate list \<Rightarrow> 'c \<Rightarrow> 'c assignment_result" where
  "greedy_assign track_count detection_count candidates max_cost =
     (let ordered = sort_key candidate_order candidates;
          st = greedy_loop max_cost ordered greedy_start
      in \<lparr>res_matches = g_matches st,
          res_unmatched_tracks = filter (\<lambda>i. i \<notin> g_taken_tracks st) [0..<track_count],
          res_unmatched_detections = filter (\<lambda>i. i \<notin> g_taken_detections st) [0..<detection_count],
          res_costs = g_costs st,
          res_runner_up = runner_up_loop (g_taken_tracks st) (g_costs st) ordered (g_runner_up st)\<rparr>)"

section \<open>The invariant of the first loop\<close>

definition greedy_ok :: "'c greedy_state \<Rightarrow> bool" where
  "greedy_ok st \<longleftrightarrow>
     g_taken_tracks st = fst ` set (g_matches st)
     \<and> g_taken_detections st = snd ` set (g_matches st)
     \<and> distinct (map fst (g_matches st)) \<and> distinct (map snd (g_matches st))
     \<and> set (dict_keys (g_costs st)) = set (g_matches st)"

lemma greedy_start_simps [simp]:
  "g_matches greedy_start = []" "g_costs greedy_start = []" "g_runner_up greedy_start = []"
  by (simp_all add: greedy_start_def)

lemma greedy_start_ok [simp]: "greedy_ok greedy_start"
  by (simp add: greedy_ok_def greedy_start_def)

lemma take_candidate_ok:
  assumes "greedy_ok st" and "track_index c \<notin> g_taken_tracks st"
    and "detection_index c \<notin> g_taken_detections st"
  shows "greedy_ok (take_candidate c st)"
  using assms by (auto simp: greedy_ok_def take_candidate_def dict_simps)

lemma greedy_ok_runner_up [simp]: "greedy_ok (st\<lparr>g_runner_up := d\<rparr>) = greedy_ok st"
  by (simp add: greedy_ok_def)

lemma greedy_loop_ok: "greedy_ok st \<Longrightarrow> greedy_ok (greedy_loop mx cs st)"
  by (induction mx cs st rule: greedy_loop.induct) (auto simp: take_candidate_ok)

lemma greedy_loop_keeps:
  assumes "greedy_ok st" and "m \<in> set (g_matches st)"
  shows "m \<in> set (g_matches (greedy_loop mx cs st))
    \<and> dict_get (g_costs (greedy_loop mx cs st)) m = dict_get (g_costs st) m"
  using assms
proof (induction mx cs st rule: greedy_loop.induct)
  case (2 mx c cs st)
  have "m \<noteq> (track_index c, detection_index c)" if "track_index c \<notin> g_taken_tracks st"
    using that 2(4,5) by (force simp: greedy_ok_def)
  with 2 show ?case
    by (auto simp: take_candidate_ok) (auto simp: take_candidate_def dict_simps)
qed simp

lemma greedy_loop_source:
  assumes "m \<in> set (g_matches (greedy_loop mx cs st))" and "m \<notin> set (g_matches st)"
    and "greedy_ok st"
  shows "\<exists>c \<in> set cs. m = (track_index c, detection_index c) \<and> cand_cost c \<le> mx
    \<and> dict_get (g_costs (greedy_loop mx cs st)) m = Some (cand_cost c)"
  using assms
proof (induction mx cs st rule: greedy_loop.induct)
  case (2 mx c cs st)
  consider (stop) "cand_cost c > mx"
    | (skip) "\<not> cand_cost c > mx" "track_index c \<in> g_taken_tracks st"
    | (blocked) "\<not> cand_cost c > mx" "track_index c \<notin> g_taken_tracks st"
        "detection_index c \<in> g_taken_detections st"
    | (taken) "\<not> cand_cost c > mx" "track_index c \<notin> g_taken_tracks st"
        "detection_index c \<notin> g_taken_detections st"
    by blast
  then show ?case
  proof cases
    case taken
    let ?st = "take_candidate c st"
    have ok: "greedy_ok ?st" using taken 2 by (simp add: take_candidate_ok)
    show ?thesis
    proof (cases "m = (track_index c, detection_index c)")
      case True
      with ok have "dict_get (g_costs (greedy_loop mx cs ?st)) m = dict_get (g_costs ?st) m"
        by (intro greedy_loop_keeps [THEN conjunct2]) (auto simp: take_candidate_def)
      with True taken show ?thesis
        by (auto simp: take_candidate_def dict_simps not_less)
    next
      case False
      with taken 2 ok show ?thesis by (auto simp: take_candidate_def)
    qed
  qed (use 2 in auto)
qed simp

text \<open>
  Every candidate within the ceiling is blocked, at one of its two ends, by a match that is no
  dearer: the candidates are visited in order of cost.
\<close>

definition blocked :: "'c::linorder greedy_state \<Rightarrow> 'c candidate \<Rightarrow> bool" where
  "blocked st c \<longleftrightarrow>
     (\<exists>(t, d) \<in> set (g_matches st). (t = track_index c \<or> d = detection_index c)
        \<and> (\<exists>v. dict_get (g_costs st) (t, d) = Some v \<and> v \<le> cand_cost c))"

lemma blocked_mono:
  assumes "greedy_ok st" and "blocked st c"
  shows "blocked (greedy_loop mx cs st) c"
  using assms greedy_loop_keeps [OF assms(1), of _ mx cs] unfolding blocked_def by fastforce

lemma blocked_now:
  assumes "greedy_ok st" and "\<forall>m v. dict_get (g_costs st) m = Some v \<longrightarrow> v \<le> cand_cost c"
    and "track_index c \<in> g_taken_tracks st \<or> detection_index c \<in> g_taken_detections st"
  shows "blocked st c"
proof -
  obtain t d where m: "(t, d) \<in> set (g_matches st)" "t = track_index c \<or> d = detection_index c"
    using assms(1,3) by (force simp: greedy_ok_def)
  then have "(t, d) \<in> set (dict_keys (g_costs st))"
    using assms(1) by (auto simp: greedy_ok_def)
  then obtain v where "dict_get (g_costs st) (t, d) = Some v"
    using dict_get_None_iff [of "g_costs st" "(t, d)"] by (cases "dict_get (g_costs st) (t, d)") auto
  with assms(2) m show ?thesis unfolding blocked_def by blast
qed

lemma greedy_loop_stable:
  assumes "greedy_ok st" and "sorted (map cand_cost cs)"
    and "\<forall>m v. dict_get (g_costs st) m = Some v \<longrightarrow> (\<forall>c \<in> set cs. v \<le> cand_cost c)"
    and "c \<in> set cs" and "cand_cost c \<le> mx"
  shows "blocked (greedy_loop mx cs st) c"
  using assms
proof (induction mx cs st rule: greedy_loop.induct)
  case (2 mx b cs st)
  have b_le: "cand_cost b \<le> cand_cost c" and b_mx: "\<not> cand_cost b > mx"
    using 2(5,7,8) by auto
  let ?st = "if track_index b \<in> g_taken_tracks st then st
    else if detection_index b \<in> g_taken_detections st
    then st\<lparr>g_runner_up := setdefault (track_index b) (cand_cost b) (g_runner_up st)\<rparr>
    else take_candidate b st"
  have step: "greedy_loop mx (b # cs) st = greedy_loop mx cs ?st"
    using b_mx by simp
  have ok: "greedy_ok ?st" using 2(4) by (simp add: take_candidate_ok)
  have below: "\<forall>m v. dict_get (g_costs ?st) m = Some v \<longrightarrow> (\<forall>a \<in> insert b (set cs). v \<le> cand_cost a)"
    using 2(5,6) by (auto simp: take_candidate_def dict_simps split: if_splits)
  show ?case
  proof (cases "c = b")
    case True
    have "track_index b \<in> g_taken_tracks ?st \<or> detection_index b \<in> g_taken_detections ?st"
      by (simp add: take_candidate_def)
    then have "blocked ?st b"
      using below by (intro blocked_now ok) auto
    then show ?thesis
      unfolding step True by (rule blocked_mono [OF ok])
  next
    case False
    then have c: "c \<in> set cs" using 2(7) by simp
    have "sorted (map cand_cost cs)" using 2(5) by simp
    then show ?thesis
      unfolding step using 2(1-3) ok below c 2(8) b_mx by (auto split: if_splits)
  qed
qed simp

lemma sorted_candidates: "sorted (map cand_cost (sort_key candidate_order cs))"
proof -
  have "sorted (map candidate_order (sort_key candidate_order cs))"
    by simp
  then show ?thesis
    by (rule sorted_map [THEN iffD2, OF sorted_wrt_mono_rel [rotated], OF sorted_map [THEN iffD1]])
       (auto simp: candidate_order_def less_eq_prod_def)
qed

section \<open>The second loop finds the true second best\<close>

definition losing :: "(nat \<times> nat, 'c) dict \<Rightarrow> nat \<Rightarrow> 'c candidate \<Rightarrow> bool" where
  "losing costs t c \<longleftrightarrow>
     track_index c = t \<and> dict_get costs (track_index c, detection_index c) = None"

definition opt_min :: "'c::linorder \<Rightarrow> 'c option \<Rightarrow> 'c option" where
  "opt_min v e = Some (case e of None \<Rightarrow> v | Some w \<Rightarrow> min v w)"

lemma fold_opt_min_Some: "fold opt_min vs (Some e) = Some (Min (insert e (set vs)))"
proof (induction vs arbitrary: e)
  case (Cons v vs)
  have "Min (insert (min v e) (set vs)) = Min (insert e (insert v (set vs)))"
    by (cases "set vs = {}") (auto simp: min.assoc min.commute min.left_commute)
  with Cons show ?case by (simp add: opt_min_def)
qed simp

lemma fold_opt_min_None: "fold opt_min vs None = (if vs = [] then None else Some (Min (set vs)))"
  by (cases vs) (auto simp: opt_min_def fold_opt_min_Some)

lemma runner_up_loop_fold:
  assumes "t \<in> taken"
  shows "dict_get (runner_up_loop taken costs cs ru) t =
    fold opt_min (map cand_cost (filter (losing costs t) cs)) (dict_get ru t)"
  using assms
proof (induction cs arbitrary: ru)
  case (Cons c cs)
  define ru' where "ru' = (if track_index c \<in> taken then
          (case dict_get costs (track_index c, detection_index c) of
             Some _ \<Rightarrow> ru
           | None \<Rightarrow>
               (case dict_get ru (track_index c) of
                  None \<Rightarrow> dict_set (track_index c) (cand_cost c) ru
                | Some e \<Rightarrow> if cand_cost c < e then dict_set (track_index c) (cand_cost c) ru else ru))
        else ru)"
  have "dict_get ru' t = (if losing costs t c then opt_min (cand_cost c) (dict_get ru t)
                          else dict_get ru t)"
    using Cons.prems
    by (auto simp: ru'_def losing_def opt_min_def dict_get_set min_def split: option.splits)
  then show ?case
    using Cons.IH [OF Cons.prems, of ru'] by (simp add: ru'_def [symmetric])
qed simp

lemma greedy_loop_runner_up:
  assumes "dict_get (g_runner_up (greedy_loop mx cs st)) t = Some v" and "greedy_ok st"
  shows "dict_get (g_runner_up st) t = Some v \<or>
    (\<exists>c \<in> set cs. losing (g_costs (greedy_loop mx cs st)) t c \<and> cand_cost c = v)"
  using assms
proof (induction mx cs st rule: greedy_loop.induct)
  case (2 mx c cs st)
  show ?case
  proof (cases "\<not> cand_cost c > mx \<and> track_index c \<notin> g_taken_tracks st
      \<and> detection_index c \<in> g_taken_detections st")
    case True
    define st' where
      "st' = st\<lparr>g_runner_up := setdefault (track_index c) (cand_cost c) (g_runner_up st)\<rparr>"
    have step: "greedy_loop mx (c # cs) st = greedy_loop mx cs st'"
      using True by (simp add: st'_def)
    have ok': "greedy_ok st'" using 2 by (simp add: st'_def)
    have "detection_index c \<in> snd ` set (g_matches st')" and "track_index c \<notin> fst ` set (g_matches st')"
      using True 2(5) unfolding greedy_ok_def st'_def by simp_all
    then obtain t' where m: "(t', detection_index c) \<in> set (g_matches st')"
      and "t' \<noteq> track_index c"
      by (metis (no_types, lifting) fst_conv image_iff prod.collapse)
    have final: "greedy_ok (greedy_loop mx cs st')"
      using ok' by (rule greedy_loop_ok)
    have "(track_index c, detection_index c) \<notin> set (g_matches (greedy_loop mx cs st'))"
    proof
      assume "(track_index c, detection_index c) \<in> set (g_matches (greedy_loop mx cs st'))"
      moreover have "distinct (map snd (g_matches (greedy_loop mx cs st')))"
        using final by (simp add: greedy_ok_def)
      ultimately have "t' = track_index c"
        using greedy_loop_keeps [OF ok' m, of mx cs] distinct_snd_unique by fastforce
      with \<open>t' \<noteq> track_index c\<close> show False ..
    qed
    then have "losing (g_costs (greedy_loop mx cs st')) (track_index c) c"
      using final by (auto simp: losing_def greedy_ok_def dict_get_None_iff)
    moreover have "dict_get (g_runner_up st') t = dict_get (g_runner_up st) t
        \<or> t = track_index c \<and> dict_get (g_runner_up st') t = Some (cand_cost c)"
      by (auto simp: st'_def setdefault_def dict_get_set split: option.splits)
    moreover have "dict_get (g_runner_up st') t = Some v \<or>
        (\<exists>c \<in> set cs. losing (g_costs (greedy_loop mx cs st')) t c \<and> cand_cost c = v)"
      using 2(2) True 2(4) ok' unfolding step st'_def [symmetric] by simp
    ultimately show ?thesis
      unfolding step by fastforce
  next
    case False
    then consider "cand_cost c > mx"
      | "\<not> cand_cost c > mx" "track_index c \<in> g_taken_tracks st"
      | "\<not> cand_cost c > mx" "track_index c \<notin> g_taken_tracks st"
          "detection_index c \<notin> g_taken_detections st"
      by blast
    then show ?thesis
    proof cases
      case 3
      then have "greedy_ok (take_candidate c st)" using 2(5) by (simp add: take_candidate_ok)
      with 3 2(3,4) show ?thesis by (auto simp: take_candidate_def)
    qed (use 2 in auto)
  qed
qed simp

section \<open>The port and its greedy provider\<close>

text \<open>
  \<^verbatim>\<open>AssociationPort\<close>: what the tracker relies on, whichever policy is bound. The matching is
  one-to-one, every match is an offered candidate within the ceiling and is reported with its
  cost, and what is not matched is reported as unmatched.
\<close>

locale association_port =
  fixes assign :: "nat \<Rightarrow> nat \<Rightarrow> 'c::linorder candidate list \<Rightarrow> 'c \<Rightarrow> 'c assignment_result"
  assumes distinct_tracks: "distinct (map fst (res_matches (assign n m cs mx)))"
    and distinct_detections: "distinct (map snd (res_matches (assign n m cs mx)))"
    and match_is_candidate: "(t, d) \<in> set (res_matches (assign n m cs mx)) \<Longrightarrow>
          \<exists>c \<in> set cs. track_index c = t \<and> detection_index c = d \<and> cand_cost c \<le> mx
            \<and> dict_get (res_costs (assign n m cs mx)) (t, d) = Some (cand_cost c)"
    and unmatched_tracks: "set (res_unmatched_tracks (assign n m cs mx)) =
          {..<n} - fst ` set (res_matches (assign n m cs mx))"
    and unmatched_detections: "set (res_unmatched_detections (assign n m cs mx)) =
          {..<m} - snd ` set (res_matches (assign n m cs mx))"
begin

lemma detection_of_track_unique:
  "(t, d) \<in> set (res_matches (assign n m cs mx)) \<Longrightarrow> (t, d') \<in> set (res_matches (assign n m cs mx))
    \<Longrightarrow> d = d'"
  by (rule distinct_fst_unique [OF distinct_tracks])

lemma track_of_detection_unique:
  "(t, d) \<in> set (res_matches (assign n m cs mx)) \<Longrightarrow> (t', d) \<in> set (res_matches (assign n m cs mx))
    \<Longrightarrow> t = t'"
  by (rule distinct_snd_unique [OF distinct_detections])

lemma length_matches_le:
  assumes "\<forall>c \<in> set cs. track_index c < n"
  shows "length (res_matches (assign n m cs mx)) \<le> n"
proof -
  have "fst ` set (res_matches (assign n m cs mx)) \<subseteq> {..<n}"
    using assms match_is_candidate by fastforce
  then have "card (set (map fst (res_matches (assign n m cs mx)))) \<le> n"
    using card_mono [of "{..<n}"] by fastforce
  then show ?thesis
    using distinct_card [OF distinct_tracks [of n m cs mx]] by simp
qed

end

lemma greedy_final_ok:
  "greedy_ok (greedy_loop mx (sort_key candidate_order cs) greedy_start)"
  by (rule greedy_loop_ok) simp

interpretation greedy: association_port greedy_assign
proof
  fix n m :: nat and cs :: "'a::linorder candidate list" and mx and t d :: nat
  let ?st = "greedy_loop mx (sort_key candidate_order cs) greedy_start"
  have ok: "greedy_ok ?st" by (rule greedy_final_ok)
  show "distinct (map fst (res_matches (greedy_assign n m cs mx)))"
    and "distinct (map snd (res_matches (greedy_assign n m cs mx)))"
    and "set (res_unmatched_tracks (greedy_assign n m cs mx)) =
          {..<n} - fst ` set (res_matches (greedy_assign n m cs mx))"
    and "set (res_unmatched_detections (greedy_assign n m cs mx)) =
          {..<m} - snd ` set (res_matches (greedy_assign n m cs mx))"
    using ok by (auto simp: greedy_assign_def Let_def greedy_ok_def)
  assume "(t, d) \<in> set (res_matches (greedy_assign n m cs mx))"
  then show "\<exists>c \<in> set cs. track_index c = t \<and> detection_index c = d \<and> cand_cost c \<le> mx
            \<and> dict_get (res_costs (greedy_assign n m cs mx)) (t, d) = Some (cand_cost c)"
    using greedy_loop_source [of "(t, d)" mx "sort_key candidate_order cs" greedy_start]
    by (auto simp: greedy_assign_def Let_def)
qed

text \<open>
  C30: greedy association leaves no blocking pair. Every candidate within the cost ceiling
  shares its track or its detection with a match that costs no more, so no track and detection
  that would both prefer each other are left apart.
\<close>

theorem greedy_assign_stable:
  assumes "c \<in> set cs" and "cand_cost c \<le> mx"
  shows "\<exists>(t, d) \<in> set (res_matches (greedy_assign n m cs mx)).
           (t = track_index c \<or> d = detection_index c)
           \<and> (\<exists>v. dict_get (res_costs (greedy_assign n m cs mx)) (t, d) = Some v \<and> v \<le> cand_cost c)"
proof -
  have "blocked (greedy_loop mx (sort_key candidate_order cs) greedy_start) c"
    using assms
    by (intro greedy_loop_stable greedy_start_ok sorted_candidates) simp_all
  then show "\<exists>(t, d) \<in> set (res_matches (greedy_assign n m cs mx)).
           (t = track_index c \<or> d = detection_index c)
           \<and> (\<exists>v. dict_get (res_costs (greedy_assign n m cs mx)) (t, d) = Some v \<and> v \<le> cand_cost c)"
    by (simp add: greedy_assign_def Let_def blocked_def)
qed

definition example_candidates :: "int candidate list" where
  "example_candidates =
     [\<lparr>track_index = 0, detection_index = 0, cand_cost = 3\<rparr>,
      \<lparr>track_index = 0, detection_index = 1, cand_cost = 5\<rparr>,
      \<lparr>track_index = 1, detection_index = 0, cand_cost = 2\<rparr>]"

theorem greedy_assign_stable_witness:
  "\<exists>(t, d) \<in> set (res_matches (greedy_assign 2 2 example_candidates 9)).
     (t = 0 \<or> d = 0)
     \<and> (\<exists>v. dict_get (res_costs (greedy_assign 2 2 example_candidates 9)) (t, d) = Some v \<and> v \<le> 3)"
  using greedy_assign_stable
    [of "\<lparr>track_index = 0, detection_index = 0, cand_cost = 3\<rparr>" example_candidates 9 2 2]
  by (simp add: example_candidates_def)

text \<open>
  Every match greedy association reports is an offered candidate within the ceiling, at the
  cost it was offered for, and no track and no detection is matched twice.
\<close>

theorem greedy_assign_one_to_one:
  "distinct (map fst (res_matches (greedy_assign n m cs mx)))
   \<and> distinct (map snd (res_matches (greedy_assign n m cs mx)))
   \<and> set (res_matches (greedy_assign n m cs mx)) \<subseteq>
       {(track_index c, detection_index c) | c. c \<in> set cs \<and> cand_cost c \<le> mx
          \<and> dict_get (res_costs (greedy_assign n m cs mx)) (track_index c, detection_index c)
              = Some (cand_cost c)}"
  using greedy.distinct_tracks greedy.distinct_detections greedy.match_is_candidate by fastforce

text \<open>
  The runner-up cost published for a matched track is the least cost among its candidates
  that did not win, so the ambiguity margin the tracker computes from it is the true gap.
\<close>

theorem greedy_runner_up_is_second_best:
  assumes "(t, d) \<in> set (res_matches (greedy_assign n m cs mx))"
  shows "dict_get (res_runner_up (greedy_assign n m cs mx)) t =
    (let losers = {cand_cost c | c. c \<in> set cs \<and> track_index c = t \<and> detection_index c \<noteq> d}
     in if losers = {} then None else Some (Min losers))"
proof -
  let ?cs = "sort_key candidate_order cs"
  let ?st = "greedy_loop mx ?cs greedy_start"
  let ?vs = "map cand_cost (filter (losing (g_costs ?st) t) ?cs)"
  have ok: "greedy_ok ?st" by (rule greedy_final_ok)
  have td: "(t, d) \<in> set (g_matches ?st)"
    using assms by (simp add: greedy_assign_def Let_def)
  then have taken: "t \<in> g_taken_tracks ?st"
    using ok by (force simp: greedy_ok_def)
  have "losing (g_costs ?st) t c \<longleftrightarrow> track_index c = t \<and> detection_index c \<noteq> d" for c
    using ok td distinct_fst_unique [of "g_matches ?st" t d "detection_index c"]
    by (auto simp: losing_def greedy_ok_def dict_get_None_iff)
  then have losers: "set ?vs = {cand_cost c | c. c \<in> set cs \<and> track_index c = t \<and> detection_index c \<noteq> d}"
    by auto
  have "v \<in> set ?vs" if "dict_get (g_runner_up ?st) t = Some v" for v
    using greedy_loop_runner_up [OF that] by auto
  then have "fold opt_min ?vs (dict_get (g_runner_up ?st) t)
      = (if set ?vs = {} then None else Some (Min (set ?vs)))"
    unfolding set_empty
    by (cases "dict_get (g_runner_up ?st) t"; cases "?vs = []")
       (simp_all add: fold_opt_min_None fold_opt_min_Some insert_absorb del: set_map)
  moreover have "dict_get (res_runner_up (greedy_assign n m cs mx)) t
      = fold opt_min ?vs (dict_get (g_runner_up ?st) t)"
    by (simp add: greedy_assign_def Let_def runner_up_loop_fold [OF taken])
  ultimately show ?thesis
    unfolding losers Let_def by (rule trans [rotated])
qed

theorem greedy_runner_up_is_second_best_witness:
  "dict_get (res_runner_up (greedy_assign 2 2 example_candidates 9)) 0 = Some 3"
proof -
  have "(0, 1) \<in> set (res_matches (greedy_assign 2 2 example_candidates 9))" by code_simp
  moreover have "{cand_cost c | c. c \<in> set example_candidates \<and> track_index c = 0 \<and> detection_index c \<noteq> 1} = {3}"
    by (auto simp: example_candidates_def
        intro!: exI [of _ "\<lparr>track_index = 0, detection_index = 0, cand_cost = 3\<rparr>"])
  ultimately show ?thesis
    using greedy_runner_up_is_second_best [of 0 1 2 2 example_candidates 9] by (simp add: Let_def)
qed

end
