(* ===== verification/Cost_Matrix.thy ===== *)
theory Cost_Matrix
  imports Motion Association
begin

text \<open>
  The association cost of \<^verbatim>\<open>vision_os/perception/tracking/association.py\<close>: overlap, centre
  distance and scale penalty, their weighted sum, and \<^verbatim>\<open>CostMatrixBuilder.build\<close>, which
  lists the gated candidates in the order the associators expect.
\<close>

section \<open>The terms\<close>

definition iou :: "box \<Rightarrow> box \<Rightarrow> rat" where
  "iou a b =
     (let left = max (box_x1 a) (box_x1 b);
          top = max (box_y1 a) (box_y1 b);
          right = min (box_x2 a) (box_x2 b);
          bottom = min (box_y2 a) (box_y2 b)
      in if right \<le> left \<or> bottom \<le> top then 0
         else let intersection = (right - left) * (bottom - top);
                  union = box_area a + box_area b - intersection
              in if union > 0 then intersection / union else 0)"

definition centre_distance :: "math_lib \<Rightarrow> box \<Rightarrow> box \<Rightarrow> rat" where
  "centre_distance ml a b =
     min 1 (distance_to ml (box_centre a) (box_centre b) / (14142135623730951 / 10000000000000000))"

definition scale_ratio_penalty :: "box \<Rightarrow> box \<Rightarrow> rat" where
  "scale_ratio_penalty a b =
     (if box_area a \<le> 0 \<or> box_area b \<le> 0 then 1
      else 1 - min (box_area a) (box_area b) / max (box_area a) (box_area b))"

record association_policy =
  iou_weight :: rat
  distance_weight :: rat
  scale_weight :: rat
  confidence_weight :: rat
  ap_max_cost :: rat
  min_iou :: rat
  gate_multiplier :: rat
  ambiguity_margin :: rat

definition default_association_policy :: association_policy where
  "default_association_policy =
     \<lparr>iou_weight = 6 / 10, distance_weight = 25 / 100, scale_weight = 15 / 100,
      confidence_weight = 0, ap_max_cost = 7 / 10, min_iou = 1 / 10, gate_multiplier = 3,
      ambiguity_margin = 5 / 100\<rparr>"

definition weight_total :: "association_policy \<Rightarrow> rat" where
  "weight_total p = iou_weight p + distance_weight p + scale_weight p + confidence_weight p"

definition check_association_policy :: "association_policy \<Rightarrow> association_policy result" where
  "check_association_policy p =
     (if iou_weight p < 0 \<or> distance_weight p < 0 \<or> scale_weight p < 0 \<or> confidence_weight p < 0
      then Inl ValueError
      else if weight_total p \<le> 0 then Inl ValueError
      else if \<not> (0 \<le> ap_max_cost p \<and> ap_max_cost p \<le> 1) then Inl ValueError
      else if \<not> (0 \<le> min_iou p \<and> min_iou p \<le> 1) then Inl ValueError
      else if gate_multiplier p < 0 then Inl ValueError
      else if ambiguity_margin p < 0 then Inl ValueError
      else Inr p)"

definition pair_cost :: "association_policy \<Rightarrow> box \<Rightarrow> box \<Rightarrow> rat \<Rightarrow> rat \<Rightarrow> rat \<Rightarrow> rat" where
  "pair_cost p predicted b overlap separation score =
     (iou_weight p * (1 - overlap) + distance_weight p * separation
      + scale_weight p * scale_ratio_penalty predicted b + confidence_weight p * (1 - score))
     / weight_total p"

section \<open>The candidates\<close>

definition build_row ::
  "math_lib \<Rightarrow> association_policy \<Rightarrow> box list \<Rightarrow> rat list \<Rightarrow> nat \<Rightarrow> prediction \<Rightarrow> rat candidate list" where
  "build_row ml p boxes scores ti q =
     (case mk_box (pr_x1 q) (pr_y1 q) (pr_x2 q) (pr_y2 q) of
        Inl _ \<Rightarrow> []
      | Inr predicted \<Rightarrow>
          let gate = gate_multiplier p * pr_uncertainty q
          in concat (map (\<lambda>(di, b).
               let overlap = iou predicted b;
                   separation = centre_distance ml predicted b;
                   score = (if di < length scores then scores ! di else 1);
                   c = pair_cost p predicted b overlap separation score
               in if overlap < min_iou p \<and> separation > gate then []
                  else if c \<le> ap_max_cost p
                  then [\<lparr>track_index = ti, detection_index = di, cand_cost = c\<rparr>]
                  else [])
             (enumerate 0 boxes)))"

definition build ::
  "math_lib \<Rightarrow> association_policy \<Rightarrow> prediction list \<Rightarrow> box list \<Rightarrow> rat list \<Rightarrow> rat candidate list" where
  "build ml p predictions boxes scores =
     sort_key candidate_order
       (concat (map (\<lambda>(ti, q). build_row ml p boxes scores ti q) (enumerate 0 predictions)))"

lemma in_enumerate_iff: "(i, x) \<in> set (enumerate 0 xs) \<longleftrightarrow> i < length xs \<and> x = xs ! i"
  by (auto simp: in_set_enumerate_eq)

lemma build_row_candidate:
  assumes "c \<in> set (build_row ml p boxes scores ti q)"
  shows "track_index c = ti \<and> detection_index c < length boxes \<and> cand_cost c \<le> ap_max_cost p"
  using assms
  by (auto simp: build_row_def Let_def in_enumerate_iff split: sum.splits if_splits)

lemma build_candidate:
  assumes "c \<in> set (build ml p predictions boxes scores)"
  shows "track_index c < length predictions \<and> detection_index c < length boxes
    \<and> cand_cost c \<le> ap_max_cost p"
  using assms by (auto simp: build_def in_enumerate_iff dest: build_row_candidate)

section \<open>The cost is a normalised distance\<close>

definition overlap_area :: "box \<Rightarrow> box \<Rightarrow> rat" where
  "overlap_area a b =
     max 0 (min (box_x2 a) (box_x2 b) - max (box_x1 a) (box_x1 b))
     * max 0 (min (box_y2 a) (box_y2 b) - max (box_y1 a) (box_y1 b))"

lemma overlap_area_le:
  assumes "\<not> degenerate_box a"
  shows "overlap_area a b \<le> box_area a"
  using assms unfolding overlap_area_def box_area_def box_width_def box_height_def degenerate_box_def
  by (intro mult_mono) (auto simp: max_def min_def)

lemma overlap_area_commute: "overlap_area a b = overlap_area b a"
  by (simp add: overlap_area_def max.commute min.commute)

lemma overlap_area_nonneg: "0 \<le> overlap_area a b"
  by (simp add: overlap_area_def)

lemma iou_overlap:
  assumes "\<not> degenerate_box a" and "\<not> degenerate_box b"
  shows "iou a b = overlap_area a b / (box_area a + box_area b - overlap_area a b)"
proof -
  have "overlap_area a b \<le> box_area a" "overlap_area b a \<le> box_area b"
    using assms by (simp_all add: overlap_area_le)
  then have pos: "0 < box_area a + box_area b - overlap_area a b"
    using box_area_pos [OF assms(1)] box_area_pos [OF assms(2)] overlap_area_commute [of a b]
    by linarith
  show ?thesis
  proof (cases "min (box_x2 a) (box_x2 b) \<le> max (box_x1 a) (box_x1 b)
      \<or> min (box_y2 a) (box_y2 b) \<le> max (box_y1 a) (box_y1 b)")
    case True
    then have "overlap_area a b = 0"
      by (auto simp: overlap_area_def max_absorb1)
    with True show ?thesis by (simp add: iou_def Let_def)
  next
    case False
    then have "0 \<le> min (box_x2 a) (box_x2 b) - max (box_x1 a) (box_x1 b)"
      and "0 \<le> min (box_y2 a) (box_y2 b) - max (box_y1 a) (box_y1 b)"
      by linarith+
    then have "overlap_area a b = (min (box_x2 a) (box_x2 b) - max (box_x1 a) (box_x1 b))
        * (min (box_y2 a) (box_y2 b) - max (box_y1 a) (box_y1 b))"
      unfolding overlap_area_def by (simp only: max_absorb2)
    with False pos show ?thesis by (simp add: iou_def Let_def)
  qed
qed

lemma overlap_area_below:
  assumes "\<not> degenerate_box a" and "\<not> degenerate_box b"
  shows "overlap_area a b \<le> box_area a" and "overlap_area a b \<le> box_area b"
    and "0 < box_area a + box_area b - overlap_area a b"
  using overlap_area_le [OF assms(1), of b] overlap_area_le [OF assms(2), of a]
    box_area_pos [OF assms(1)] box_area_pos [OF assms(2)]
  by (simp_all add: overlap_area_commute [of a b])

lemma iou_range:
  assumes "\<not> degenerate_box a" and "\<not> degenerate_box b"
  shows "0 \<le> iou a b" and "iou a b \<le> 1"
  using overlap_area_below [OF assms] overlap_area_nonneg [of a b]
  by (simp_all add: iou_overlap [OF assms] field_simps)

text \<open>
  Intersection over union of two boxes is a similarity in [0,1]: it is symmetric, a box
  has similarity 1 with itself, and it is 1 only for boxes of the same area that overlap
  completely.
\<close>

theorem iou_similarity:
  assumes "\<not> degenerate_box a" and "\<not> degenerate_box b"
  shows "0 \<le> iou a b \<and> iou a b \<le> 1 \<and> iou a b = iou b a \<and> iou a a = 1
    \<and> (iou a b = 1 \<longleftrightarrow> overlap_area a b = box_area a \<and> box_area a = box_area b)"
proof -
  note below = overlap_area_below [OF assms]
  have "overlap_area a a = box_area a"
    using assms(1) by (simp add: overlap_area_def box_area_def box_width_def box_height_def
        degenerate_box_def max_absorb2)
  then have self: "iou a a = 1"
    using box_area_pos [OF assms(1)] by (simp add: iou_overlap [OF assms(1,1)])
  have "iou a b = 1 \<longleftrightarrow> 2 * overlap_area a b = box_area a + box_area b"
    using below(3) by (auto simp: iou_overlap [OF assms] field_simps)
  also have "\<dots> \<longleftrightarrow> overlap_area a b = box_area a \<and> box_area a = box_area b"
    using below(1,2) by linarith
  finally have "iou a b = 1 \<longleftrightarrow> overlap_area a b = box_area a \<and> box_area a = box_area b" .
  moreover have "iou a b = iou b a"
    by (simp add: iou_overlap assms overlap_area_commute [of a b] add.commute)
  ultimately show ?thesis using self iou_range [OF assms] by simp
qed

definition left_box :: box where
  "left_box = \<lparr>box_x1 = 0, box_y1 = 0, box_x2 = 1 / 2, box_y2 = 1 / 2\<rparr>"

definition right_box :: box where
  "right_box = \<lparr>box_x1 = 1 / 4, box_y1 = 0, box_x2 = 3 / 4, box_y2 = 1 / 2\<rparr>"

theorem iou_similarity_witness:
  "0 \<le> iou left_box right_box \<and> iou left_box right_box \<le> 1
   \<and> iou left_box right_box = iou right_box left_box \<and> iou left_box left_box = 1"
  using iou_similarity [of left_box right_box]
  by (simp add: degenerate_box_def left_box_def right_box_def)

lemma scale_ratio_penalty_range: "0 \<le> scale_ratio_penalty a b \<and> scale_ratio_penalty a b \<le> 1"
  by (auto simp: scale_ratio_penalty_def min_def max_def field_simps)

lemma convex_sum_range:
  fixes w1 w2 w3 w4 :: rat
  assumes w: "0 \<le> w1" "0 \<le> w2" "0 \<le> w3" "0 \<le> w4" "0 < w1 + w2 + w3 + w4"
    and x: "0 \<le> x1" "x1 \<le> 1" "0 \<le> x2" "x2 \<le> 1" "0 \<le> x3" "x3 \<le> 1" "0 \<le> x4" "x4 \<le> 1"
  shows "0 \<le> (w1 * x1 + w2 * x2 + w3 * x3 + w4 * x4) / (w1 + w2 + w3 + w4)
    \<and> (w1 * x1 + w2 * x2 + w3 * x3 + w4 * x4) / (w1 + w2 + w3 + w4) \<le> 1"
proof -
  have "w1 * x1 \<le> w1" "w2 * x2 \<le> w2" "w3 * x3 \<le> w3" "w4 * x4 \<le> w4"
    using w x by (simp_all add: mult_left_le)
  moreover have "0 \<le> w1 * x1 + w2 * x2 + w3 * x3 + w4 * x4"
    using w x by simp
  ultimately show ?thesis using w(5) by (simp add: field_simps)
qed

text \<open>
  For a policy the constructor accepts, the association cost of a track and a detection is
  in [0,1], whatever the boxes, so it can be compared with \<^verbatim>\<open>max_cost\<close> and turned into a
  confidence by subtraction. The distance \<^verbatim>\<open>math.hypot\<close> returns is non-negative.
\<close>

theorem pair_cost_unit_interval:
  assumes policy: "check_association_policy p = Inr p"
    and boxes: "\<not> degenerate_box a" "\<not> degenerate_box b"
    and hypot: "\<And>x y. 0 \<le> hypot ml x y"
    and score: "0 \<le> s" "s \<le> 1"
  shows "0 \<le> pair_cost p a b (iou a b) (centre_distance ml a b) s
    \<and> pair_cost p a b (iou a b) (centre_distance ml a b) s \<le> 1"
proof -
  have "0 \<le> centre_distance ml a b" "centre_distance ml a b \<le> 1"
    using hypot by (simp_all add: centre_distance_def distance_to_def)
  moreover note iou_range [OF boxes]
  ultimately show ?thesis
    using policy score scale_ratio_penalty_range [of a b] unfolding pair_cost_def weight_total_def
    by (intro convex_sum_range) (auto simp: check_association_policy_def weight_total_def split: if_splits)
qed

theorem pair_cost_unit_interval_witness:
  "0 \<le> pair_cost default_association_policy left_box right_box (iou left_box right_box)
        (centre_distance \<lparr>hypot = \<lambda>x y. \<bar>x\<bar> + \<bar>y\<bar>, atan2_degrees = \<lambda>y x. 0\<rparr> left_box right_box) (1 / 2)
   \<and> pair_cost default_association_policy left_box right_box (iou left_box right_box)
        (centre_distance \<lparr>hypot = \<lambda>x y. \<bar>x\<bar> + \<bar>y\<bar>, atan2_degrees = \<lambda>y x. 0\<rparr> left_box right_box) (1 / 2) \<le> 1"
  by (rule pair_cost_unit_interval)
     (simp_all add: check_association_policy_def default_association_policy_def weight_total_def
       degenerate_box_def left_box_def right_box_def)

end
