(* ===== verification/Tracker.thy ===== *)
theory Tracker
  imports Cost_Matrix
begin

text \<open>
  The frame step of \<^verbatim>\<open>GeometricTracker\<close> (\<^verbatim>\<open>vision_os/adapters/tracking/geometric.py\<close>):
  the ordering check, what a hit and a miss do to a record, spawning with eviction, the
  \<^verbatim>\<open>_apply\<close> loop over the records and the reset of a camera. The matching that
  \<^verbatim>\<open>_apply\<close> receives is an argument here, as it is there; \<open>Association\<close> models how it is
  found. The motion predictor is reached through its port (\<^verbatim>\<open>MotionPredictorPort\<close>), given
  as a record of functions; speed and heading are what \<^verbatim>\<open>speed_of\<close> and \<^verbatim>\<open>heading_of\<close>
  read off its velocity. Floats are exact rationals.
\<close>

section \<open>What a frame brings\<close>

record detection =
  det_class :: class_id
  det_tenant :: tenant_id
  det_site :: site_id
  det_box :: "box option"
  det_score :: rat

record tracking_request =
  rq_camera :: camera_id
  rq_frame_ref :: frame_ref
  rq_detections :: "detection list"
  rq_timestamp :: instant
  rq_elapsed :: duration

record resolved =
  rs_matches :: "(nat, nat) dict"
  rs_costs :: "(nat \<times> nat, rat) dict"
  rs_runner_up :: "(nat, rat) dict"

type_synonym associator =
  "nat \<Rightarrow> nat \<Rightarrow> rat candidate list \<Rightarrow> rat \<Rightarrow> rat assignment_result"

type_synonym track_rec = "motion_predictor track_record"

record tracker_config =
  use_motion_model :: bool
  two_stage :: bool
  low_confidence_floor :: rat
  high_confidence_floor :: rat
  tc_lifecycle :: track_policy
  tc_association :: association_policy
  tc_history_length :: int
  tc_associator :: associator
  tc_math :: math_lib

section \<open>Association of one frame\<close>

fun split_from :: "tracker_config \<Rightarrow> nat \<Rightarrow> detection list \<Rightarrow> nat list \<times> nat list" where
  "split_from cfg i [] = ([], [])"
| "split_from cfg i (d # ds) =
     (let (high, low) = split_from cfg (Suc i) ds
      in if \<not> two_stage cfg
         then (if det_score d \<ge> low_confidence_floor cfg then (i # high, low) else (high, low))
         else if det_score d \<ge> high_confidence_floor cfg then (i # high, low)
         else if det_score d \<ge> low_confidence_floor cfg then (high, i # low)
         else (high, low))"

definition split_detections :: "tracker_config \<Rightarrow> detection list \<Rightarrow> nat list \<times> nat list" where
  "split_detections cfg ds = split_from cfg 0 ds"

definition predict_all :: "track_rec list \<Rightarrow> duration \<Rightarrow> prediction list" where
  "predict_all records elapsed =
     map (\<lambda>r. case predictor_predict (rec_predictor r)
                     (Duration (since_measurement_ns r + duration_ns elapsed)) of
                Inr q \<Rightarrow> q
              | Inl _ \<Rightarrow> prediction_of_box (rec_box r)) records"

definition resolve :: "rat assignment_result \<Rightarrow> nat list \<Rightarrow> resolved result" where
  "resolve r indices =
     (if list_all (\<lambda>(t, d). d < length indices) (res_matches r) then
        Inr \<lparr>rs_matches = fold (\<lambda>(t, d) acc. dict_set t (indices ! d) acc) (res_matches r) [],
             rs_costs = fold (\<lambda>(t, d) acc.
                 dict_set (t, indices ! d) (case dict_get (res_costs r) (t, d) of None \<Rightarrow> 0 | Some c \<Rightarrow> c) acc)
               (res_matches r) [],
             rs_runner_up = res_runner_up r\<rparr>
      else Inl IndexError)"

definition recovery_cost_factor :: "track_state \<Rightarrow> rat option" where
  "recovery_cost_factor s =
     (case s of COASTING \<Rightarrow> Some (60 / 100) | LOST \<Rightarrow> Some (5 / 10) | _ \<Rightarrow> None)"

definition cost_ceiling :: "tracker_config \<Rightarrow> track_rec list \<Rightarrow> nat \<Rightarrow> rat" where
  "cost_ceiling cfg records ti =
     (if ti < length records
      then case recovery_cost_factor (rec_state (records ! ti)) of
             Some f \<Rightarrow> ap_max_cost (tc_association cfg) * f
           | None \<Rightarrow> ap_max_cost (tc_association cfg)
      else ap_max_cost (tc_association cfg))"

definition associate ::
  "tracker_config \<Rightarrow> track_rec list \<Rightarrow> prediction list \<Rightarrow> detection list \<Rightarrow> nat list \<Rightarrow> resolved result" where
  "associate cfg records predictions detections indices =
     (let boxes = map (\<lambda>i. det_box (detections ! i)) indices;
          scores = map (\<lambda>i. det_score (detections ! i)) indices;
          candidates = build (tc_math cfg) (tc_association cfg) predictions
                         (map the (filter (\<lambda>b. b \<noteq> None) boxes)) scores;
          candidates = (if \<exists>r \<in> set records. recovery_cost_factor (rec_state r) \<noteq> None
                        then filter (\<lambda>c. cand_cost c \<le> cost_ceiling cfg records (track_index c)) candidates
                        else candidates)
      in resolve (tc_associator cfg (length records) (length indices) candidates
                    (ap_max_cost (tc_association cfg))) indices)"

type_synonym refusal = "track_id \<times> rat \<times> rat"

definition ambiguity_step ::
  "rat \<Rightarrow> resolved \<Rightarrow> track_rec list \<Rightarrow> nat \<times> nat \<Rightarrow> (nat, nat) dict \<times> refusal list \<Rightarrow>
   ((nat, nat) dict \<times> refusal list) result" where
  "ambiguity_step margin res records td acc =
     (let (t, d) = td;
          (matched, refused) = acc;
          won = (case dict_get (rs_costs res) (t, d) of None \<Rightarrow> 0 | Some c \<Rightarrow> c);
          keep = Inr (dict_set t d matched, refused)
      in case dict_get (rs_runner_up res) t of
           Some ru \<Rightarrow> if ru - won < margin
                      then bind_result (py_index records t) (\<lambda>r.
                             Inr (matched, refused @ [(rec_id r, won, ru)]))
                      else keep
         | None \<Rightarrow> keep)"

definition filter_ambiguous ::
  "tracker_config \<Rightarrow> resolved \<Rightarrow> track_rec list \<Rightarrow> ((nat, nat) dict \<times> refusal list) result" where
  "filter_ambiguous cfg res records =
     (let margin = ambiguity_margin (tc_association cfg)
      in if margin \<le> 0 then Inr (rs_matches res, [])
         else fold_result (ambiguity_step margin res records) (rs_matches res) ([], []))"

definition second_step ::
  "nat list \<Rightarrow> resolved \<Rightarrow> nat \<times> nat \<Rightarrow> (nat, nat) dict \<times> (nat \<times> nat, rat) dict \<Rightarrow>
   ((nat, nat) dict \<times> (nat \<times> nat, rat) dict) result" where
  "second_step leftover second td acc =
     (let (li, di) = td; (m, costs) = acc
      in bind_result (py_index leftover li) (\<lambda>ti.
           Inr (dict_set ti di m,
                dict_set (ti, di)
                  (case dict_get (rs_costs second) (li, di) of None \<Rightarrow> 0 | Some c \<Rightarrow> c) costs)))"

definition second_stage ::
  "tracker_config \<Rightarrow> track_rec list \<Rightarrow> prediction list \<Rightarrow> detection list \<Rightarrow> nat list \<Rightarrow>
   (nat, nat) dict \<Rightarrow> resolved \<Rightarrow> ((nat, nat) dict \<times> resolved) result" where
  "second_stage cfg records predictions detections low matched res =
     (let leftover = filter (\<lambda>i. dict_get matched i = None) [0..<length records]
      in if leftover = [] then Inr (matched, res)
         else bind_result (associate cfg (map (\<lambda>i. records ! i) leftover)
                             (map (\<lambda>i. predictions ! i) leftover) detections low) (\<lambda>second.
           bind_result (fold_result (second_step leftover second) (rs_matches second)
                          (matched, rs_costs res)) (\<lambda>(m, costs).
           Inr (m, \<lparr>rs_matches = m, rs_costs = costs, rs_runner_up = rs_runner_up res\<rparr>))))"

section \<open>Hits and misses\<close>

definition confidence_from_cost :: "rat \<Rightarrow> rat option \<Rightarrow> rat" where
  "confidence_from_cost cost ru =
     (let base = max 0 (min 1 (1 - cost))
      in case ru of None \<Rightarrow> base
         | Some r \<Rightarrow> base * max 0 (min 1 (max 0 (r - cost) / (3 / 10))))"

definition update_motion_state :: "math_lib \<Rightarrow> track_rec \<Rightarrow> track_rec" where
  "update_motion_state ml r =
     (let velocity = predictor_velocity (rec_predictor r);
          speed = speed_of ml velocity;
          heading = heading_of ml velocity;
          turned = (case (heading, last_heading r) of
                      (Some h, Some l) \<Rightarrow> min \<bar>h - l\<bar> (360 - \<bar>h - l\<bar>) > 90
                    | _ \<Rightarrow> False);
          r1 = (if turned then r\<lparr>direction_changes := direction_changes r + 1\<rparr> else r);
          r2 = (case heading of None \<Rightarrow> r1 | Some h \<Rightarrow> r1\<lparr>last_heading := Some h\<rparr>);
          r3 = (if speed < 1 / 100
                then r2\<lparr>still_frames := still_frames r2 + 1, moving_frames := 0\<rparr>
                else r2\<lparr>moving_frames := moving_frames r2 + 1, still_frames := 0\<rparr>)
      in if direction_changes r3 \<ge> 3 then r3\<lparr>rec_motion := ERRATIC\<rparr>
         else if still_frames r3 \<ge> 3 then r3\<lparr>rec_motion := STATIONARY\<rparr>
         else if moving_frames r3 \<ge> 3 then r3\<lparr>rec_motion := MOVING\<rparr>
         else if hit_count r3 < 3 then r3\<lparr>rec_motion := MOTION_UNKNOWN\<rparr>
         else r3)"

definition hit_record ::
  "math_lib \<Rightarrow> track_policy \<Rightarrow> bool \<Rightarrow> nat \<Rightarrow> tracking_request \<Rightarrow> duration \<Rightarrow> resolved \<Rightarrow>
   nat \<Rightarrow> nat \<Rightarrow> detection \<Rightarrow> track_rec \<Rightarrow> (transition \<times> track_rec) result" where
  "hit_record ml policy use_motion hist rq elapsed res ti di det r =
     (case det_box det of
        None \<Rightarrow> Inl ValueError
      | Some bx \<Rightarrow>
          bind_result (on_hit policy (rec_state r) (hit_count r + 1) (age_frames r + 1)) (\<lambda>tr.
            let cost = (case dict_get (rs_costs res) (ti, di) of None \<Rightarrow> 0 | Some c \<Rightarrow> c);
                ru = dict_get (rs_runner_up res) ti
            in Inr (tr, update_motion_state ml
                 (r\<lparr>age_frames := age_frames r + 1, hit_count := hit_count r + 1,
                    rec_state := current_state tr, rec_box := bx, rec_class := det_class det,
                    last_seen := rq_timestamp rq, last_updated := rq_timestamp rq,
                    rec_break := NONE, rec_history := deque_append hist (rec_history r) (rq_frame_ref rq),
                    rec_predictor := predictor_observe (rec_predictor r) bx
                      (Duration (since_measurement_ns r + duration_ns elapsed)),
                    coast_frames := 0, since_measurement_ns := 0,
                    association_cost := cost, runner_up_cost := ru,
                    association_confidence := confidence_from_cost cost ru,
                    assoc_method := (if use_motion then MOTION_GATED_IOU else IOU)\<rparr>))))"

definition miss_record ::
  "track_policy \<Rightarrow> instant \<Rightarrow> break_reason \<Rightarrow> duration \<Rightarrow> track_rec \<Rightarrow>
   (transition \<times> track_rec) result" where
  "miss_record policy now broken elapsed r =
     bind_result (on_miss policy (rec_state r) (coast_frames r + 1) (age_frames r + 1) broken
                    (since_measurement_ns r + duration_ns elapsed)) (\<lambda>tr.
       Inr (tr, r\<lparr>age_frames := age_frames r + 1, coast_frames := coast_frames r + 1,
                  since_measurement_ns := since_measurement_ns r + duration_ns elapsed,
                  rec_state := current_state tr, last_updated := now,
                  rec_break := transition_break tr,
                  association_confidence := association_confidence r * (7 / 10)\<rparr>))"

definition miss_reason :: "track_rec \<Rightarrow> detection list \<Rightarrow> break_reason" where
  "miss_reason r detections =
     (let b = rec_box r
      in if box_x1 b \<le> 2 / 100 \<or> box_y1 b \<le> 2 / 100 \<or> box_x2 b \<ge> 98 / 100 \<or> box_y2 b \<ge> 98 / 100
         then EXIT
         else if detections \<noteq> [] then OCCLUSION
         else DETECTOR_MISS)"

section \<open>The frame step\<close>

record apply_state =
  ap_table :: "motion_predictor track_table"
  ap_new :: "track_id list"
  ap_terminated :: "(track_id \<times> break_reason) list"
  ap_coasting :: "track_id list"
  ap_recovered :: "track_id list"
  ap_associations :: "(track_id \<times> nat) list"

definition settle_record :: "transition \<Rightarrow> track_rec \<Rightarrow> apply_state \<Rightarrow> apply_state" where
  "settle_record tr r st =
     (let st = st\<lparr>ap_table := table_write r (ap_table st)\<rparr>
      in if transition_is_terminal tr
         then st\<lparr>ap_terminated := ap_terminated st @ [(rec_id r, transition_break tr)],
                 ap_table := snd (table_remove (rec_id r) (ap_table st))\<rparr>
         else if rec_state r = COASTING \<or> rec_state r = LOST
         then st\<lparr>ap_coasting := ap_coasting st @ [rec_id r]\<rparr>
         else st)"

record frame_env =
  env_math :: math_lib
  env_policy :: track_policy
  env_use_motion :: bool
  env_history :: nat
  env_request :: tracking_request
  env_elapsed :: duration
  env_matched :: "(nat, nat) dict"
  env_refused :: "track_id list"
  env_resolved :: resolved
  env_high :: "nat list"

definition apply_record ::
  "frame_env \<Rightarrow> nat \<Rightarrow> track_rec \<Rightarrow> apply_state \<Rightarrow> apply_state result" where
  "apply_record env ti r st =
     (case dict_get (env_matched env) ti of
        Some di \<Rightarrow>
          (if di < length (rq_detections (env_request env)) then
             bind_result (hit_record (env_math env) (env_policy env) (env_use_motion env) (env_history env)
                 (env_request env) (env_elapsed env) (env_resolved env) ti di
                 (rq_detections (env_request env) ! di) r) (\<lambda>(tr, r').
               let st = st\<lparr>ap_associations := ap_associations st @ [(rec_id r', di)]\<rparr>;
                   st = (if is_recovery tr
                         then st\<lparr>ap_recovered := ap_recovered st @ [rec_id r']\<rparr> else st)
               in Inr (settle_record tr r' st))
           else Inl IndexError)
      | None \<Rightarrow>
          bind_result (miss_record (env_policy env) (rq_timestamp (env_request env))
              (if rec_id r \<in> set (env_refused env) then ASSOCIATION_FAILURE
               else miss_reason r (rq_detections (env_request env)))
              (env_elapsed env) r) (\<lambda>(tr, r').
            Inr (settle_record tr r' st)))"

fun apply_records ::
  "frame_env \<Rightarrow> nat \<Rightarrow> track_rec list \<Rightarrow> apply_state \<Rightarrow> apply_state result" where
  "apply_records env i [] st = Inr st"
| "apply_records env i (r # rs) st =
     bind_result (apply_record env i r st) (\<lambda>st'. apply_records env (Suc i) rs st')"

definition new_predictor :: "bool \<Rightarrow> motion_predictor" where
  "new_predictor use_motion = (if use_motion then projr (new_linear (6 / 10)) else new_stationary)"

definition spawn_create ::
  "frame_env \<Rightarrow> detection \<Rightarrow> box \<Rightarrow> motion_predictor track_table \<Rightarrow> (track_rec \<times> motion_predictor track_table) result" where
  "spawn_create env det bx t =
     table_create (det_class det) bx (new_predictor (env_use_motion env))
       (rq_timestamp (env_request env)) (rq_frame_ref (env_request env))
       (det_tenant det) (det_site det) t"

definition spawn ::
  "frame_env \<Rightarrow> detection \<Rightarrow> motion_predictor track_table \<Rightarrow> (track_rec option \<times> motion_predictor track_table) result" where
  "spawn env det t =
     (case det_box det of
        None \<Rightarrow> Inr (None, t)
      | Some bx \<Rightarrow>
          (case spawn_create env det bx t of
             Inr (r, t') \<Rightarrow> Inr (Some r, t')
           | Inl (TrackerCapacityError c n) \<Rightarrow>
               (case evict_weakest t of
                  (None, t') \<Rightarrow> Inr (None, t')
                | (Some _, t') \<Rightarrow>
                    (case spawn_create env det bx t' of
                       Inr (r, t'') \<Rightarrow> Inr (Some r, t'')
                     | Inl (TrackerCapacityError c' n') \<Rightarrow> Inr (None, t')
                     | Inl e \<Rightarrow> Inl e))
           | Inl e \<Rightarrow> Inl e))"

fun spawn_all :: "frame_env \<Rightarrow> nat list \<Rightarrow> apply_state \<Rightarrow> apply_state result" where
  "spawn_all env [] st = Inr st"
| "spawn_all env (di # ds) st =
     (if di \<in> set (map snd (env_matched env)) then spawn_all env ds st
      else if di < length (rq_detections (env_request env)) then
        bind_result (spawn env (rq_detections (env_request env) ! di) (ap_table st)) (\<lambda>(created, t).
          spawn_all env ds
            (case created of
               None \<Rightarrow> st\<lparr>ap_table := t\<rparr>
             | Some r \<Rightarrow> st\<lparr>ap_table := t, ap_new := ap_new st @ [rec_id r]\<rparr>))
      else Inl IndexError)"

definition apply_frame :: "frame_env \<Rightarrow> motion_predictor track_table \<Rightarrow> apply_state result" where
  "apply_frame env t =
     bind_result
       (apply_records env 0 (table_records t)
          \<lparr>ap_table = t, ap_new = [], ap_terminated = [], ap_coasting = [], ap_recovered = [],
           ap_associations = []\<rparr>)
       (spawn_all env (env_high env))"

section \<open>What is published\<close>

datatype measurement_basis = MEASURED | PREDICTED | INTERPOLATED

record track =
  tr_id :: track_id
  tr_camera :: camera_id
  tr_tenant :: tenant_id
  tr_site :: site_id
  tr_state :: track_state
  tr_class :: class_id
  tr_confidence :: rat
  tr_box :: box
  tr_basis :: measurement_basis
  tr_velocity :: "rat \<times> rat"
  tr_acceleration :: "(rat \<times> rat) option"
  tr_heading :: "rat option"
  tr_speed :: rat
  tr_uncertainty :: rat
  tr_motion_state :: motion_state
  tr_first_seen :: instant
  tr_last_seen :: instant
  tr_last_updated :: instant
  tr_age_frames :: int
  tr_hit_count :: int
  tr_coast_frames :: int
  tr_detections :: "frame_ref list"
  tr_method :: association_method
  tr_cost :: rat
  tr_runner_up :: "rat option"
  tr_gated :: int
  tr_break :: break_reason

definition check_motion_estimate :: "track \<Rightarrow> unit result" where
  "check_motion_estimate t =
     (if tr_speed t < 0 then Inl ValueError
      else if tr_uncertainty t < 0 then Inl ValueError
      else case tr_heading t of
             Some h \<Rightarrow> if \<not> (0 \<le> h \<and> h < 360) then Inl ValueError else Inr ()
           | None \<Rightarrow> Inr ())"

definition check_track :: "track \<Rightarrow> track result" where
  "check_track t =
     (if tid_camera (tr_id t) \<noteq> tr_camera t then Inl ValueError
      else if \<not> is_within_unit (tr_box t) then Inl ValueError
      else if tr_age_frames t < 0 \<or> tr_hit_count t < 0 \<or> tr_coast_frames t < 0 then Inl ValueError
      else if tr_hit_count t > tr_age_frames t then Inl ValueError
      else if track_is_predicted (tr_state t) \<and> tr_basis t = MEASURED then Inl ValueError
      else if tr_state t = COASTING \<and> tr_coast_frames t = 0 then Inl ValueError
      else if instant_ns (tr_last_seen t) > instant_ns (tr_last_updated t) then Inl ValueError
      else Inr t)"

definition project_box :: "track_rec \<Rightarrow> box" where
  "project_box r =
     (if track_is_predicted (rec_state r) then
        (case bind_result (predictor_predict (rec_predictor r) (Duration (since_measurement_ns r)))
                (\<lambda>q. clamped_to_unit \<lparr>box_x1 = pr_x1 q, box_y1 = pr_y1 q, box_x2 = pr_x2 q, box_y2 = pr_y2 q\<rparr>) of
           Inl _ \<Rightarrow> rec_box r
         | Inr b \<Rightarrow> b)
      else rec_box r)"

definition project :: "math_lib \<Rightarrow> track_rec \<Rightarrow> track result" where
  "project ml r =
     (let velocity = predictor_velocity (rec_predictor r);
          speed = speed_of ml velocity;
          t = \<lparr>tr_id = rec_id r, tr_camera = tid_camera (rec_id r), tr_tenant = rec_tenant r,
               tr_site = rec_site r, tr_state = rec_state r, tr_class = rec_class r,
               tr_confidence = clamp_unit (association_confidence r), tr_box = project_box r,
               tr_basis = (if track_is_predicted (rec_state r) then PREDICTED else MEASURED),
               tr_velocity = velocity,
               tr_acceleration = predictor_acceleration (rec_predictor r),
               tr_heading = heading_of ml velocity,
               tr_speed = (if speed \<ge> 1 / 10000 then speed else 0),
               tr_uncertainty = of_int (since_measurement_ns r) / 1000000000 * (5 / 100),
               tr_motion_state = rec_motion r, tr_first_seen = first_seen r,
               tr_last_seen = last_seen r, tr_last_updated = last_updated r,
               tr_age_frames = age_frames r, tr_hit_count = hit_count r,
               tr_coast_frames = coast_frames r, tr_detections = rec_history r,
               tr_method = assoc_method r, tr_cost = association_cost r,
               tr_runner_up = runner_up_cost r, tr_gated = gated_candidates r,
               tr_break = rec_break r\<rparr>
      in bind_result (check_motion_estimate t) (\<lambda>_. check_track t))"

fun project_all :: "math_lib \<Rightarrow> track_rec list \<Rightarrow> track list result" where
  "project_all ml [] = Inr []"
| "project_all ml (r # rs) =
     bind_result (project ml r) (\<lambda>t. bind_result (project_all ml rs) (\<lambda>ts. Inr (t # ts)))"

record track_update =
  tu_camera :: camera_id
  tu_frame_ref :: frame_ref
  tu_epoch :: int
  tu_active :: "track list"
  tu_new :: "track_id list"
  tu_terminated :: "(track_id \<times> break_reason) list"
  tu_coasting :: "track_id list"
  tu_recovered :: "track_id list"
  tu_associations :: "(track_id \<times> nat) list"
  tu_refused :: "refusal list"
  tu_unmatched :: "nat list"

text \<open>\<^verbatim>\<open>_apply\<close>: the records, the unmatched detections, then the published tracks.\<close>

definition apply_update ::
  "frame_env \<Rightarrow> refusal list \<Rightarrow> motion_predictor track_table \<Rightarrow> (track_update \<times> motion_predictor track_table) result" where
  "apply_update env refused t =
     bind_result (apply_frame env t) (\<lambda>st.
       bind_result (project_all (env_math env) (table_records (ap_table st))) (\<lambda>active.
         Inr (\<lparr>tu_camera = rq_camera (env_request env), tu_frame_ref = rq_frame_ref (env_request env),
               tu_epoch = tt_epoch (ap_table st), tu_active = active, tu_new = ap_new st,
               tu_terminated = ap_terminated st, tu_coasting = ap_coasting st,
               tu_recovered = ap_recovered st, tu_associations = ap_associations st,
               tu_refused = refused,
               tu_unmatched = filter (\<lambda>i. i \<notin> snd ` set (env_matched env))
                                [0..<length (rq_detections (env_request env))]\<rparr>,
              ap_table st)))"

section \<open>The tracker over its cameras\<close>

record tracker =
  tk_tables :: "(camera_id, motion_predictor track_table) dict"
  tk_last_frame :: "(camera_id, int \<times> int) dict"
  tk_last_time :: "(camera_id, instant) dict"
  tk_epochs :: "(camera_id, int) dict"

definition assert_ordering :: "tracker \<Rightarrow> camera_id \<Rightarrow> tracking_request \<Rightarrow> unit result" where
  "assert_ordering tk camera rq =
     (case dict_get (tk_last_frame tk) camera of
        None \<Rightarrow> Inr ()
      | Some previous \<Rightarrow>
          if (fr_stream_epoch (rq_frame_ref rq), fr_frame_seq (rq_frame_ref rq)) \<le> previous
          then Inl (OutOfOrderFrameError camera) else Inr ())"

definition elapsed_for :: "tracker \<Rightarrow> camera_id \<Rightarrow> tracking_request \<Rightarrow> duration" where
  "elapsed_for tk camera rq =
     (if duration_ns (rq_elapsed rq) > 0 then rq_elapsed rq
      else case dict_get (tk_last_time tk) camera of
             None \<Rightarrow> Duration 0
           | Some previous \<Rightarrow> Duration (max 0 (instant_ns (rq_timestamp rq) - instant_ns previous)))"

definition epoch_of :: "tracker \<Rightarrow> camera_id \<Rightarrow> int" where
  "epoch_of tk camera = (case dict_get (tk_epochs tk) camera of None \<Rightarrow> 0 | Some e \<Rightarrow> e)"

definition tracker_reset :: "camera_id \<Rightarrow> tracker \<Rightarrow> int \<times> tracker" where
  "tracker_reset camera tk =
     (let epoch = epoch_of tk camera + 1
      in (epoch, tk\<lparr>tk_epochs := dict_set camera epoch (tk_epochs tk),
            tk_tables := (case dict_get (tk_tables tk) camera of
                            None \<Rightarrow> tk_tables tk
                          | Some t \<Rightarrow> dict_set camera (snd (table_reset epoch t)) (tk_tables tk)),
            tk_last_frame := dict_del camera (tk_last_frame tk),
            tk_last_time := dict_del camera (tk_last_time tk)\<rparr>))"

definition table_for ::
  "track_policy \<Rightarrow> int \<Rightarrow> camera_id \<Rightarrow> tracker \<Rightarrow> (motion_predictor track_table \<times> tracker) result" where
  "table_for policy hist camera tk =
     (case dict_get (tk_tables tk) camera of
        Some t \<Rightarrow> Inr (t, tk)
      | None \<Rightarrow>
          let tk' = tk\<lparr>tk_epochs := setdefault camera 0 (tk_epochs tk)\<rparr>
          in bind_result (new_table camera (epoch_of tk' camera) (max_tracks_per_camera policy) hist)
               (\<lambda>t. Inr (t, tk'\<lparr>tk_tables := dict_set camera t (tk_tables tk')\<rparr>)))"

text \<open>
  \<^verbatim>\<open>update\<close>: the whole frame. An exception leaves no new state in this model; the theorems
  below show that the only one a well-formed frame can meet is the ordering check, which comes
  before anything is written.
\<close>

definition match_frame ::
  "tracker_config \<Rightarrow> tracking_request \<Rightarrow> duration \<Rightarrow> track_rec list \<Rightarrow>
   ((nat, nat) dict \<times> refusal list \<times> resolved \<times> nat list) result" where
  "match_frame cfg rq elapsed records =
     (let predictions = predict_all records elapsed;
          (high, low) = split_detections cfg (rq_detections rq)
      in bind_result (associate cfg records predictions (rq_detections rq) high) (\<lambda>res.
         bind_result (filter_ambiguous cfg res records) (\<lambda>(matched, refused).
         if two_stage cfg \<and> low \<noteq> []
         then bind_result (second_stage cfg records predictions (rq_detections rq) low matched res)
                (\<lambda>(matched, res). Inr (matched, refused, res, high))
         else Inr (matched, refused, res, high))))"

definition env_for ::
  "tracker_config \<Rightarrow> tracking_request \<Rightarrow> duration \<Rightarrow> (nat, nat) dict \<Rightarrow> refusal list \<Rightarrow> resolved \<Rightarrow>
   nat list \<Rightarrow> frame_env" where
  "env_for cfg rq elapsed matched refused res high =
     \<lparr>env_math = tc_math cfg, env_policy = tc_lifecycle cfg, env_use_motion = use_motion_model cfg,
      env_history = nat (tc_history_length cfg), env_request = rq, env_elapsed = elapsed,
      env_matched = matched, env_refused = map fst refused, env_resolved = res, env_high = high\<rparr>"

definition tracker_update ::
  "tracker_config \<Rightarrow> tracking_request \<Rightarrow> tracker \<Rightarrow> (track_update \<times> tracker) result" where
  "tracker_update cfg rq tk =
     bind_result (assert_ordering tk (rq_camera rq) rq) (\<lambda>_.
     bind_result (table_for (tc_lifecycle cfg) (tc_history_length cfg) (rq_camera rq) tk) (\<lambda>(t, tk).
     let elapsed = elapsed_for tk (rq_camera rq) rq
     in bind_result (match_frame cfg rq elapsed (table_records t)) (\<lambda>(matched, refused, res, high).
        bind_result (apply_update (env_for cfg rq elapsed matched refused res high) refused t)
          (\<lambda>(u, t').
          Inr (u, tk\<lparr>tk_tables := dict_set (rq_camera rq) t' (tk_tables tk),
                     tk_last_frame := dict_set (rq_camera rq)
                       (fr_stream_epoch (rq_frame_ref rq), fr_frame_seq (rq_frame_ref rq))
                       (tk_last_frame tk),
                     tk_last_time := dict_set (rq_camera rq) (rq_timestamp rq) (tk_last_time tk)\<rparr>)))))"

definition tracker_tracks :: "tracker_config \<Rightarrow> camera_id \<Rightarrow> tracker \<Rightarrow> track list result" where
  "tracker_tracks cfg camera tk =
     (case dict_get (tk_tables tk) camera of
        None \<Rightarrow> Inr []
      | Some t \<Rightarrow> project_all (tc_math cfg) (table_records t))"

end
