(* ===== verification/Tracker_Safety.thy ===== *)
theory Tracker_Safety
  imports Tracker
begin

text \<open>
  Correctness of the tracker modelled in \<open>Tracker\<close>: the invariant of its tables and records,
  that every frame a well-formed request brings is processed without an exception unless it is
  out of order, what is published, and what happens to identities over a run of updates and
  resets. The association policy is reached only through the laws of \<open>association_port\<close>
  (locale \<open>tracker_port\<close>), which the greedy associator satisfies.
\<close>

section \<open>Records stay well formed\<close>

definition record_ok :: "track_rec \<Rightarrow> bool" where
  "record_ok r \<longleftrightarrow>
     rec_state r \<noteq> TERMINATED
     \<and> 0 \<le> hit_count r \<and> hit_count r \<le> age_frames r \<and> 0 \<le> coast_frames r
     \<and> (track_is_predicted (rec_state r) \<longleftrightarrow> 0 < coast_frames r)
     \<and> last_seen r \<le> last_updated r \<and> is_within_unit (rec_box r) \<and> 0 \<le> since_measurement_ns r"

lemma update_motion_state_frame [simp]:
  "rec_id (update_motion_state ml r) = rec_id r"
  "rec_state (update_motion_state ml r) = rec_state r"
  "hit_count (update_motion_state ml r) = hit_count r"
  "age_frames (update_motion_state ml r) = age_frames r"
  "coast_frames (update_motion_state ml r) = coast_frames r"
  "last_seen (update_motion_state ml r) = last_seen r"
  "last_updated (update_motion_state ml r) = last_updated r"
  "rec_box (update_motion_state ml r) = rec_box r"
  "since_measurement_ns (update_motion_state ml r) = since_measurement_ns r"
  by (simp_all add: update_motion_state_def Let_def split: option.split)

lemma record_ok_update_motion [simp]: "record_ok (update_motion_state ml r) = record_ok r"
  by (simp add: record_ok_def)

lemma project_box_within: "is_within_unit (rec_box r) \<Longrightarrow> is_within_unit (project_box r)"
  by (auto simp: project_box_def result_simps dest: clamped_to_unit_within split: sum.split)

definition publishes :: "track_rec \<Rightarrow> track \<Rightarrow> bool" where
  "publishes r t \<longleftrightarrow> tr_id t = rec_id r \<and> tr_camera t = tid_camera (rec_id r)
     \<and> tr_state t = rec_state r \<and> tr_box t = project_box r
     \<and> (tr_basis t = MEASURED \<longleftrightarrow> \<not> track_is_predicted (rec_state r))"

lemma project_ok: "record_ok r \<Longrightarrow> \<exists>t. project ml r = Inr t \<and> publishes r t"
  using project_box_within [of r] heading_range [of ml "predictor_velocity (rec_predictor r)"]
  by (auto simp: record_ok_def project_def check_motion_estimate_def check_track_def publishes_def
      track_is_predicted_def less_eq_instant_def Let_def result_simps split: option.splits)

lemma project_all_ok:
  "\<forall>r \<in> set rs. record_ok r \<Longrightarrow> \<exists>ts. project_all ml rs = Inr ts \<and> list_all2 publishes rs ts"
proof (induction rs)
  case (Cons r rs)
  then obtain t ts where "project ml r = Inr t" "publishes r t"
    and "project_all ml rs = Inr ts" "list_all2 publishes rs ts"
    using project_ok by (metis list.set_intros)
  then show ?case by simp
qed simp

lemma on_hit_current:
  assumes "on_hit p s h a = Inr tr"
  shows "current_state tr \<in> {TENTATIVE, CONFIRMED, TERMINATED}"
  using assms by (auto simp: on_hit_def track_to_Inr_iff split: if_splits)

lemma on_miss_current:
  assumes "on_miss p s c a b g = Inr tr"
  shows "current_state tr \<in> {COASTING, LOST, TERMINATED}"
  using assms by (auto simp: on_miss_def track_to_Inr_iff Let_def split: if_splits)

definition hit_of :: "track_rec \<Rightarrow> track_rec \<Rightarrow> instant \<Rightarrow> transition \<Rightarrow> bool" where
  "hit_of r r' now tr \<longleftrightarrow> rec_id r' = rec_id r \<and> rec_state r' = current_state tr
     \<and> last_updated r' = now \<and> (rec_state r' \<noteq> TERMINATED \<longrightarrow> record_ok r')"

lemma hit_record_ok:
  assumes "record_ok r" and "det_box det = Some bx" and "is_within_unit bx"
  shows "\<exists>tr r'. hit_record ml pol um hist rq el res ti di det r = Inr (tr, r')
    \<and> hit_of r r' (rq_timestamp rq) tr"
proof -
  have "rec_state r \<noteq> TERMINATED" using assms(1) by (simp add: record_ok_def)
  then obtain tr where tr: "on_hit pol (rec_state r) (hit_count r + 1) (age_frames r + 1) = Inr tr"
    using track_transition_total [of "rec_state r" pol "Hit_Event (hit_count r + 1) (age_frames r + 1)"]
    by auto
  with on_hit_current [OF tr] assms show ?thesis
    by (auto simp: hit_record_def hit_of_def Let_def record_ok_def track_is_predicted_def)
qed

lemma miss_record_ok:
  assumes "record_ok r" and "last_seen r \<le> now" and "0 \<le> duration_ns el"
  shows "\<exists>tr r'. miss_record pol now broken el r = Inr (tr, r') \<and> hit_of r r' now tr"
proof -
  have "rec_state r \<noteq> TERMINATED" using assms(1) by (simp add: record_ok_def)
  then obtain tr where tr: "on_miss pol (rec_state r) (coast_frames r + 1) (age_frames r + 1) broken
      (since_measurement_ns r + duration_ns el) = Inr tr"
    using track_transition_total [of "rec_state r" pol "Miss_Event (coast_frames r + 1)
        (age_frames r + 1) broken (since_measurement_ns r + duration_ns el)"]
    by auto
  with on_miss_current [OF tr] assms show ?thesis
    by (auto simp: miss_record_def hit_of_def record_ok_def track_is_predicted_def)
qed

section \<open>A frame never raises\<close>

definition records_ok :: "instant \<Rightarrow> motion_predictor track_table \<Rightarrow> bool" where
  "records_ok now t \<longleftrightarrow> (\<forall>(i, r) \<in> set (tt_records t). record_ok r \<and> last_updated r \<le> now)"

definition frame_wf :: "frame_env \<Rightarrow> bool" where
  "frame_wf env \<longleftrightarrow>
     0 \<le> duration_ns (env_elapsed env)
     \<and> (\<forall>d \<in> set (rq_detections (env_request env)). \<exists>b. det_box d = Some b \<and> is_within_unit b)
     \<and> (\<forall>(t, d) \<in> set (env_matched env). d < length (rq_detections (env_request env)))
     \<and> (\<forall>d \<in> set (env_high env). d < length (rq_detections (env_request env)))"

definition pending :: "track_rec list \<Rightarrow> motion_predictor track_table \<Rightarrow> bool" where
  "pending rs t \<longleftrightarrow> distinct (map rec_id rs) \<and> (\<forall>r \<in> set rs. (rec_id r, r) \<in> set (tt_records t))"

abbreviation frame_now :: "frame_env \<Rightarrow> instant" where
  "frame_now env \<equiv> rq_timestamp (env_request env)"

text \<open>
  \<open>evolves now t u\<close>: table \<open>u\<close> comes from \<open>t\<close> by table operations and is well formed at time
  \<open>now\<close>.
\<close>

definition evolves :: "instant \<Rightarrow> motion_predictor track_table \<Rightarrow> motion_predictor track_table \<Rightarrow> bool" where
  "evolves now t u \<longleftrightarrow> table_step\<^sup>*\<^sup>* t u \<and> table_ok u \<and> records_ok now u"

lemma evolves_trans: "evolves now t u \<Longrightarrow> evolves now u v \<Longrightarrow> evolves now t v"
  by (auto simp: evolves_def)

lemma evolvesD:
  assumes "evolves now t u"
  shows "table_ok u" and "records_ok now u" and "table_step\<^sup>*\<^sup>* t u"
  using assms by (simp_all add: evolves_def)

lemma settle_record_ok:
  assumes ok: "table_ok (ap_table st)" and recs: "records_ok now (ap_table st)"
    and pend: "pending (r # rs) (ap_table st)" and hit: "hit_of r r' now tr"
  shows "evolves now (ap_table st) (ap_table (settle_record tr r' st))
    \<and> pending rs (ap_table (settle_record tr r' st))"
proof -
  let ?t = "table_write r' (ap_table st)"
  have id: "rec_id r' = rec_id r" using hit by (simp add: hit_of_def)
  have wf: "wf_dict (tt_records (ap_table st))" using ok by (rule table_okD)
  have lv: "rec_id r' \<in> live (ap_table st)"
    using pend id by (force simp: pending_def live_def)
  with ok have okw: "table_ok ?t" by (rule table_write_ok)
  have stepw: "table_step (ap_table st) ?t" using lv by (rule table_step.overwrite)
  have entries: "(i, q) \<in> set (tt_records ?t) \<longleftrightarrow>
      (if i = rec_id r then q = r' else (i, q) \<in> set (tt_records (ap_table st)))" for i q
    using wf by (simp add: table_write_def dict_simps id)
  have notin: "rec_id r \<notin> set (map rec_id rs)"
    using pend by (simp add: pending_def)
  then have apart: "rec_id q \<noteq> rec_id r" if "q \<in> set rs" for q
    using that by (metis imageI set_map)
  then have others: "pending rs ?t"
    using pend by (simp add: pending_def entries)
  show ?thesis
  proof (cases "transition_is_terminal tr")
    case True
    let ?u = "snd (table_remove (rec_id r) ?t)"
    have "ap_table (settle_record tr r' st) = ?u"
      using True by (simp add: settle_record_def id)
    moreover have "(i, q) \<in> set (tt_records ?u) \<longleftrightarrow>
        i \<noteq> rec_id r \<and> (i, q) \<in> set (tt_records (ap_table st))" for i q
      by (auto simp: in_table_remove_iff entries)
    moreover have "table_ok ?u" using okw by (rule table_remove_ok)
    moreover have "table_step\<^sup>*\<^sup>* (ap_table st) ?u"
      using stepw table_step.remove [of ?t "rec_id r"] by auto
    ultimately show ?thesis
      using recs others apart pend by (auto simp: evolves_def records_ok_def pending_def)
  next
    case False
    then have "ap_table (settle_record tr r' st) = ?t"
      by (simp add: settle_record_def Let_def)
    moreover have "record_ok r' \<and> last_updated r' \<le> now"
      using hit False by (auto simp: hit_of_def transition_is_terminal_def)
    ultimately show ?thesis
      using okw others recs stepw by (auto simp: evolves_def records_ok_def entries split: if_splits)
  qed
qed

lemma apply_record_ok:
  assumes "table_ok (ap_table st)" and "records_ok (frame_now env) (ap_table st)"
    and "pending (r # rs) (ap_table st)" and "frame_wf env"
  shows "\<exists>st'. apply_record env i r st = Inr st'
    \<and> evolves (frame_now env) (ap_table st) (ap_table st') \<and> pending rs (ap_table st')"
proof -
  have r: "record_ok r" and "last_updated r \<le> frame_now env"
    using assms(2,3) by (auto simp: records_ok_def pending_def)
  then have seen: "last_seen r \<le> frame_now env"
    by (auto simp: record_ok_def)
  have elapsed: "0 \<le> duration_ns (env_elapsed env)"
    using assms(4) by (simp add: frame_wf_def)
  show ?thesis
  proof (cases "dict_get (env_matched env) i")
    case None
    obtain tr r' where "miss_record (env_policy env) (frame_now env)
        (if rec_id r \<in> set (env_refused env) then ASSOCIATION_FAILURE
         else miss_reason r (rq_detections (env_request env))) (env_elapsed env) r = Inr (tr, r')"
      and hit: "hit_of r r' (frame_now env) tr"
      using miss_record_ok [OF r seen elapsed] by blast
    with None settle_record_ok [OF assms(1-3) hit] show ?thesis
      by (simp add: apply_record_def)
  next
    case (Some di)
    then have di: "di < length (rq_detections (env_request env))"
      using assms(4) by (auto simp: frame_wf_def dest!: dict_get_Some_in)
    then obtain b where "det_box (rq_detections (env_request env) ! di) = Some b" "is_within_unit b"
      using assms(4) nth_mem [OF di] unfolding frame_wf_def by blast
    then obtain tr r' where h: "hit_record (env_math env) (env_policy env) (env_use_motion env)
        (env_history env) (env_request env) (env_elapsed env) (env_resolved env) i di
        (rq_detections (env_request env) ! di) r = Inr (tr, r')"
      and hit: "hit_of r r' (frame_now env) tr"
      using hit_record_ok [OF r] by blast
    let ?st = "st\<lparr>ap_associations := ap_associations st @ [(rec_id r', di)]\<rparr>"
    define mid where "mid = (if is_recovery tr
        then ?st\<lparr>ap_recovered := ap_recovered ?st @ [rec_id r']\<rparr> else ?st)"
    have "ap_table mid = ap_table st" by (simp add: mid_def)
    moreover have "apply_record env i r st = Inr (settle_record tr r' mid)"
      using Some di h by (simp add: apply_record_def Let_def mid_def)
    ultimately show ?thesis
      using settle_record_ok [of mid _ r rs, OF _ _ _ hit] assms(1-3) by simp
  qed
qed

lemma apply_records_ok:
  assumes "table_ok (ap_table st)" and "records_ok (frame_now env) (ap_table st)"
    and "pending rs (ap_table st)" and "frame_wf env"
  shows "\<exists>st'. apply_records env i rs st = Inr st' \<and> evolves (frame_now env) (ap_table st) (ap_table st')"
  using assms
proof (induction rs arbitrary: i st)
  case (Cons r rs)
  obtain st' where "apply_record env i r st = Inr st'" "pending rs (ap_table st')"
    and e: "evolves (frame_now env) (ap_table st) (ap_table st')"
    using apply_record_ok [OF Cons.prems] by blast
  with Cons.IH [of st' "Suc i"] Cons.prems(4) evolvesD [OF e] evolves_trans [OF e]
  show ?case by fastforce
qed (simp add: evolves_def)

lemma table_create_ready:
  assumes "table_ok t" and "int (length (tt_records t)) < tt_max_tracks t"
    and "records_ok now t" and "is_within_unit bx"
  shows "\<exists>r t'. table_create cls bx p now ref tn st t = Inr (r, t') \<and> evolves now t t'"
proof -
  obtain r t' where c: "table_create cls bx p now ref tn st t = Inr (r, t')"
    and r: "record_ok r" "last_updated r = now"
    using assms(1,2,4) table_okD(8,9) [OF assms(1)]
    by (auto simp: table_create_def mk_track_id_def Let_def record_ok_def track_is_predicted_def)
  have "records_ok now t'"
    using assms(3) r unfolding table_create_fresh(2) [OF c]
    by (auto simp: records_ok_def dest!: in_dict_set)
  with c table_create_ok [OF assms(1) c] table_step.create [OF c] show ?thesis
    unfolding evolves_def by blast
qed

lemma evict_makes_room:
  assumes "table_ok t" and "tt_records t \<noteq> []" and "records_ok now t"
  shows "\<exists>r t'. evict_weakest t = (Some r, t') \<and> evolves now t t'
    \<and> int (length (tt_records t')) < tt_max_tracks t'"
proof -
  obtain i r where i: "(i, r) \<in> set (tt_records t)"
    and e: "evict_weakest t = (Some r, snd (table_remove i t))"
    using evict_weakest_victim [OF assms(1,2)] by blast
  let ?t = "snd (table_remove i t)"
  have "i \<in> set (dict_keys (tt_records t))" using i by force
  then have "dict_get (tt_records t) i \<noteq> None"
    and "Suc (length (dict_del i (tt_records t))) = length (tt_records t)"
    using table_okD(1) [OF assms(1)] by (simp_all add: dict_get_None_iff length_dict_del)
  then have "Suc (length (tt_records ?t)) = length (tt_records t)"
    by (auto simp: table_remove_def)
  then have "int (length (tt_records ?t)) < tt_max_tracks ?t"
    using table_okD(6) [OF assms(1)] by (simp add: table_remove_frame)
  moreover have "records_ok now ?t"
    using assms(3) by (auto simp: records_ok_def in_table_remove_iff)
  ultimately show ?thesis
    using e table_remove_ok [OF assms(1)] table_step.remove [of t i] unfolding evolves_def by blast
qed

lemma spawn_ok:
  assumes "table_ok t" and "records_ok (frame_now env) t"
    and "det_box det = Some b" and "is_within_unit b"
  shows "\<exists>r t'. spawn env det t = Inr (Some r, t') \<and> evolves (frame_now env) t t'"
proof (cases "int (length (tt_records t)) < tt_max_tracks t")
  case True
  then obtain r t' where "spawn_create env det b t = Inr (r, t')" and "evolves (frame_now env) t t'"
    using table_create_ready [OF assms(1) _ assms(2,4)] unfolding spawn_create_def by blast
  with assms(3) show ?thesis by (simp add: spawn_def)
next
  case False
  then have full: "spawn_create env det b t
      = Inl (TrackerCapacityError (tt_camera t) (tt_max_tracks t))"
    by (simp add: spawn_create_def table_create_def)
  from False have "tt_records t \<noteq> []"
    using table_okD(7) [OF assms(1)] by auto
  then obtain v t' where v: "evict_weakest t = (Some v, t')" and t': "evolves (frame_now env) t t'"
    "int (length (tt_records t')) < tt_max_tracks t'"
    using evict_makes_room [OF assms(1) _ assms(2)] by blast
  obtain r t'' where "spawn_create env det b t' = Inr (r, t'')" and "evolves (frame_now env) t' t''"
    using table_create_ready [OF evolvesD(1) [OF t'(1)] t'(2) evolvesD(2) [OF t'(1)] assms(4)]
    unfolding spawn_create_def by blast
  with v full assms(3) evolves_trans [OF t'(1)] show ?thesis by (simp add: spawn_def)
qed

lemma spawn_all_ok:
  assumes "table_ok (ap_table st)" and "records_ok (frame_now env) (ap_table st)"
    and "frame_wf env" and "set ds \<subseteq> {..<length (rq_detections (env_request env))}"
  shows "\<exists>st'. spawn_all env ds st = Inr st' \<and> evolves (frame_now env) (ap_table st) (ap_table st')"
  using assms
proof (induction ds arbitrary: st)
  case (Cons di ds)
  then have di: "di < length (rq_detections (env_request env))" by simp
  then obtain b where "det_box (rq_detections (env_request env) ! di) = Some b" "is_within_unit b"
    using Cons.prems(3) nth_mem [OF di] unfolding frame_wf_def by blast
  then obtain r t' where "spawn env (rq_detections (env_request env) ! di) (ap_table st) = Inr (Some r, t')"
    and e: "evolves (frame_now env) (ap_table st) t'"
    using spawn_ok [OF Cons.prems(1,2)] by blast
  then show ?case
    using Cons.IH [of st] Cons.IH [of "st\<lparr>ap_table := t', ap_new := ap_new st @ [rec_id r]\<rparr>"]
      Cons.prems di evolvesD [OF e] evolves_trans [OF e] by auto
qed (simp add: evolves_def)

lemma pending_records: "table_ok t \<Longrightarrow> pending (table_records t) t"
proof -
  assume ok: "table_ok t"
  have ids: "map rec_id (table_records t) = dict_keys (sorted_items (tt_records t))"
    using table_okD(5) [OF ok] by (auto simp: table_records_def sorted_values_def sorted_items_def)
  have "distinct (map rec_id (table_records t))"
    unfolding ids using wf_dict_sorted_items [OF table_okD(1) [OF ok]] by (simp add: wf_dict_def)
  then show ?thesis
    using table_okD(5) [OF ok] by (auto simp: pending_def table_records_def)
qed

lemma apply_frame_ok:
  assumes "table_ok t" and "records_ok (frame_now env) t" and "frame_wf env"
  shows "\<exists>st. apply_frame env t = Inr st \<and> evolves (frame_now env) t (ap_table st)"
proof -
  let ?s = "\<lparr>ap_table = t, ap_new = [], ap_terminated = [], ap_coasting = [], ap_recovered = [],
           ap_associations = []\<rparr>"
  obtain st where s: "apply_records env 0 (table_records t) ?s = Inr st"
    and e: "evolves (frame_now env) t (ap_table st)"
    using apply_records_ok [of ?s env "table_records t" 0] assms pending_records [OF assms(1)] by auto
  have "set (env_high env) \<subseteq> {..<length (rq_detections (env_request env))}"
    using assms(3) by (auto simp: frame_wf_def)
  from spawn_all_ok [OF evolvesD(1,2) [OF e] assms(3) this] show ?thesis
    using s evolves_trans [OF e] by (auto simp: apply_frame_def)
qed

lemma apply_update_ok:
  assumes "table_ok t" and "records_ok (frame_now env) t" and "frame_wf env"
  shows "\<exists>u t'. apply_update env refused t = Inr (u, t') \<and> evolves (frame_now env) t t'
    \<and> list_all2 publishes (table_records t') (tu_active u) \<and> tu_epoch u = tt_epoch t'
    \<and> tu_camera u = rq_camera (env_request env)"
proof -
  obtain st where st: "apply_frame env t = Inr st" and e: "evolves (frame_now env) t (ap_table st)"
    using apply_frame_ok [OF assms] by blast
  have "\<forall>r \<in> set (table_records (ap_table st)). record_ok r"
    using evolvesD(2) [OF e] by (auto simp: records_ok_def table_records_def)
  from project_all_ok [OF this] obtain ts where
    "project_all (env_math env) (table_records (ap_table st)) = Inr ts"
    "list_all2 publishes (table_records (ap_table st)) ts" by blast
  with st e show ?thesis by (simp add: apply_update_def)
qed

section \<open>Matching against any association port\<close>

definition in_range :: "detection list \<Rightarrow> nat list \<Rightarrow> bool" where
  "in_range ds is \<longleftrightarrow> (\<forall>i \<in> set is. i < length ds)"

definition boxed :: "detection list \<Rightarrow> bool" where
  "boxed ds \<longleftrightarrow> (\<forall>d \<in> set ds. det_box d \<noteq> None)"

lemma split_from_range:
  "split_from cfg i ds = (h, l) \<Longrightarrow> \<forall>x \<in> set h \<union> set l. i \<le> x \<and> x < i + length ds"
proof (induction ds arbitrary: i h l)
  case (Cons d ds)
  obtain h' l' where "split_from cfg (Suc i) ds = (h', l')" by (rule prod.exhaust)
  with Cons.IH [OF this] Cons.prems show ?case
    by (auto simp: Let_def ball_Un Suc_le_eq less_imp_le split: if_splits)
qed simp

lemma split_detections_range:
  "split_detections cfg ds = (h, l) \<Longrightarrow> in_range ds h \<and> in_range ds l"
  using split_from_range [of cfg 0 ds h l] by (auto simp: split_detections_def in_range_def)

lemma fold_dict_set_in:
  "x \<in> set (fold (\<lambda>(t, d) acc. dict_set t (g d) acc) ms acc) \<Longrightarrow>
     x \<in> set acc \<or> (\<exists>(t, d) \<in> set ms. x = (t, g d))"
proof (induction ms arbitrary: acc)
  case (Cons m ms)
  obtain t d where m: "m = (t, d)" by (rule prod.exhaust)
  from Cons.IH [of "dict_set t (g d) acc"] Cons.prems m
  show ?case by (cases x) (auto dest: in_dict_set)
qed simp

locale tracker_port = association_port "tc_associator cfg" for cfg :: tracker_config
begin

lemma associate_ok:
  assumes "in_range ds is" and "boxed ds" and "length predictions = length records"
  shows "\<exists>res. associate cfg records predictions ds is = Inr res
    \<and> (\<forall>(t, d) \<in> set (rs_matches res). t < length records \<and> d \<in> set is)"
proof -
  define bxs where "bxs = map the (filter (\<lambda>b. b \<noteq> None) (map (\<lambda>i. det_box (ds ! i)) is))"
  define cs where "cs = build (tc_math cfg) (tc_association cfg) predictions bxs
      (map (\<lambda>i. det_score (ds ! i)) is)"
  define cs' where "cs' = (if \<exists>r \<in> set records. recovery_cost_factor (rec_state r) \<noteq> None
      then filter (\<lambda>c. cand_cost c \<le> cost_ceiling cfg records (track_index c)) cs else cs)"
  let ?r = "tc_associator cfg (length records) (length is) cs' (ap_max_cost (tc_association cfg))"
  have "length bxs \<le> length is"
    unfolding bxs_def by (metis length_filter_le length_map)
  have range: "t < length records \<and> d < length is" if td: "(t, d) \<in> set (res_matches ?r)" for t d
  proof -
    obtain c where "c \<in> set cs'" "track_index c = t" "detection_index c = d"
      using match_is_candidate [OF td] by blast
    moreover from this have "c \<in> set cs" by (auto simp: cs'_def split: if_splits)
    ultimately show ?thesis
      using build_candidate [of c] \<open>length bxs \<le> length is\<close> assms(3)
      unfolding cs_def by fastforce
  qed
  have a: "associate cfg records predictions ds is = resolve ?r is"
    by (simp add: associate_def Let_def cs'_def cs_def bxs_def)
  have "list_all (\<lambda>(t, d). d < length is) (res_matches ?r)"
    using range by (auto simp: list_all_iff)
  moreover have "t < length records \<and> d \<in> set is"
    if "(t, d) \<in> set (fold (\<lambda>(t, d) acc. dict_set t (is ! d) acc) (res_matches ?r) [])" for t d
    using fold_dict_set_in [OF that] range by auto
  ultimately show ?thesis unfolding a resolve_def by auto
qed

end

definition matches_below :: "nat \<Rightarrow> nat \<Rightarrow> (nat, nat) dict \<Rightarrow> bool" where
  "matches_below n m d \<longleftrightarrow> (\<forall>(ti, di) \<in> set d. ti < n \<and> di < m)"

lemma matches_below_set: "matches_below n m d \<Longrightarrow> t < n \<Longrightarrow> i < m \<Longrightarrow> matches_below n m (dict_set t i d)"
  by (auto simp: matches_below_def dest!: in_dict_set)

lemma filter_ambiguous_ok:
  assumes "matches_below (length records) m (rs_matches res)"
  shows "\<exists>matched refused. filter_ambiguous cfg res records = Inr (matched, refused)
    \<and> matches_below (length records) m matched"
proof (cases "ambiguity_margin (tc_association cfg) \<le> 0")
  case True
  with assms show ?thesis by (simp add: filter_ambiguous_def)
next
  case False
  let ?f = "ambiguity_step (ambiguity_margin (tc_association cfg)) res records"
  have "\<exists>s. fold_result ?f (rs_matches res) ([], []) = Inr s \<and> matches_below (length records) m (fst s)"
  proof (rule fold_result_invariant)
    fix x and s :: "(nat, nat) dict \<times> refusal list"
    assume "x \<in> set (rs_matches res)" and s: "matches_below (length records) m (fst s)"
    moreover obtain t d where "x = (t, d)" by (rule prod.exhaust)
    ultimately have "t < length records" "d < m" "x = (t, d)"
      using assms by (auto simp: matches_below_def)
    with s show "\<exists>s'. ?f x s = Inr s' \<and> matches_below (length records) m (fst s')"
      by (cases s) (simp add: ambiguity_step_def py_index_def matches_below_set Let_def split: option.split)
  qed (simp add: matches_below_def)
  with False show ?thesis by (auto simp: filter_ambiguous_def Let_def)
qed

context tracker_port
begin

lemma second_stage_ok:
  assumes "in_range ds low" and "boxed ds" and "length predictions = length records"
    and matched: "matches_below (length records) (length ds) matched"
  shows "\<exists>m res'. second_stage cfg records predictions ds low matched res = Inr (m, res')
    \<and> matches_below (length records) (length ds) m"
proof -
  define leftover where "leftover = filter (\<lambda>i. dict_get matched i = None) [0..<length records]"
  show ?thesis
  proof (cases "leftover = []")
    case True
    with matched show ?thesis by (simp add: second_stage_def leftover_def [symmetric])
  next
    case False
    obtain second where second: "associate cfg (map (\<lambda>i. records ! i) leftover)
        (map (\<lambda>i. predictions ! i) leftover) ds low = Inr second"
      and below: "\<forall>(t, d) \<in> set (rs_matches second). t < length leftover \<and> d \<in> set low"
      using associate_ok [OF assms(1,2), of "map (\<lambda>i. predictions ! i) leftover"
          "map (\<lambda>i. records ! i) leftover"] by auto
    have "\<exists>s. fold_result (second_step leftover second) (rs_matches second) (matched, rs_costs res) = Inr s
        \<and> matches_below (length records) (length ds) (fst s)"
    proof (rule fold_result_invariant)
      fix x and s :: "(nat, nat) dict \<times> (nat \<times> nat, rat) dict"
      assume x: "x \<in> set (rs_matches second)" and s: "matches_below (length records) (length ds) (fst s)"
      obtain l d where ld: "x = (l, d)" by (rule prod.exhaust)
      with x below have "l < length leftover" and "d < length ds"
        using assms(1) by (auto simp: in_range_def)
      moreover from this(1) have "leftover ! l < length records"
        using nth_mem [of l leftover] by (simp add: leftover_def)
      ultimately show "\<exists>s'. second_step leftover second x s = Inr s'
          \<and> matches_below (length records) (length ds) (fst s')"
        using s by (cases s) (simp add: ld second_step_def py_index_def matches_below_set)
    qed (simp add: matched)
    with False second show ?thesis
      by (auto simp: second_stage_def leftover_def [symmetric])
  qed
qed

lemma match_frame_ok:
  assumes "boxed (rq_detections rq)"
  shows "\<exists>matched refused res high. match_frame cfg rq el records = Inr (matched, refused, res, high)
    \<and> matches_below (length records) (length (rq_detections rq)) matched
    \<and> in_range (rq_detections rq) high"
proof -
  obtain high low where hl: "split_detections cfg (rq_detections rq) = (high, low)"
    by (rule prod.exhaust)
  note range = split_detections_range [OF hl]
  have len: "length (predict_all records el) = length records" by (simp add: predict_all_def)
  obtain res where res: "associate cfg records (predict_all records el) (rq_detections rq) high = Inr res"
    and "\<forall>(t, d) \<in> set (rs_matches res). t < length records \<and> d \<in> set high"
    using associate_ok [OF _ assms len] range by blast
  then have "matches_below (length records) (length (rq_detections rq)) (rs_matches res)"
    using range by (auto simp: matches_below_def in_range_def)
  then obtain matched refused where f: "filter_ambiguous cfg res records = Inr (matched, refused)"
    and m: "matches_below (length records) (length (rq_detections rq)) matched"
    using filter_ambiguous_ok by blast
  with hl res range second_stage_ok [OF _ assms len m, of low res] show ?thesis
    by (auto simp: match_frame_def)
qed

end

section \<open>The tracker invariant and its operations\<close>

definition camera_ok :: "tracker \<Rightarrow> camera_id \<Rightarrow> motion_predictor track_table \<Rightarrow> bool" where
  "camera_ok tk c t \<longleftrightarrow> table_ok t \<and> tt_camera t = c \<and> tt_epoch t = epoch_of tk c
     \<and> (case dict_get (tk_last_time tk) c of
           None \<Rightarrow> tt_records t = []
         | Some now \<Rightarrow> records_ok now t)"

definition tracker_ok :: "tracker \<Rightarrow> bool" where
  "tracker_ok tk \<longleftrightarrow> wf_dict (tk_tables tk)
     \<and> (\<forall>(c, t) \<in> set (tk_tables tk). camera_ok tk c t)
     \<and> (\<forall>c \<in> set (dict_keys (tk_last_time tk)). c \<in> set (dict_keys (tk_tables tk)))
     \<and> (\<forall>c. 0 \<le> epoch_of tk c)"

definition new_tracker :: tracker where
  "new_tracker = \<lparr>tk_tables = [], tk_last_frame = [], tk_last_time = [], tk_epochs = []\<rparr>"

definition request_ok :: "tracker \<Rightarrow> tracking_request \<Rightarrow> bool" where
  "request_ok tk rq \<longleftrightarrow>
     (\<forall>d \<in> set (rq_detections rq). \<exists>b. det_box d = Some b \<and> is_within_unit b)
     \<and> (\<forall>now. dict_get (tk_last_time tk) (rq_camera rq) = Some now \<longrightarrow> now \<le> rq_timestamp rq)"

definition config_ok :: "tracker_config \<Rightarrow> bool" where
  "config_ok cfg \<longleftrightarrow> check_track_policy (tc_lifecycle cfg) = Inr (tc_lifecycle cfg)
     \<and> 1 \<le> tc_history_length cfg"

lemma new_tracker_ok [simp]: "tracker_ok new_tracker"
  by (simp add: tracker_ok_def new_tracker_def epoch_of_def)

lemma table_for_ok:
  assumes "tracker_ok tk" and "config_ok cfg"
  shows "\<exists>t tk'. table_for (tc_lifecycle cfg) (tc_history_length cfg) c tk = Inr (t, tk')
    \<and> tracker_ok tk' \<and> dict_get (tk_tables tk') c = Some t \<and> camera_ok tk' c t
    \<and> tk_last_time tk' = tk_last_time tk \<and> tk_last_frame tk' = tk_last_frame tk"
proof (cases "dict_get (tk_tables tk) c")
  case (Some t)
  with assms(1) show ?thesis
    by (auto simp: table_for_def tracker_ok_def dest!: dict_get_Some_in)
next
  case None
  define tk' where "tk' = tk\<lparr>tk_epochs := setdefault c 0 (tk_epochs tk)\<rparr>"
  have epoch: "epoch_of tk' c' = epoch_of tk c'" for c'
    by (simp add: epoch_of_def tk'_def setdefault_def dict_get_set split: option.split)
  have "0 \<le> epoch_of tk' c" using assms(1) epoch by (simp add: tracker_ok_def)
  moreover obtain t :: "motion_predictor track_table" where t: "new_table c (epoch_of tk' c) (max_tracks_per_camera (tc_lifecycle cfg))
      (tc_history_length cfg) = Inr t"
    using assms(2) by (auto simp: config_ok_def check_track_policy_def new_table_def split: if_splits)
  ultimately have "table_ok t" by (rule new_table_ok)
  moreover have "tt_camera t = c" "tt_epoch t = epoch_of tk' c" "tt_records t = []"
    using t by (auto simp: new_table_def split: if_splits)
  moreover have time: "dict_get (tk_last_time tk) c = None"
    using None assms(1) by (auto simp: tracker_ok_def dict_get_None_iff)
  ultimately have new: "camera_ok (tk'\<lparr>tk_tables := dict_set c t (tk_tables tk')\<rparr>) c t"
    by (simp add: camera_ok_def epoch_of_def tk'_def)
  have same: "camera_ok (tk'\<lparr>tk_tables := x\<rparr>) c' t' = camera_ok tk c' t'" for x c' t'
    using epoch [of c'] by (simp add: camera_ok_def epoch_of_def tk'_def)
  have "tracker_ok (tk'\<lparr>tk_tables := dict_set c t (tk_tables tk')\<rparr>)"
    using assms(1) new epoch unfolding tracker_ok_def same
    by (auto simp: tk'_def dict_simps epoch_of_def dest!: in_dict_set)
  then show ?thesis
    using None t new by (simp add: table_for_def Let_def tk'_def dict_simps)
qed

lemma table_for_epoch:
  "table_for p h c tk = Inr (t, tk') \<Longrightarrow> epoch_of tk' c' = epoch_of tk c'"
  by (auto simp: table_for_def epoch_of_def setdefault_def dict_simps result_simps Let_def
      split: option.splits if_splits)

lemma table_for_tables:
  assumes "table_for p h c tk = Inr (t, tk')"
  shows "c' \<noteq> c \<Longrightarrow> dict_get (tk_tables tk') c' = dict_get (tk_tables tk) c'"
    and "dict_get (tk_tables tk) c = Some t0 \<Longrightarrow> t = t0"
  using assms by (auto simp: table_for_def dict_simps result_simps Let_def split: option.splits)

definition out_of_order :: "tracker \<Rightarrow> tracking_request \<Rightarrow> bool" where
  "out_of_order tk rq \<longleftrightarrow> (case dict_get (tk_last_frame tk) (rq_camera rq) of
     None \<Rightarrow> False
   | Some previous \<Rightarrow> (fr_stream_epoch (rq_frame_ref rq), fr_frame_seq (rq_frame_ref rq)) \<le> previous)"

lemma assert_ordering_iff:
  "assert_ordering tk (rq_camera rq) rq =
     (if out_of_order tk rq then Inl (OutOfOrderFrameError (rq_camera rq)) else Inr ())"
  by (simp add: assert_ordering_def out_of_order_def split: option.split)

lemma elapsed_for_nonneg: "0 \<le> duration_ns (elapsed_for tk c rq)"
  by (auto simp: elapsed_for_def split: option.split)

lemma records_ok_mono: "records_ok now t \<Longrightarrow> now \<le> now' \<Longrightarrow> records_ok now' t"
  by (fastforce simp: records_ok_def)

lemma camera_ok_records:
  assumes "camera_ok tk (rq_camera rq) t" and "request_ok tk rq"
  shows "records_ok (rq_timestamp rq) t"
  using assms records_ok_mono
  by (auto simp: camera_ok_def request_ok_def records_ok_def split: option.splits)

lemma store_table_ok:
  assumes ok: "tracker_ok tk" and c: "camera_ok tk c t" and e: "evolves now t t'"
  shows "tracker_ok (tk\<lparr>tk_tables := dict_set c t' (tk_tables tk), tk_last_frame := lf,
                        tk_last_time := dict_set c now (tk_last_time tk)\<rparr>)"
    (is "tracker_ok ?tk")
proof -
  have same: "epoch_of ?tk c' = epoch_of tk c'" for c'
    by (simp add: epoch_of_def)
  have "camera_ok ?tk c t'"
    using c e table_run_ok [OF evolvesD(3) [OF e]]
    by (simp add: camera_ok_def same dict_simps evolves_def)
  moreover have "camera_ok ?tk c' u" if "(c', u) \<in> set (tk_tables tk)" "c' \<noteq> c" for c' u
  proof -
    have "camera_ok tk c' u" using that(1) ok by (auto simp: tracker_ok_def)
    with that(2) show ?thesis by (simp add: camera_ok_def same dict_simps)
  qed
  ultimately show ?thesis
    using ok unfolding tracker_ok_def same by (auto simp: dict_simps split: if_splits)
qed

context tracker_port
begin

lemma update_ok:
  assumes "tracker_ok tk" and "config_ok cfg" and "request_ok tk rq" and "\<not> out_of_order tk rq"
  shows "\<exists>u tk' t. tracker_update cfg rq tk = Inr (u, tk') \<and> tracker_ok tk'
    \<and> dict_get (tk_tables tk') (rq_camera rq) = Some t
    \<and> list_all2 publishes (table_records t) (tu_active u)
    \<and> tu_camera u = rq_camera rq \<and> tu_epoch u = tt_epoch t \<and> camera_ok tk' (rq_camera rq) t
    \<and> (\<forall>c. epoch_of tk' c = epoch_of tk c)
    \<and> (\<forall>c. c \<noteq> rq_camera rq \<longrightarrow> dict_get (tk_tables tk') c = dict_get (tk_tables tk) c)
    \<and> (\<forall>t0. dict_get (tk_tables tk) (rq_camera rq) = Some t0 \<longrightarrow> table_step\<^sup>*\<^sup>* t0 t)"
proof -
  obtain t tk1 where tf: "table_for (tc_lifecycle cfg) (tc_history_length cfg) (rq_camera rq) tk = Inr (t, tk1)"
    and ok1: "tracker_ok tk1" and c1: "camera_ok tk1 (rq_camera rq) t"
    and time1: "tk_last_time tk1 = tk_last_time tk"
    using table_for_ok [OF assms(1,2)] by blast
  have req1: "request_ok tk1 rq" using assms(3) time1 by (simp add: request_ok_def)
  define el where "el = elapsed_for tk1 (rq_camera rq) rq"
  have "boxed (rq_detections rq)" using assms(3) by (force simp: boxed_def request_ok_def)
  then obtain m refused res high where mf: "match_frame cfg rq el (table_records t) = Inr (m, refused, res, high)"
    and "matches_below (length (table_records t)) (length (rq_detections rq)) m"
    and "in_range (rq_detections rq) high"
    using match_frame_ok by blast
  then have wf: "frame_wf (env_for cfg rq el m refused res high)"
    using assms(3) elapsed_for_nonneg
    by (auto simp: frame_wf_def env_for_def request_ok_def matches_below_def in_range_def el_def)
  have recs: "records_ok (frame_now (env_for cfg rq el m refused res high)) t"
    using camera_ok_records [OF c1 req1] by (simp add: env_for_def)
  have "table_ok t" using c1 by (simp add: camera_ok_def)
  from apply_update_ok [OF this recs wf, of refused] obtain u t' where
    au: "apply_update (env_for cfg rq el m refused res high) refused t = Inr (u, t')"
    and e: "evolves (rq_timestamp rq) t t'" and pub: "list_all2 publishes (table_records t') (tu_active u)"
    and tu: "tu_epoch u = tt_epoch t'" "tu_camera u = rq_camera rq"
    by (auto simp: env_for_def)
  define tk2 where "tk2 = tk1\<lparr>tk_tables := dict_set (rq_camera rq) t' (tk_tables tk1),
      tk_last_frame := dict_set (rq_camera rq)
        (fr_stream_epoch (rq_frame_ref rq), fr_frame_seq (rq_frame_ref rq)) (tk_last_frame tk1),
      tk_last_time := dict_set (rq_camera rq) (rq_timestamp rq) (tk_last_time tk1)\<rparr>"
  have "tracker_ok tk2" unfolding tk2_def by (rule store_table_ok [OF ok1 c1 e])
  moreover have "tracker_update cfg rq tk = Inr (u, tk2)"
    using assms(4) tf mf au by (simp add: tracker_update_def assert_ordering_iff el_def tk2_def)
  moreover have get: "dict_get (tk_tables tk2) (rq_camera rq) = Some t'"
    by (simp add: tk2_def dict_simps)
  moreover have "camera_ok tk2 (rq_camera rq) t'"
    using \<open>tracker_ok tk2\<close> dict_get_Some_in [OF get] by (auto simp: tracker_ok_def)
  moreover have "epoch_of tk2 c = epoch_of tk c" for c
    using table_for_epoch [OF tf, of c] by (simp add: tk2_def epoch_of_def)
  moreover have "c \<noteq> rq_camera rq \<longrightarrow> dict_get (tk_tables tk2) c = dict_get (tk_tables tk) c" for c
    using table_for_tables [OF tf] by (simp add: tk2_def dict_simps)
  moreover have "\<forall>t0. dict_get (tk_tables tk) (rq_camera rq) = Some t0 \<longrightarrow> table_step\<^sup>*\<^sup>* t0 t'"
    using table_for_tables(2) [OF tf] evolvesD(3) [OF e] by blast
  ultimately show ?thesis using pub tu by blast
qed

end

interpretation greedy_tracker: tracker_port "cfg\<lparr>tc_associator := greedy_assign\<rparr>"
  by (simp add: tracker_port_def greedy.association_port_axioms)


lemma greedy_update_ok:
  assumes "tracker_ok tk" and "config_ok cfg" and "request_ok tk rq"
    and "tracker_update (cfg\<lparr>tc_associator := greedy_assign\<rparr>) rq tk = Inr (u, tk')"
  obtains t where "tracker_ok tk'" and "dict_get (tk_tables tk') (rq_camera rq) = Some t"
    and "list_all2 publishes (table_records t) (tu_active u)"
    and "tu_camera u = rq_camera rq" and "tu_epoch u = tt_epoch t"
    and "camera_ok tk' (rq_camera rq) t"
    and "\<And>c. epoch_of tk' c = epoch_of tk c"
    and "\<And>c. c \<noteq> rq_camera rq \<Longrightarrow> dict_get (tk_tables tk') c = dict_get (tk_tables tk) c"
    and "\<And>t0. dict_get (tk_tables tk) (rq_camera rq) = Some t0 \<Longrightarrow> table_step\<^sup>*\<^sup>* t0 t"
proof -
  have "config_ok (cfg\<lparr>tc_associator := greedy_assign\<rparr>)" using assms(2) by (simp add: config_ok_def)
  moreover have "\<not> out_of_order tk rq"
    using assms(4) by (auto simp: tracker_update_def assert_ordering_iff)
  ultimately show thesis
    using greedy_tracker.update_ok [OF assms(1) _ assms(3), of cfg] assms(4) by (auto intro: that)
qed

lemma greedy_update_publishes:
  assumes "tracker_ok tk" and "config_ok cfg" and "request_ok tk rq"
    and "tracker_update (cfg\<lparr>tc_associator := greedy_assign\<rparr>) rq tk = Inr (u, tk')"
  shows "tracker_ok tk' \<and> distinct (map tr_id (tu_active u))
    \<and> (\<forall>t \<in> set (tu_active u). tr_camera t = rq_camera rq \<and> tid_camera (tr_id t) = rq_camera rq
         \<and> tid_epoch (tr_id t) = epoch_of tk' (rq_camera rq)
         \<and> tr_state t \<noteq> TERMINATED \<and> is_within_unit (tr_box t)
         \<and> (tr_basis t = MEASURED \<longleftrightarrow> \<not> track_is_predicted (tr_state t)))"
proof (rule greedy_update_ok [OF assms])
  fix tb
  assume ok: "tracker_ok tk'" and pub: "list_all2 publishes (table_records tb) (tu_active u)"
    and cam: "camera_ok tk' (rq_camera rq) tb"
  have tb: "table_ok tb" and "tt_camera tb = rq_camera rq" "tt_epoch tb = epoch_of tk' (rq_camera rq)"
    using cam by (simp_all add: camera_ok_def)
  have ids: "map tr_id (tu_active u) = map rec_id (table_records tb)"
    using pub by (induction rule: list_all2_induct) (auto simp: publishes_def)
  have rec: "record_ok r \<and> issued tb (rec_id r)" if r: "r \<in> set (table_records tb)" for r
  proof -
    obtain i where i: "(i, r) \<in> set (tt_records tb)" using r by (auto simp: table_records_def)
    then have "record_ok r"
      using cam by (auto simp: camera_ok_def records_ok_def split: option.splits)
    moreover have "rec_id r = i" "i \<in> live tb" using i table_okD(5) [OF tb] by (force simp: live_def)+
    ultimately show ?thesis using table_okD(3) [OF tb] by simp
  qed
  have "\<exists>r \<in> set (table_records tb). publishes r t" if "t \<in> set (tu_active u)" for t
    using pub that by (induction rule: list_all2_induct) auto
  then have "tr_camera t = rq_camera rq \<and> tid_camera (tr_id t) = rq_camera rq \<and> tid_epoch (tr_id t) = epoch_of tk' (rq_camera rq)
      \<and> tr_state t \<noteq> TERMINATED \<and> is_within_unit (tr_box t)
      \<and> (tr_basis t = MEASURED \<longleftrightarrow> \<not> track_is_predicted (tr_state t))"
    if "t \<in> set (tu_active u)" for t
    using that rec \<open>tt_camera tb = _\<close> \<open>tt_epoch tb = _\<close> project_box_within
    by (fastforce simp: publishes_def record_ok_def issued_def)
  moreover have "distinct (map tr_id (tu_active u))"
    unfolding ids using pending_records [OF tb] by (simp add: pending_def)
  ultimately show ?thesis using ok by blast
qed

text \<open>
  C7: what a successful update publishes meets the tracker port's obligations. The invariant
  holds again; the active tracks have pairwise distinct ids, all of the requested camera and of
  the current tracker epoch; none is terminated; every box is inside the unit square; a track
  says its position is measured exactly when it is neither coasting nor lost.
\<close>

theorem tracker_update_publishes_valid_tracks:
  assumes "tracker_ok tk" and "config_ok cfg" and "request_ok tk rq"
    and "tracker_update (cfg\<lparr>tc_associator := greedy_assign\<rparr>) rq tk = Inr (u, tk')"
  shows "tracker_ok tk' \<and> distinct (map tr_id (tu_active u))
    \<and> (\<forall>t \<in> set (tu_active u). tid_camera (tr_id t) = rq_camera rq
         \<and> tid_epoch (tr_id t) = epoch_of tk' (rq_camera rq)
         \<and> tr_state t \<noteq> TERMINATED \<and> is_within_unit (tr_box t)
         \<and> (tr_basis t = MEASURED \<longleftrightarrow> \<not> track_is_predicted (tr_state t)))"
  using greedy_update_publishes [OF assms] by simp

section \<open>Identities over a run\<close>

inductive tracker_step :: "tracker_config \<Rightarrow> tracker \<Rightarrow> tracker \<Rightarrow> bool" for cfg where
  update: "request_ok tk rq \<Longrightarrow>
    tracker_update (cfg\<lparr>tc_associator := greedy_assign\<rparr>) rq tk = Inr (u, tk') \<Longrightarrow> tracker_step cfg tk tk'"
| reset: "tracker_step cfg tk (snd (tracker_reset c tk))"

definition live_track :: "tracker \<Rightarrow> track_id \<Rightarrow> bool" where
  "live_track tk i \<longleftrightarrow> (case dict_get (tk_tables tk) (tid_camera i) of
     None \<Rightarrow> False | Some t \<Rightarrow> i \<in> live t)"

definition was_issued :: "tracker \<Rightarrow> track_id \<Rightarrow> bool" where
  "was_issued tk i \<longleftrightarrow> 0 \<le> tid_local i \<and> (tid_epoch i < epoch_of tk (tid_camera i)
     \<or> (case dict_get (tk_tables tk) (tid_camera i) of None \<Rightarrow> False | Some t \<Rightarrow> issued t i))"

lemma tracker_reset_ok:
  assumes ok: "tracker_ok tk"
  shows "tracker_ok (snd (tracker_reset c tk))"
proof -
  let ?tk = "snd (tracker_reset c tk)"
  have epoch: "epoch_of ?tk c' = (if c' = c then epoch_of tk c + 1 else epoch_of tk c')" for c'
    by (simp add: tracker_reset_def epoch_of_def Let_def dict_simps)
  have nonneg: "0 \<le> epoch_of tk c'" for c' using ok by (simp add: tracker_ok_def)
  have time: "tk_last_time ?tk = dict_del c (tk_last_time tk)"
    by (simp add: tracker_reset_def Let_def)
  have tables: "tk_tables ?tk = (case dict_get (tk_tables tk) c of None \<Rightarrow> tk_tables tk
      | Some t \<Rightarrow> dict_set c (snd (table_reset (epoch_of tk c + 1) t)) (tk_tables tk))"
    by (simp add: tracker_reset_def Let_def)
  have wf: "wf_dict (tk_tables tk)" using ok by (simp add: tracker_ok_def)
  have "camera_ok ?tk c' t'" if "(c', t') \<in> set (tk_tables ?tk)" for c' t'
  proof (cases "c' = c")
    case True
    with that obtain t where "dict_get (tk_tables tk) c = Some t"
      and t': "t' = snd (table_reset (epoch_of tk c + 1) t)"
      using wf by (auto simp: tables dict_simps in_dict_iff split: option.splits)
    then have "camera_ok tk c t" using ok by (auto simp: tracker_ok_def dest!: dict_get_Some_in)
    then have "table_ok t'" "tt_camera t' = c"
      using table_reset_ok [of t "epoch_of tk c + 1"] nonneg [of c] unfolding t'
      by (auto simp: camera_ok_def table_reset_def)
    with True epoch show ?thesis
      by (simp add: camera_ok_def t' table_reset_def time dict_simps)
  next
    case False
    with that have "(c', t') \<in> set (tk_tables tk)"
      using wf by (auto simp: tables dict_simps split: option.splits)
    then have "camera_ok tk c' t'" using ok by (auto simp: tracker_ok_def)
    with False epoch show ?thesis by (simp add: camera_ok_def time dict_simps)
  qed
  moreover have "0 \<le> epoch_of ?tk c'" for c' using nonneg [of c'] nonneg [of c] by (simp add: epoch)
  ultimately show ?thesis
    using ok by (auto simp: tracker_ok_def time tables dict_simps split: option.splits)
qed

lemma tracker_ok_camera: "tracker_ok tk \<Longrightarrow> dict_get (tk_tables tk) c = Some t \<Longrightarrow> camera_ok tk c t"
  by (auto simp: tracker_ok_def dest!: dict_get_Some_in)

lemma camera_ok_issued:
  "camera_ok tk c t \<Longrightarrow> i \<in> live t \<Longrightarrow> issued t i"
  "camera_ok tk c t \<Longrightarrow> issued t i \<Longrightarrow> tid_epoch i = epoch_of tk c"
  using table_okD(3) by (auto simp: camera_ok_def issued_def)

lemma live_track_issued:
  assumes "tracker_ok tk" and "live_track tk i"
  shows "was_issued tk i"
proof -
  obtain t where t: "dict_get (tk_tables tk) (tid_camera i) = Some t" and "i \<in> live t"
    using assms(2) by (auto simp: live_track_def split: option.splits)
  then have "issued t i"
    using camera_ok_issued(1) [OF tracker_ok_camera [OF assms(1)]] by blast
  with t show ?thesis by (simp add: was_issued_def issued_def)
qed

lemma tracker_step_ok:
  assumes "tracker_step cfg tk tk'" and "config_ok cfg" and "tracker_ok tk"
  shows "tracker_ok tk'"
  using assms(1)
proof cases
  case (update rq u)
  show ?thesis by (rule greedy_update_ok [OF assms(3,2) update])
qed (simp add: tracker_reset_ok assms(3))

lemma past_epoch_not_live:
  assumes "tracker_ok tk" and "tid_epoch i < epoch_of tk (tid_camera i)"
  shows "\<not> live_track tk i"
proof
  assume "live_track tk i"
  then obtain t where t: "dict_get (tk_tables tk) (tid_camera i) = Some t" and "i \<in> live t"
    by (auto simp: live_track_def split: option.splits)
  then have "tid_epoch i = epoch_of tk (tid_camera i)"
    using camera_ok_issued [OF tracker_ok_camera [OF assms(1) t]] by blast
  with assms(2) show False by simp
qed

lemma update_step_gone:
  assumes "tracker_ok tk" and "config_ok cfg" and "request_ok tk rq"
    and "tracker_update (cfg\<lparr>tc_associator := greedy_assign\<rparr>) rq tk = Inr (u, tk')"
    and "was_issued tk i"
  shows "was_issued tk' i \<and> (\<not> live_track tk i \<longrightarrow> \<not> live_track tk' i)"
proof (rule greedy_update_ok [OF assms(1-4)])
  fix t
  assume t: "dict_get (tk_tables tk') (rq_camera rq) = Some t" and ok': "tracker_ok tk'"
    and epoch: "\<And>c. epoch_of tk' c = epoch_of tk c"
    and other: "\<And>c. c \<noteq> rq_camera rq \<Longrightarrow> dict_get (tk_tables tk') c = dict_get (tk_tables tk) c"
    and steps: "\<And>t0. dict_get (tk_tables tk) (rq_camera rq) = Some t0 \<Longrightarrow> table_step\<^sup>*\<^sup>* t0 t"
  consider "tid_epoch i < epoch_of tk (tid_camera i)" | "tid_camera i \<noteq> rq_camera rq"
    | t0 where "tid_camera i = rq_camera rq" "dict_get (tk_tables tk) (rq_camera rq) = Some t0" "issued t0 i"
    using assms(5) by (cases "tid_camera i = rq_camera rq") (auto simp: was_issued_def split: option.splits)
  then show ?thesis
  proof cases
    case 1
    then show ?thesis
      using past_epoch_not_live [OF ok', of i] epoch assms(5) by (simp add: was_issued_def)
  next
    case 2
    then show ?thesis
      using other [OF 2] epoch assms(5) by (simp add: was_issued_def live_track_def)
  next
    case (3 t0)
    have "table_ok t0"
      using assms(1) dict_get_Some_in [OF 3(2)] by (auto simp: tracker_ok_def camera_ok_def)
    moreover have "issued t i"
      using steps [OF 3(2)] 3(3) by (induction rule: rtranclp_induct) (auto intro: table_step_issued_mono)
    ultimately show ?thesis
      using 3 t table_run_gone_stays_gone [OF steps [OF 3(2)]] assms(5)
      by (auto simp: was_issued_def live_track_def)
  qed
qed

lemma reset_step_gone:
  assumes ok: "tracker_ok tk" and "was_issued tk i"
  shows "was_issued (snd (tracker_reset c tk)) i
    \<and> (\<not> live_track tk i \<longrightarrow> \<not> live_track (snd (tracker_reset c tk)) i)"
proof -
  let ?tk = "snd (tracker_reset c tk)"
  have epoch: "epoch_of ?tk c' = (if c' = c then epoch_of tk c + 1 else epoch_of tk c')" for c'
    by (simp add: tracker_reset_def epoch_of_def Let_def dict_simps)
  show ?thesis
  proof (cases "tid_camera i = c")
    case True
    have "tid_epoch i \<le> epoch_of tk c"
      using assms(2) True camera_ok_issued(2) [OF tracker_ok_camera [OF ok], of c]
      by (auto simp: was_issued_def split: option.splits)
    then have "tid_epoch i < epoch_of ?tk (tid_camera i)" using True by (simp add: epoch)
    then show ?thesis
      using past_epoch_not_live [OF tracker_reset_ok [OF ok]] assms(2) by (simp add: was_issued_def)
  next
    case False
    then have "dict_get (tk_tables ?tk) (tid_camera i) = dict_get (tk_tables tk) (tid_camera i)"
      by (simp add: tracker_reset_def Let_def dict_simps split: option.split)
    with False epoch assms(2) show ?thesis by (simp add: was_issued_def live_track_def)
  qed
qed

lemma tracker_run_gone:
  assumes "(tracker_step cfg)\<^sup>*\<^sup>* tk tk'" and "config_ok cfg" and "tracker_ok tk" and "was_issued tk i"
  shows "tracker_ok tk' \<and> was_issued tk' i \<and> (\<not> live_track tk i \<longrightarrow> \<not> live_track tk' i)"
  using assms
proof (induction rule: rtranclp_induct)
  case (step tk' tk'')
  then have ih: "tracker_ok tk'" "was_issued tk' i" "\<not> live_track tk i \<longrightarrow> \<not> live_track tk' i" by auto
  have "was_issued tk'' i \<and> (\<not> live_track tk' i \<longrightarrow> \<not> live_track tk'' i)"
    using step(2)
  proof cases
    case (update rq u)
    then show ?thesis by (rule update_step_gone [OF ih(1) step.prems(1) _ _ ih(2)])
  next
    case (reset c)
    then show ?thesis using reset_step_gone [OF ih(1,2)] by simp
  qed
  with ih tracker_step_ok [OF step(2) step.prems(1) ih(1)] show ?case by blast
qed simp

text \<open>
  C4: a track id names one track for the lifetime of a tracker. Over any run of updates and
  camera resets from the initial tracker, an id that has been live and is not live any more,
  because its track terminated, was evicted or was discarded by a reset, is never live again.
\<close>

theorem track_ids_never_reused:
  assumes "config_ok cfg" and "(tracker_step cfg)\<^sup>*\<^sup>* new_tracker tk" and "live_track tk i"
    and "(tracker_step cfg)\<^sup>*\<^sup>* tk tk'" and "\<not> live_track tk' i"
    and "(tracker_step cfg)\<^sup>*\<^sup>* tk' tk''"
  shows "\<not> live_track tk'' i"
proof -
  have ok: "tracker_ok tk"
    using assms(2) by (induction rule: rtranclp_induct) (auto intro: tracker_step_ok assms(1))
  then have "was_issued tk i" using assms(3) by (rule live_track_issued)
  then have "tracker_ok tk'" "was_issued tk' i"
    using tracker_run_gone [OF assms(4,1) ok] by auto
  then show ?thesis using tracker_run_gone [OF assms(6,1)] assms(5) by blast
qed

section \<open>How long a track outlives its measurements\<close>

definition miss_run ::
  "track_policy \<Rightarrow> instant \<Rightarrow> break_reason \<Rightarrow> duration list \<Rightarrow> track_rec \<Rightarrow> track_rec result" where
  "miss_run pol now broken els r =
     fold_result (\<lambda>el r. bind_result (miss_record pol now broken el r) (\<lambda>(tr, r'). Inr r')) els r"

definition absence_state :: "track_policy \<Rightarrow> int \<Rightarrow> track_state" where
  "absence_state pol n =
     (if n = 0 then CONFIRMED
      else if n \<le> max_coast_frames pol then COASTING
      else if n \<le> max_coast_frames pol + max_lost_frames pol then LOST
      else TERMINATED)"

definition within_limits :: "track_policy \<Rightarrow> duration list \<Rightarrow> track_rec \<Rightarrow> bool" where
  "within_limits pol els r \<longleftrightarrow>
     age_frames r + int (length els) < max_age_frames pol
     \<and> (max_unmeasured_ns pol \<le> 0
        \<or> since_measurement_ns r + sum_list (map duration_ns els) < max_unmeasured_ns pol)
     \<and> (\<forall>el \<in> set els. 0 \<le> duration_ns el)"

lemma sum_list_durations_nonneg: "\<forall>el \<in> set els. 0 \<le> duration_ns el \<Longrightarrow> 0 \<le> sum_list (map duration_ns els)"
  by (induction els) auto

lemma within_limits_Cons:
  assumes "within_limits pol (el # els) r" and "age_frames r' = age_frames r + 1"
    and "since_measurement_ns r' = since_measurement_ns r + duration_ns el"
  shows "within_limits pol els r'"
  using assms by (auto simp: within_limits_def)

lemma miss_record_within_limits:
  assumes "within_limits pol (el # els) r" and "1 \<le> max_coast_frames pol"
    and "rec_state r = absence_state pol (coast_frames r)" and "0 \<le> coast_frames r"
    and "coast_frames r \<le> max_coast_frames pol + max_lost_frames pol" and "0 \<le> max_lost_frames pol"
  shows "\<exists>tr r'. miss_record pol now broken el r = Inr (tr, r')
    \<and> rec_state r' = absence_state pol (coast_frames r') \<and> coast_frames r' = coast_frames r + 1
    \<and> age_frames r' = age_frames r + 1
    \<and> since_measurement_ns r' = since_measurement_ns r + duration_ns el"
proof -
  have "age_frames r + 1 < max_age_frames pol"
    and "\<not> (max_unmeasured_ns pol > 0 \<and> since_measurement_ns r + duration_ns el \<ge> max_unmeasured_ns pol)"
    using assms(1) sum_list_durations_nonneg [of els] by (auto simp: within_limits_def)
  with assms(2-) show ?thesis
    by (auto simp: miss_record_def on_miss_def absence_state_def track_to_def check_track_transition_def
        Let_def)
qed

lemma miss_run_absence:
  assumes "within_limits pol els r" and "1 \<le> max_coast_frames pol" and "0 \<le> max_lost_frames pol"
    and "rec_state r = absence_state pol (coast_frames r)" and "0 \<le> coast_frames r"
    and "coast_frames r + int (length els) \<le> max_coast_frames pol + max_lost_frames pol + 1"
  shows "\<exists>r'. miss_run pol now broken els r = Inr r'
    \<and> coast_frames r' = coast_frames r + int (length els)
    \<and> rec_state r' = absence_state pol (coast_frames r')"
  using assms
proof (induction els arbitrary: r)
  case (Cons el els)
  obtain tr r1 where "miss_record pol now broken el r = Inr (tr, r1)"
    and r1: "rec_state r1 = absence_state pol (coast_frames r1)" "coast_frames r1 = coast_frames r + 1"
      "age_frames r1 = age_frames r + 1"
      "since_measurement_ns r1 = since_measurement_ns r + duration_ns el"
    using miss_record_within_limits [OF Cons.prems(1,2,4,5)] Cons.prems(3,6) by fastforce
  moreover have "within_limits pol els r1"
    using Cons.prems(1) r1(3,4) by (rule within_limits_Cons)
  ultimately show ?case
    using Cons.IH [of r1] Cons.prems by (simp add: miss_run_def add.assoc)
qed (simp add: miss_run_def)


definition absence_ok :: "track_policy \<Rightarrow> track_rec \<Rightarrow> bool" where
  "absence_ok pol r \<longleftrightarrow> 0 \<le> coast_frames r
     \<and> (rec_state r = COASTING \<longrightarrow> coast_frames r \<le> max_coast_frames pol)
     \<and> (rec_state r = LOST \<longrightarrow> coast_frames r \<le> max_coast_frames pol + max_lost_frames pol)
     \<and> (rec_state r \<in> {TENTATIVE, CONFIRMED} \<longrightarrow> coast_frames r = 0)"

lemma miss_record_absence:
  assumes "absence_ok pol r" and "rec_state r \<noteq> TERMINATED"
    and "0 \<le> max_coast_frames pol" "0 \<le> max_lost_frames pol"
  shows "\<exists>tr r'. miss_record pol now broken el r = Inr (tr, r') \<and> absence_ok pol r'
    \<and> coast_frames r' = coast_frames r + 1"
proof -
  obtain tr where tr: "on_miss pol (rec_state r) (coast_frames r + 1) (age_frames r + 1) broken
      (since_measurement_ns r + duration_ns el) = Inr tr"
    using track_transition_total [OF assms(2), of pol "Miss_Event (coast_frames r + 1)
        (age_frames r + 1) broken (since_measurement_ns r + duration_ns el)"]
    by auto
  with assms show ?thesis
    by (cases "rec_state r")
       (auto simp: miss_record_def absence_ok_def on_miss_def track_to_Inr_iff Let_def split: if_splits)
qed

lemma miss_run_terminates:
  assumes "absence_ok pol r" and "rec_state r \<noteq> TERMINATED"
    and "0 \<le> max_coast_frames pol" "0 \<le> max_lost_frames pol"
    and "coast_frames r + int (length els) = max_coast_frames pol + max_lost_frames pol + 1"
  shows "\<exists>k r'. k \<le> length els \<and> miss_run pol now broken (take k els) r = Inr r'
    \<and> rec_state r' = TERMINATED"
  using assms
proof (induction els arbitrary: r)
  case Nil
  then show ?case by (cases "rec_state r") (auto simp: absence_ok_def)
next
  case (Cons el els)
  obtain tr r1 where m: "miss_record pol now broken el r = Inr (tr, r1)" and r1: "absence_ok pol r1"
    "coast_frames r1 = coast_frames r + 1"
    using miss_record_absence [OF Cons.prems(1-4)] by blast
  show ?case
  proof (cases "rec_state r1 = TERMINATED")
    case True
    with m show ?thesis by (intro exI [of _ 1] exI [of _ r1]) (simp add: miss_run_def)
  next
    case False
    with Cons.IH [OF r1(1)] Cons.prems(3-5) r1(2) obtain k r' where
      "k \<le> length els" "miss_run pol now broken (take k els) r1 = Inr r'" "rec_state r' = TERMINATED"
      by fastforce
    with m show ?thesis by (intro exI [of _ "Suc k"] exI [of _ r']) (simp add: miss_run_def)
  qed
qed

text \<open>
  C34: no track is held forever. For any policy the constructor accepts, a live track measured on
  the last frame is terminated within \<^verbatim>\<open>max_coast_frames + max_lost_frames + 1\<close> consecutive
  missed frames, whatever the time between them and whatever the other limits are.
\<close>

theorem unseen_track_terminates:
  assumes "record_ok r" and "coast_frames r = 0"
    and "check_track_policy pol = Inr pol"
    and "int (length els) = max_coast_frames pol + max_lost_frames pol + 1"
  shows "\<exists>k r'. k \<le> length els \<and> miss_run pol now broken (take k els) r = Inr r'
    \<and> rec_state r' = TERMINATED"
proof (rule miss_run_terminates)
  show "absence_ok pol r" "rec_state r \<noteq> TERMINATED"
    using assms(1,2) by (auto simp: absence_ok_def record_ok_def track_is_predicted_def)
qed (use assms in \<open>auto simp: check_track_policy_def split: if_splits\<close>)

section \<open>A full table\<close>

lemma live_table_remove: "live (snd (table_remove i t)) = live t - {i}"
  by (auto simp: live_def table_remove_def dict_simps dict_get_None_iff split: option.splits)

text \<open>
  C35: a full table never turns a detection away. The spawn removes exactly one track, the least
  by the eviction order (tentative before any other state, then longest coasting, then lowest
  association confidence, then oldest id), retires its id, and puts the new track in its
  place. This holds even when every track in the table is confirmed.
\<close>

theorem full_table_evicts_weakest:
  assumes "table_ok t" and "records_ok (rq_timestamp (env_request env)) t"
    and "int (length (tt_records t)) = tt_max_tracks t"
    and "det_box det = Some b" and "is_within_unit b"
  shows "\<exists>r v t'. spawn env det t = Inr (Some r, t')
    \<and> (rec_id v, v) \<in> set (tt_records t)
    \<and> (\<forall>(i, q) \<in> set (tt_records t). eviction_key v \<le> eviction_key q)
    \<and> live t' = insert (rec_id r) (live t - {rec_id v}) \<and> rec_id r \<notin> live t
    \<and> rec_id v \<in> tt_retired t'"
proof -
  have "tt_records t \<noteq> []" using assms(3) table_okD(7) [OF assms(1)] by auto
  then obtain i v where v: "(i, v) \<in> set (tt_records t)"
    and least: "\<forall>(j, q) \<in> set (tt_records t). eviction_key v \<le> eviction_key q"
    and e: "evict_weakest t = (Some v, snd (table_remove i t))"
    using evict_weakest_victim [OF assms(1)] by metis
  let ?t = "snd (table_remove i t)"
  have i: "rec_id v = i" using v table_okD(5) [OF assms(1)] by blast
  have get: "dict_get (tt_records t) i = Some v" using v table_okD(1) [OF assms(1)] by (simp add: in_dict_iff)
  have "evolves (rq_timestamp (env_request env)) t ?t" "int (length (tt_records ?t)) < tt_max_tracks ?t"
    using evict_makes_room [OF assms(1) \<open>tt_records t \<noteq> []\<close> assms(2)] e by auto
  then obtain r t' where c: "spawn_create env det b ?t = Inr (r, t')"
    using table_create_ready [OF evolvesD(1) _ evolvesD(2) assms(5)]
    unfolding spawn_create_def by metis
  note fresh = table_create_fresh [OF c [unfolded spawn_create_def]]
  have "\<not> issued t (rec_id r)" by (simp add: issued_def fresh(1) table_remove_frame)
  then have "rec_id r \<notin> live t" using table_okD(3) [OF assms(1)] by blast
  moreover have "live t' = insert (rec_id r) (live t - {rec_id v})"
    using live_table_remove [of i t] by (auto simp: fresh(2) i live_def fst_image_dict_set)
  moreover have "rec_id v \<in> tt_retired t'"
    using get i by (simp add: fresh(2) table_remove_def)
  moreover have "spawn_create env det b t = Inl (TrackerCapacityError (tt_camera t) (tt_max_tracks t))"
    using assms(3) by (simp add: spawn_create_def table_create_def)
  then have "spawn env det t = Inr (Some r, t')"
    using c e assms(4) by (simp add: spawn_def)
  ultimately show ?thesis using v i least by blast
qed

section \<open>Examples\<close>

definition example_math :: math_lib where
  "example_math = \<lparr>hypot = \<lambda>x y. \<bar>x\<bar> + \<bar>y\<bar>, atan2_degrees = \<lambda>y x. 0\<rparr>"

definition example_config :: tracker_config where
  "example_config =
     \<lparr>use_motion_model = True, two_stage = False, low_confidence_floor = 1 / 10,
      high_confidence_floor = 1 / 2, tc_lifecycle = default_track_policy,
      tc_association = default_association_policy, tc_history_length = 32,
      tc_associator = greedy_assign, tc_math = example_math\<rparr>"

definition example_box :: box where
  "example_box = \<lparr>box_x1 = 1 / 4, box_y1 = 1 / 4, box_x2 = 1 / 2, box_y2 = 1 / 2\<rparr>"

definition example_detection :: detection where
  "example_detection = \<lparr>det_class = ''p'', det_tenant = ''t'', det_site = ''s'',
     det_box = Some example_box, det_score = 9 / 10\<rparr>"

definition example_request :: "int \<Rightarrow> int \<Rightarrow> detection list \<Rightarrow> tracking_request" where
  "example_request seq now ds = \<lparr>rq_camera = ''c'', rq_frame_ref = FrameRef ''c'' 0 seq,
     rq_detections = ds, rq_timestamp = Instant now, rq_elapsed = Duration 0\<rparr>"

definition example_tracker :: tracker where
  "example_tracker = snd (projr (tracker_update example_config (example_request 0 5 [example_detection]) new_tracker))"

lemma example_config_ok: "config_ok example_config"
  by (simp add: config_ok_def example_config_def check_track_policy_def default_track_policy_def)

lemma example_greedy: "example_config\<lparr>tc_associator := greedy_assign\<rparr> = example_config"
  by (simp add: example_config_def)

lemma example_first_request: "request_ok new_tracker (example_request 0 5 [example_detection])"
  by (simp add: request_ok_def new_tracker_def example_request_def example_detection_def
      example_box_def is_within_unit_def)

lemma example_tracker_code [code]:
  "example_tracker =
     \<lparr>tk_tables = [(''c'',
        \<lparr>tt_camera = ''c'', tt_epoch = 0, tt_max_tracks = 256, tt_history_length = 32,
         tt_records = [(TrackId ''c'' 0 0,
           \<lparr>rec_id = TrackId ''c'' 0 0, rec_class = ''p'', rec_box = example_box,
            rec_state = TENTATIVE,
            rec_predictor = LinearPredictor
              \<lparr>lp_smoothing = 6 / 10, lp_growth = 5 / 100, lp_box = None, lp_velocity = (0, 0),
               lp_acceleration = None, lp_observations = 0\<rparr>,
            rec_tenant = ''t'', rec_site = ''s'', first_seen = Instant 5, last_seen = Instant 5,
            last_updated = Instant 5, age_frames = 1, hit_count = 1, coast_frames = 0,
            since_measurement_ns = 0, association_confidence = 0, assoc_method = REINITIALIZED,
            association_cost = 0, runner_up_cost = None, gated_candidates = 0,
            rec_motion = MOTION_UNKNOWN, rec_break = NONE, rec_history = [FrameRef ''c'' 0 0],
            still_frames = 0, moving_frames = 0, direction_changes = 0, last_heading = None\<rparr>)],
         tt_next_local = 1, tt_retired = {}\<rparr>)],
      tk_last_frame = [(''c'', 0, 0)], tk_last_time = [(''c'', Instant 5)],
      tk_epochs = [(''c'', 0)]\<rparr>"
  by code_simp

lemma example_first_update:
  "\<exists>u. tracker_update example_config (example_request 0 5 [example_detection]) new_tracker
     = Inr (u, example_tracker)"
proof -
  have "\<not> isl (tracker_update example_config (example_request 0 5 [example_detection]) new_tracker)"
    by code_simp
  then show ?thesis
    unfolding example_tracker_def by (metis isl_def prod.collapse sum.collapse(2))
qed

lemma example_step: "tracker_step example_config new_tracker example_tracker"
  using example_first_update example_first_request tracker_step.update [of new_tracker _ example_config]
  unfolding example_greedy by blast

lemma example_tracker_ok: "tracker_ok example_tracker"
  using tracker_step_ok [OF example_step example_config_ok] by simp

lemma example_request_ok:
  "request_ok example_tracker (example_request 0 9 [example_detection])"
  "request_ok example_tracker (example_request 1 9 [example_detection])"
proof -
  have "dict_get (tk_last_time example_tracker) ''c'' = Some (Instant 5)" by code_simp
  then show "request_ok example_tracker (example_request 0 9 [example_detection])"
    and "request_ok example_tracker (example_request 1 9 [example_detection])"
    by (simp_all add: request_ok_def example_request_def example_detection_def example_box_def
        is_within_unit_def less_eq_instant_def)
qed


theorem tracker_update_publishes_valid_tracks_witness:
  "\<exists>u. tracker_update example_config (example_request 0 5 [example_detection]) new_tracker
         = Inr (u, example_tracker)
     \<and> distinct (map tr_id (tu_active u)) \<and> tracker_ok example_tracker"
  using tracker_update_publishes_valid_tracks
    [OF new_tracker_ok example_config_ok example_first_request] example_first_update
  unfolding example_greedy by blast

lemma example_runs:
  "(tracker_step example_config)\<^sup>*\<^sup>* new_tracker example_tracker"
  "(tracker_step example_config)\<^sup>*\<^sup>* tk (snd (tracker_reset c tk))"
  using example_step tracker_step.reset [of example_config tk c] by auto

theorem track_ids_never_reused_witness:
  "live_track example_tracker (TrackId ''c'' 0 0)
   \<and> \<not> live_track (snd (tracker_reset ''c'' (snd (tracker_reset ''c'' example_tracker)))) (TrackId ''c'' 0 0)"
proof -
  have "live_track example_tracker (TrackId ''c'' 0 0)"
    and "\<not> live_track (snd (tracker_reset ''c'' example_tracker)) (TrackId ''c'' 0 0)"
    by code_simp+
  then show ?thesis
    using track_ids_never_reused [OF example_config_ok example_runs(1) _ example_runs(2) _ example_runs(2)]
    by blast
qed

definition example_record :: track_rec where
  "example_record =
     (hd (table_records (the (dict_get (tk_tables example_tracker) ''c''))))\<lparr>rec_state := CONFIRMED\<rparr>"

lemma example_record_facts:
  "rec_state example_record = CONFIRMED" "coast_frames example_record = 0" "record_ok example_record"
  by code_simp+


theorem unseen_track_terminates_witness:
  "\<exists>k r'. k \<le> 21 \<and> miss_run default_track_policy (Instant 6) EXIT (take k (replicate 21 (Duration 1)))
       example_record = Inr r' \<and> rec_state r' = TERMINATED"
proof -
  have "check_track_policy default_track_policy = Inr default_track_policy"
    "int (length (replicate 21 (Duration 1)))
       = max_coast_frames default_track_policy + max_lost_frames default_track_policy + 1"
    by (simp_all add: check_track_policy_def default_track_policy_def)
  from unseen_track_terminates [OF example_record_facts(3,2) this]
  show ?thesis by simp
qed

definition example_env :: frame_env where
  "example_env = env_for example_config (example_request 1 9 [example_detection]) (Duration 4) [] []
     \<lparr>rs_matches = [], rs_costs = [], rs_runner_up = []\<rparr> [0]"

definition example_full_table :: "motion_predictor track_table" where
  "example_full_table =
     table_write example_record
       (snd (projr (spawn example_env example_detection (projr (new_table ''c'' 0 1 8)))))"

theorem full_table_evicts_weakest_witness:
  "\<exists>r v t'. spawn example_env example_detection example_full_table = Inr (Some r, t')
     \<and> (rec_id v, v) \<in> set (tt_records example_full_table)
     \<and> rec_state v = CONFIRMED \<and> rec_id v \<in> tt_retired t'"
proof -
  have "table_ok example_full_table"
    "records_ok (rq_timestamp (env_request example_env)) example_full_table"
    "int (length (tt_records example_full_table)) = tt_max_tracks example_full_table"
    "det_box example_detection = Some example_box" "is_within_unit example_box"
    by code_simp+
  from full_table_evicts_weakest [OF this] obtain r v t' where
    "spawn example_env example_detection example_full_table = Inr (Some r, t')"
    "(rec_id v, v) \<in> set (tt_records example_full_table)" "rec_id v \<in> tt_retired t'"
    by blast
  moreover have "\<forall>(i, q) \<in> set (tt_records example_full_table). rec_state q = CONFIRMED" by code_simp
  ultimately show ?thesis by auto
qed

end
