(* ===== verification/Tracking_Engine.thy ===== *)
theory Tracking_Engine
  imports Tracker_Safety
begin

text \<open>
  The tracking engine and the binding it goes through
  (\<^verbatim>\<open>vision_os/perception/tracking/engine.py\<close> and \<^verbatim>\<open>manager.py\<close>): the engine builds the
  request from the clock, runs the bound tracker, verifies its answer against the port
  obligations, publishes, and on any failure other than a misordered frame replaces the tracker
  by a fresh fallback. The clock reading is an argument, events are the list they are published
  in, metrics other than the engine's own counters and latencies are left out.
\<close>

section \<open>State\<close>

record tracker_binding =
  bd_config :: tracker_config
  bd_tracker :: tracker
  bd_is_fallback :: bool

record tracking_engine =
  en_binding :: "tracker_binding option"
  en_fallback_config :: tracker_config
  en_last_time :: "(camera_id, instant) dict"
  en_frames :: int
  en_failures :: int
  en_out_of_order :: int
  en_fallbacks :: int
  en_degraded_reason :: "py_error option"

record tracking_outcome =
  oc_camera :: camera_id
  oc_frame_ref :: frame_ref
  oc_epoch :: int
  oc_tracks :: "track list"
  oc_created :: nat
  oc_terminated :: nat
  oc_recovered :: nat
  oc_coasting :: nat
  oc_failed :: bool
  oc_reason :: "py_error option"

datatype track_message =
    TrackCreated track_id class_id
  | TrackRecovered track_id int
  | TrackLost track_id int break_reason
  | TrackTerminated track_id break_reason
  | TrackUpdated track_id track_state measurement_basis
  | AssociationFailure track_id rat rat
  | TrackingWarning camera_id py_error

section \<open>The manager\<close>

definition fall_back :: "tracking_engine \<Rightarrow> tracking_engine" where
  "fall_back en =
     (case en_binding en of
        Some b \<Rightarrow> if bd_is_fallback b then en
                  else en\<lparr>en_binding := Some \<lparr>bd_config = en_fallback_config en,
                           bd_tracker = new_tracker, bd_is_fallback = True\<rparr>,
                         en_fallbacks := en_fallbacks en + 1\<rparr>
      | None \<Rightarrow> en\<lparr>en_binding := Some \<lparr>bd_config = en_fallback_config en,
                           bd_tracker = new_tracker, bd_is_fallback = True\<rparr>,
                         en_fallbacks := en_fallbacks en + 1\<rparr>)"

definition bound_tracker :: "tracking_engine \<Rightarrow> tracker_binding result" where
  "bound_tracker en = (case en_binding en of None \<Rightarrow> Inl PortIncompatibleError | Some b \<Rightarrow> Inr b)"

definition engine_tracks :: "tracking_engine \<Rightarrow> camera_id \<Rightarrow> track list" where
  "engine_tracks en c =
     (case bind_result (bound_tracker en) (\<lambda>b. tracker_tracks (bd_config b) c (bd_tracker b)) of
        Inl _ \<Rightarrow> [] | Inr ts \<Rightarrow> ts)"

definition engine_epoch_of :: "tracking_engine \<Rightarrow> camera_id \<Rightarrow> int" where
  "engine_epoch_of en c = (case engine_tracks en c of [] \<Rightarrow> 0 | t # _ \<Rightarrow> tid_epoch (tr_id t))"

section \<open>Verification of the tracker's answer\<close>

fun verify_active :: "camera_id \<Rightarrow> track_id set \<Rightarrow> track list \<Rightarrow> unit result" where
  "verify_active c seen [] = Inr ()"
| "verify_active c seen (t # ts) =
     (if tr_id t \<in> seen then Inl TrackerContractError
      else if tr_camera t \<noteq> c then Inl TrackerContractError
      else if tr_state t = TERMINATED then Inl TrackerContractError
      else if track_is_predicted (tr_state t) \<and> tr_basis t = MEASURED then Inl TrackerContractError
      else verify_active c (insert (tr_id t) seen) ts)"

definition verify_update :: "track_update \<Rightarrow> tracking_request \<Rightarrow> unit result" where
  "verify_update u rq =
     (if tu_camera u \<noteq> rq_camera rq then Inl TrackerContractError
      else bind_result (verify_active (rq_camera rq) {} (tu_active u)) (\<lambda>_.
        if \<exists>(i, b) \<in> set (tu_terminated u). b = NONE then Inl TrackerContractError else Inr ()))"

section \<open>Publication\<close>

definition track_by_id :: "track_update \<Rightarrow> track_id \<Rightarrow> track option" where
  "track_by_id u i = dict_get (fold (\<lambda>t d. dict_set (tr_id t) t d) (tu_active u) []) i"

definition publish_update :: "track_update \<Rightarrow> track_message list" where
  "publish_update u =
     map (\<lambda>i. TrackCreated i (case track_by_id u i of None \<Rightarrow> [] | Some t \<Rightarrow> tr_class t)) (tu_new u)
     @ map (\<lambda>i. TrackRecovered i (case track_by_id u i of None \<Rightarrow> 0 | Some t \<Rightarrow> tr_coast_frames t))
         (tu_recovered u)
     @ concat (map (\<lambda>i. case track_by_id u i of
                          Some t \<Rightarrow> if tr_state t = LOST
                                    then [TrackLost i (tr_coast_frames t) (tr_break t)] else []
                        | None \<Rightarrow> []) (tu_coasting u))
     @ map (\<lambda>(i, b). TrackTerminated i b) (tu_terminated u)
     @ concat (map (\<lambda>(i, _). case track_by_id u i of
                               None \<Rightarrow> []
                             | Some t \<Rightarrow> [TrackUpdated i (tr_state t) (tr_basis t)]) (tu_associations u))
     @ map (\<lambda>(i, best, ru). AssociationFailure i best ru) (tu_refused u)"

section \<open>The engine\<close>

definition engine_elapsed :: "tracking_engine \<Rightarrow> camera_id \<Rightarrow> instant \<Rightarrow> duration" where
  "engine_elapsed en c now =
     (case dict_get (en_last_time en) c of
        None \<Rightarrow> Duration 0
      | Some previous \<Rightarrow> Duration (max 0 (instant_ns now - instant_ns previous)))"

definition engine_request ::
  "tracking_engine \<Rightarrow> frame_ref \<Rightarrow> detection list \<Rightarrow> instant \<Rightarrow> tracking_request" where
  "engine_request en ref ds now =
     \<lparr>rq_camera = fr_camera ref, rq_frame_ref = ref, rq_detections = ds, rq_timestamp = now,
      rq_elapsed = engine_elapsed en (fr_camera ref) now\<rparr>"

definition engine_failure :: "tracking_engine \<Rightarrow> frame_ref \<Rightarrow> py_error \<Rightarrow> tracking_outcome \<times> tracking_engine" where
  "engine_failure en ref e =
     (\<lparr>oc_camera = fr_camera ref, oc_frame_ref = ref, oc_epoch = engine_epoch_of en (fr_camera ref),
       oc_tracks = [], oc_created = 0, oc_terminated = 0, oc_recovered = 0, oc_coasting = 0,
       oc_failed = True, oc_reason = Some e\<rparr>,
      en\<lparr>en_failures := en_failures en + 1\<rparr>)"

definition degrade ::
  "tracking_engine \<Rightarrow> frame_ref \<Rightarrow> py_error \<Rightarrow>
   tracking_outcome \<times> track_message list \<times> tracking_engine" where
  "degrade en ref e =
     (let en = fall_back (en\<lparr>en_degraded_reason := Some e\<rparr>);
          (outcome, en) = engine_failure en ref e
      in (outcome, [TrackingWarning (fr_camera ref) e], en))"

text \<open>
  \<^verbatim>\<open>_run\<close>: the result with the engine the exception handlers of \<^verbatim>\<open>track\<close> see. A tracker whose
  answer fails verification has already advanced its own state.
\<close>

definition engine_run ::
  "tracking_engine \<Rightarrow> frame_ref \<Rightarrow> detection list \<Rightarrow> instant \<Rightarrow> track_update result \<times> tracking_engine" where
  "engine_run en ref ds now =
     (let rq = engine_request en ref ds now
      in case bound_tracker en of
           Inl e \<Rightarrow> (Inl e, en)
         | Inr b \<Rightarrow>
             (case tracker_update (bd_config b) rq (bd_tracker b) of
                Inl e \<Rightarrow> (Inl e, en)
              | Inr (u, tk) \<Rightarrow>
                  let en = en\<lparr>en_binding := Some (b\<lparr>bd_tracker := tk\<rparr>)\<rparr>
                  in case verify_update u rq of
                       Inl e \<Rightarrow> (Inl e, en)
                     | Inr _ \<Rightarrow> (Inr u, en\<lparr>en_last_time := dict_set (fr_camera ref) now (en_last_time en)\<rparr>)))"

definition engine_track ::
  "tracking_engine \<Rightarrow> frame_ref \<Rightarrow> detection list \<Rightarrow> instant \<Rightarrow>
   tracking_outcome \<times> track_message list \<times> tracking_engine" where
  "engine_track en ref ds now =
     (case engine_run en ref ds now of
        (Inl (OutOfOrderFrameError c), en) \<Rightarrow>
          (let (outcome, en) = engine_failure (en\<lparr>en_out_of_order := en_out_of_order en + 1\<rparr>) ref
                                 (OutOfOrderFrameError c)
           in (outcome, [TrackingWarning (fr_camera ref) (OutOfOrderFrameError c)], en))
      | (Inl (TrackerCapacityError c n), en) \<Rightarrow>
          (let (outcome, en) = engine_failure en ref (TrackerCapacityError c n) in (outcome, [], en))
      | (Inl e, en) \<Rightarrow> degrade en ref e
      | (Inr u, en) \<Rightarrow>
          (\<lparr>oc_camera = fr_camera ref, oc_frame_ref = ref, oc_epoch = tu_epoch u,
            oc_tracks = tu_active u, oc_created = length (tu_new u),
            oc_terminated = length (tu_terminated u), oc_recovered = length (tu_recovered u),
            oc_coasting = length (tu_coasting u), oc_failed = False, oc_reason = None\<rparr>,
           publish_update u, en\<lparr>en_frames := en_frames en + 1\<rparr>))"

definition engine_reset :: "tracking_engine \<Rightarrow> camera_id \<Rightarrow> (int \<times> tracking_engine) result" where
  "engine_reset en c =
     bind_result (bound_tracker en) (\<lambda>b.
       let (epoch, tk) = tracker_reset c (bd_tracker b)
       in Inr (epoch, en\<lparr>en_binding := Some (b\<lparr>bd_tracker := tk\<rparr>),
                         en_last_time := dict_del c (en_last_time en)\<rparr>))"

section \<open>What passes verification\<close>

lemma verify_active_ok:
  "verify_active c seen ts = Inr () \<longleftrightarrow>
     distinct (map tr_id ts) \<and> seen \<inter> tr_id ` set ts = {}
     \<and> (\<forall>t \<in> set ts. tr_camera t = c \<and> tr_state t \<noteq> TERMINATED
          \<and> \<not> (track_is_predicted (tr_state t) \<and> tr_basis t = MEASURED))"
  by (induction ts arbitrary: seen) auto

lemma verify_active_error: "verify_active c seen ts = Inl e \<Longrightarrow> e = TrackerContractError"
  by (induction ts arbitrary: seen) (auto split: if_splits)

text \<open>
  What the engine lets through meets the obligations of the tracker port. If verification
  accepts an update, the active ids are pairwise distinct, every active track belongs to the
  requested camera and is alive, no coasting or lost track claims a measured position, and every
  terminated track names a reason. Anything else is reported as a contract error.
\<close>

theorem verify_update_iff:
  "verify_update u rq =
     (if tu_camera u = rq_camera rq \<and> distinct (map tr_id (tu_active u))
         \<and> (\<forall>t \<in> set (tu_active u). tr_camera t = rq_camera rq \<and> tr_state t \<noteq> TERMINATED
              \<and> \<not> (track_is_predicted (tr_state t) \<and> tr_basis t = MEASURED))
         \<and> (\<forall>(i, b) \<in> set (tu_terminated u). b \<noteq> NONE)
      then Inr () else Inl TrackerContractError)"
proof (cases "verify_active (rq_camera rq) {} (tu_active u)")
  case (Inl e)
  then have "e = TrackerContractError" by (rule verify_active_error)
  moreover have "\<not> verify_active (rq_camera rq) {} (tu_active u) = Inr ()" using Inl by simp
  ultimately show ?thesis
    using Inl unfolding verify_active_ok verify_update_def by auto
next
  case (Inr x)
  then have "verify_active (rq_camera rq) {} (tu_active u) = Inr ()" by simp
  with this [unfolded verify_active_ok] show ?thesis
    unfolding verify_update_def by auto
qed

section \<open>When the engine abandons its tracker\<close>

lemma hit_record_terminal:
  assumes "hit_record ml pol um hist rq el res ti di det r = Inr (tr, r')"
  shows "rec_id r' = rec_id r \<and> (transition_is_terminal tr \<longleftrightarrow> age_frames r + 1 \<ge> max_age_frames pol)
    \<and> transition_break tr = NONE"
  using assms
  by (auto simp: hit_record_def on_hit_def track_to_Inr_iff transition_is_terminal_def Let_def
      result_simps split: option.splits if_splits)

lemma miss_record_terminal:
  assumes "miss_record pol now broken el r = Inr (tr, r')" and "broken \<noteq> NONE"
  shows "rec_id r' = rec_id r \<and> (transition_is_terminal tr \<longrightarrow> transition_break tr \<noteq> NONE)"
  using assms
  by (auto simp: miss_record_def on_miss_def track_to_Inr_iff transition_is_terminal_def Let_def
      result_simps split: if_splits)

definition aged_out_hit :: "frame_env \<Rightarrow> nat \<Rightarrow> track_rec \<Rightarrow> bool" where
  "aged_out_hit env ti r \<longleftrightarrow> dict_get (env_matched env) ti \<noteq> None
     \<and> age_frames r + 1 \<ge> max_age_frames (env_policy env)"

lemma ap_terminated_settle:
  "set (ap_terminated (settle_record tr r st)) =
     set (ap_terminated st) \<union> (if transition_is_terminal tr then {(rec_id r, transition_break tr)} else {})"
  by (simp add: settle_record_def Let_def)

lemma apply_record_terminated:
  assumes "apply_record env ti r st = Inr st'"
  shows "(j, NONE) \<in> set (ap_terminated st') \<longleftrightarrow>
    (j, NONE) \<in> set (ap_terminated st) \<or> j = rec_id r \<and> aged_out_hit env ti r"
proof (cases "dict_get (env_matched env) ti")
  case None
  then obtain tr r' where "miss_record (env_policy env) (rq_timestamp (env_request env))
              (if rec_id r \<in> set (env_refused env) then ASSOCIATION_FAILURE
               else miss_reason r (rq_detections (env_request env))) (env_elapsed env) r = Inr (tr, r')"
    (is "miss_record _ _ ?b _ _ = _") and st': "st' = settle_record tr r' st"
    using assms by (auto simp: apply_record_def result_simps)
  moreover have "?b \<noteq> NONE" by (simp add: miss_reason_def Let_def)
  ultimately have "transition_is_terminal tr \<longrightarrow> transition_break tr \<noteq> NONE"
    using miss_record_terminal by blast
  then show ?thesis
    using None by (auto simp: st' ap_terminated_settle aged_out_hit_def split: if_splits)
next
  case (Some di)
  then obtain tr r' where h: "hit_record (env_math env) (env_policy env) (env_use_motion env)
        (env_history env) (env_request env) (env_elapsed env) (env_resolved env) ti di
        (rq_detections (env_request env) ! di) r = Inr (tr, r')"
    and "set (ap_terminated st') = set (ap_terminated st)
      \<union> (if transition_is_terminal tr then {(rec_id r', transition_break tr)} else {})"
    using assms
    by (auto simp: apply_record_def result_simps Let_def ap_terminated_settle split: if_splits)
  with hit_record_terminal [OF h] Some show ?thesis
    by (auto simp: aged_out_hit_def split: if_splits)
qed

lemma apply_records_terminated:
  assumes "apply_records env i rs st = Inr st'"
  shows "(j, NONE) \<in> set (ap_terminated st') \<longleftrightarrow>
    (j, NONE) \<in> set (ap_terminated st)
    \<or> (\<exists>k < length rs. j = rec_id (rs ! k) \<and> aged_out_hit env (i + k) (rs ! k))"
  using assms
proof (induction rs arbitrary: i st)
  case (Cons r rs)
  then obtain st1 where "apply_record env i r st = Inr st1" and "apply_records env (Suc i) rs st1 = Inr st'"
    by (auto simp: result_simps)
  with Cons.IH [of "Suc i" st1] show ?case
    by (simp add: apply_record_terminated Ex_less_Suc2)
qed simp

lemma spawn_all_terminated: "spawn_all env ds st = Inr st' \<Longrightarrow> ap_terminated st' = ap_terminated st"
proof (induction ds arbitrary: st)
  case (Cons d ds)
  then show ?case
    by (fastforce simp: result_simps split: if_splits option.splits prod.splits)
qed simp

lemma apply_update_terminated:
  assumes "apply_update env refused t = Inr (u, t')"
  shows "(\<exists>j. (j, NONE) \<in> set (tu_terminated u)) \<longleftrightarrow>
    (\<exists>k < length (table_records t). aged_out_hit env k (table_records t ! k))"
proof -
  obtain st0 st where "apply_records env 0 (table_records t)
      \<lparr>ap_table = t, ap_new = [], ap_terminated = [], ap_coasting = [], ap_recovered = [],
       ap_associations = []\<rparr> = Inr st0" and "spawn_all env (env_high env) st0 = Inr st"
    and "tu_terminated u = ap_terminated st"
    using assms by (auto simp: apply_update_def apply_frame_def result_simps)
  then show ?thesis
    using apply_records_terminated [of env 0 "table_records t"] spawn_all_terminated by fastforce
qed

definition engine_ready ::
  "tracking_engine \<Rightarrow> tracker_binding \<Rightarrow> frame_ref \<Rightarrow> detection list \<Rightarrow> instant \<Rightarrow> bool" where
  "engine_ready en b ref ds now \<longleftrightarrow> en_binding en = Some b
     \<and> tc_associator (bd_config b) = greedy_assign \<and> config_ok (bd_config b)
     \<and> tracker_ok (bd_tracker b) \<and> request_ok (bd_tracker b) (engine_request en ref ds now)
     \<and> \<not> out_of_order (bd_tracker b) (engine_request en ref ds now)"

lemma engine_ready_update:
  assumes "engine_ready en b ref ds now"
  obtains u tk where "tracker_update (bd_config b) (engine_request en ref ds now) (bd_tracker b) = Inr (u, tk)"
    and "verify_update u (engine_request en ref ds now) =
      (if \<exists>j. (j, NONE) \<in> set (tu_terminated u) then Inl TrackerContractError else Inr ())"
proof -
  let ?rq = "engine_request en ref ds now"
  have g: "(bd_config b)\<lparr>tc_associator := greedy_assign\<rparr> = bd_config b"
    using assms by (simp add: engine_ready_def)
  have ready: "tracker_ok (bd_tracker b)" "config_ok (bd_config b)" "request_ok (bd_tracker b) ?rq"
    using assms by (simp_all add: engine_ready_def)
  obtain u tk where u: "tracker_update (bd_config b) ?rq (bd_tracker b) = Inr (u, tk)"
    using greedy_tracker.update_ok [OF ready(1) _ ready(3), of "bd_config b"] ready(2) assms
    unfolding g by (auto simp: engine_ready_def)
  have "tu_camera u = rq_camera ?rq"
    using greedy_update_ok [OF ready, of u tk] u unfolding g by metis
  with greedy_update_publishes [OF ready, of u tk] u
  have "verify_update u ?rq = (if \<exists>j. (j, NONE) \<in> set (tu_terminated u) then Inl TrackerContractError else Inr ())"
    unfolding g verify_update_def
    by (auto simp: verify_active_ok [THEN iffD2])
  with u show thesis by (rule that)
qed


section \<open>Examples\<close>

definition short_lived_config :: tracker_config where
  "short_lived_config = example_config\<lparr>tc_lifecycle := default_track_policy\<lparr>max_age_frames := 2\<rparr>\<rparr>"

definition example_update :: "break_reason \<Rightarrow> track_update" where
  "example_update b =
     \<lparr>tu_camera = ''c'', tu_frame_ref = FrameRef ''c'' 0 1, tu_epoch = 0, tu_active = [], tu_new = [],
      tu_terminated = [(TrackId ''c'' 0 0, b)], tu_coasting = [], tu_recovered = [],
      tu_associations = [], tu_refused = [], tu_unmatched = []\<rparr>"

theorem verify_update_iff_witness:
  "verify_update (example_update NONE) (example_request 1 9 []) = Inl TrackerContractError
   \<and> verify_update (example_update EXIT) (example_request 1 9 []) = Inr ()"
  by (simp add: verify_update_iff example_update_def example_request_def)

definition example_binding :: tracker_binding where
  "example_binding = \<lparr>bd_config = short_lived_config, bd_tracker = example_tracker, bd_is_fallback = False\<rparr>"

definition example_engine :: tracking_engine where
  "example_engine =
     \<lparr>en_binding = Some example_binding, en_fallback_config = example_config, en_last_time = [],
      en_frames = 1, en_failures = 0, en_out_of_order = 0, en_fallbacks = 0, en_degraded_reason = None\<rparr>"

abbreviation example_next :: tracking_request where
  "example_next \<equiv> engine_request example_engine (FrameRef ''c'' 0 1) [example_detection] (Instant 9)"

lemma example_engine_ready:
  "engine_ready example_engine example_binding (FrameRef ''c'' 0 1) [example_detection] (Instant 9)"
proof -
  have time: "dict_get (tk_last_time example_tracker) ''c'' = Some (Instant 5)"
    and "\<not> out_of_order example_tracker example_next" and "config_ok short_lived_config"
    by code_simp+
  moreover have "request_ok example_tracker example_next"
    using time by (simp add: request_ok_def engine_request_def example_detection_def example_box_def
        is_within_unit_def less_eq_instant_def)
  moreover have "tc_associator short_lived_config = greedy_assign"
    by (simp add: short_lived_config_def example_config_def)
  ultimately show ?thesis
    using example_tracker_ok by (simp add: engine_ready_def example_engine_def example_binding_def)
qed


text \<open>
  Replacing a tracker loses identities. Whatever the tracker epoch of a camera was, the
  tracker the engine falls back to starts it at epoch 0 and local id 0, without the epoch
  advance a reset makes, so the first track it creates for a camera carries an id the
  abandoned tracker may have published for another object.
\<close>

theorem fallback_restarts_track_ids:
  assumes "en_binding en = Some b" and "\<not> bd_is_fallback b"
    and "table_for pol hist c (bd_tracker (the (en_binding (fall_back en)))) = Inr (t, tk)"
    and "table_create cls bx p now ref tn st t = Inr (r, t')"
  shows "rec_id r = TrackId c 0 0"
proof -
  have "table_for pol hist c new_tracker = Inr (t, tk)"
    using assms(1-3) by (simp add: fall_back_def)
  then have "tt_camera t = c" "tt_epoch t = 0" "tt_next_local t = 0"
    by (auto simp: table_for_def new_tracker_def new_table_def epoch_of_def setdefault_def dict_simps
        result_simps split: if_splits)
  with table_create_fresh(1) [OF assms(4)] show ?thesis by simp
qed

theorem fallback_restarts_track_ids_witness:
  "live_track (bd_tracker example_binding) (TrackId ''c'' 0 0)
   \<and> (\<exists>t tk r t'. table_for default_track_policy 32 ''c'' (bd_tracker (the (en_binding (fall_back example_engine))))
          = Inr (t, tk)
        \<and> table_create ''p'' example_box new_stationary (Instant 9) (FrameRef ''c'' 0 2) ''t'' ''s'' t = Inr (r, t')
        \<and> rec_id r = TrackId ''c'' 0 0)"
proof -
  have live: "live_track (bd_tracker example_binding) (TrackId ''c'' 0 0)" by code_simp
  define x where "x = table_for default_track_policy 32 ''c'' (bd_tracker (the (en_binding (fall_back example_engine))))"
  define y where "y = table_create ''p'' example_box new_stationary (Instant 9) (FrameRef ''c'' 0 2) ''t'' ''s''
    (fst (projr x))"
  have "\<not> isl x" "\<not> isl y" unfolding y_def x_def by code_simp+
  then obtain t tk r t' where x: "x = Inr (t, tk)" and y: "y = Inr (r, t')"
    by (cases x; cases y) auto
  moreover have "rec_id r = TrackId ''c'' 0 0"
    by (rule fallback_restarts_track_ids [of example_engine example_binding])
       (use x y in \<open>auto simp: x_def y_def example_engine_def example_binding_def\<close>)
  ultimately show ?thesis using live by (auto simp: x_def y_def)
qed

text \<open>
  A clock that steps back costs the tracker. The timestamps come from the wall clock; a
  record last seen after the present reading and missed on this frame is stamped with the
  earlier time, and publishing it raises.
\<close>

theorem clock_step_back_makes_track_unpublishable:
  assumes "miss_record pol now broken el r = Inr (tr, r')" and "now < last_seen r"
  shows "project ml r' = Inl ValueError"
proof -
  have "last_updated r' = now" "last_seen r' = last_seen r"
    using assms(1) by (auto simp: miss_record_def result_simps)
  with assms(2) have bad: "instant_ns (last_seen r') > instant_ns (last_updated r')"
    by (simp add: less_instant_def)
  then show ?thesis
    by (auto simp: project_def check_motion_estimate_def check_track_def Let_def split: option.split)
qed

theorem clock_step_back_makes_track_unpublishable_witness:
  "project example_math (snd (projr (miss_record default_track_policy (Instant 3) OCCLUSION (Duration 0)
      example_record))) = Inl ValueError"
proof -
  have "\<not> isl (miss_record default_track_policy (Instant 3) OCCLUSION (Duration 0) example_record)"
    and "Instant 3 < last_seen example_record"
    by code_simp+
  then show ?thesis
    by (cases "miss_record default_track_policy (Instant 3) OCCLUSION (Duration 0) example_record")
       (auto dest: clock_step_back_makes_track_unpublishable)
qed

end
