(* ===== verification/Confidence.thy ===== *)
theory Confidence
  imports Prelude
begin

text \<open>
  Confidences (\<^verbatim>\<open>vision_os/core/model/confidence.py\<close>) and provenance
  (\<^verbatim>\<open>vision_os/core/model/provenance.py\<close>) with the checks of their constructors and the rule
  for when two confidences may be compared.
\<close>

section \<open>Confidence and provenance\<close>

datatype confidence_semantics =
    DETECTION_PRESENCE | CLASSIFICATION | ASSOCIATION | IDENTITY_CONFIDENCE | ATTRIBUTE_CONFIDENCE
  | SELF_REPORTED

definition is_comparable_across_models :: "confidence_semantics \<Rightarrow> bool" where
  "is_comparable_across_models s \<longleftrightarrow> s \<noteq> SELF_REPORTED"

record confidence =
  cf_value :: rat
  cf_semantics :: confidence_semantics
  cf_calibrated :: bool
  cf_calibration_id :: "string option"
  cf_raw_score :: "rat option"

definition mk_confidence :: "confidence \<Rightarrow> confidence result" where
  "mk_confidence c =
     (if \<not> (0 \<le> cf_value c \<and> cf_value c \<le> 1) then Inl ValueError
      else if cf_calibrated c \<and> cf_calibration_id c = None then Inl ValueError
      else if (case cf_raw_score c of None \<Rightarrow> False | Some r \<Rightarrow> \<not> (0 \<le> r \<and> r \<le> 1)) then Inl ValueError
      else Inr c)"

definition uncalibrated :: "rat \<Rightarrow> confidence_semantics \<Rightarrow> confidence result" where
  "uncalibrated raw s =
     mk_confidence \<lparr>cf_value = raw, cf_semantics = s, cf_calibrated = False, cf_calibration_id = None,
       cf_raw_score = Some raw\<rparr>"

definition comparable_with :: "confidence \<Rightarrow> confidence \<Rightarrow> bool" where
  "comparable_with a b \<longleftrightarrow>
     cf_semantics a = cf_semantics b \<and> is_comparable_across_models (cf_semantics a)
     \<and> cf_calibrated a \<and> cf_calibrated b \<and> cf_calibration_id a = cf_calibration_id b"

lemma comparable_with_sym: "comparable_with a b \<Longrightarrow> comparable_with b a"
  by (auto simp: comparable_with_def)

lemma comparable_with_trans: "comparable_with a b \<Longrightarrow> comparable_with b c \<Longrightarrow> comparable_with a c"
  by (auto simp: comparable_with_def)

record provenance =
  pv_producer_module :: string
  pv_producer_version :: string
  pv_config_revision :: string
  pv_model_id :: "model_id option"
  pv_model_artifact_hash :: "string option"

definition mk_provenance :: "provenance \<Rightarrow> provenance result" where
  "mk_provenance p =
     (if pv_producer_module p = [] then Inl ValueError
      else if pv_config_revision p = [] then Inl ValueError
      else if pv_model_id p \<noteq> None \<and> pv_model_artifact_hash p = None then Inl ValueError
      else Inr p)"

end
