(* ===== verification/Object_Lifecycle.thy ===== *)
theory Object_Lifecycle
  imports Closed_Machine Timebase
begin

text \<open>
  The lifecycle of a visual object: the states of \<^verbatim>\<open>vision_os/core/model/visual_object.py\<close> and
  the machine of \<^verbatim>\<open>vision_os/perception/registry/lifecycle.py\<close>.
\<close>

section \<open>States and the table\<close>

datatype lifecycle_state =
  PROVISIONAL | ACTIVE | OCCLUDED | DORMANT | DEPARTED | MERGED_INTO | EXPIRED

definition object_is_terminal :: "lifecycle_state \<Rightarrow> bool" where
  "object_is_terminal s \<longleftrightarrow> s \<in> {MERGED_INTO, EXPIRED}"

definition object_is_present :: "lifecycle_state \<Rightarrow> bool" where
  "object_is_present s \<longleftrightarrow> s \<in> {PROVISIONAL, ACTIVE, OCCLUDED}"

definition object_is_measurable :: "lifecycle_state \<Rightarrow> bool" where
  "object_is_measurable s \<longleftrightarrow> s \<in> {PROVISIONAL, ACTIVE}"

fun object_state_value :: "lifecycle_state \<Rightarrow> string" where
  "object_state_value PROVISIONAL = ''provisional''"
| "object_state_value ACTIVE = ''active''"
| "object_state_value OCCLUDED = ''occluded''"
| "object_state_value DORMANT = ''dormant''"
| "object_state_value DEPARTED = ''departed''"
| "object_state_value MERGED_INTO = ''merged_into''"
| "object_state_value EXPIRED = ''expired''"

datatype lifecycle_trigger =
    FIRST_DETECTIONS | CONFIRMATION_MET | NEVER_CONFIRMED | MEASUREMENT_LOST | REASSOCIATED
  | OCCLUSION_HORIZON | LEFT_FIELD_OF_VIEW | RE_ENTRY_MATCHED | DEPARTURE_HORIZON
  | IDENTITY_RESOLUTION | RETENTION_HORIZON | POPULATION_SHED

definition object_allowed :: "(lifecycle_state \<times> lifecycle_state) list" where
  "object_allowed =
     [(PROVISIONAL, PROVISIONAL), (PROVISIONAL, ACTIVE), (PROVISIONAL, EXPIRED),
      (ACTIVE, ACTIVE), (ACTIVE, OCCLUDED), (ACTIVE, DORMANT), (ACTIVE, MERGED_INTO),
      (OCCLUDED, OCCLUDED), (OCCLUDED, ACTIVE), (OCCLUDED, DORMANT),
      (DORMANT, DORMANT), (DORMANT, ACTIVE), (DORMANT, DEPARTED), (DORMANT, MERGED_INTO),
      (DEPARTED, DEPARTED), (DEPARTED, EXPIRED)]"

definition object_is_legal :: "lifecycle_state \<Rightarrow> lifecycle_state \<Rightarrow> bool" where
  "object_is_legal previous current \<longleftrightarrow> (previous, current) \<in> set object_allowed"

definition check_object_transition :: "lifecycle_state \<Rightarrow> lifecycle_state \<Rightarrow> unit result" where
  "check_object_transition previous current =
     (if \<not> object_is_legal previous current
      then Inl (IllegalTransitionError (object_state_value previous) (object_state_value current))
      else Inr ())"

section \<open>The policy\<close>

record object_policy =
  min_observations_to_confirm :: int
  provisional_horizon :: duration
  occlusion_horizon :: duration
  dormant_horizon :: duration
  retention_horizon :: duration
  max_objects_per_camera :: int

definition default_object_policy :: object_policy where
  "default_object_policy =
     \<lparr>min_observations_to_confirm = 3, provisional_horizon = duration_from_millis 3000,
      occlusion_horizon = duration_from_millis 10000, dormant_horizon = duration_from_millis 120000,
      retention_horizon = duration_from_millis 600000, max_objects_per_camera = 512\<rparr>"

definition check_object_policy :: "object_policy \<Rightarrow> object_policy result" where
  "check_object_policy p =
     (if min_observations_to_confirm p < 1 then Inl ValueError
      else if duration_ns (provisional_horizon p) \<le> 0 \<or> duration_ns (occlusion_horizon p) \<le> 0
           \<or> duration_ns (dormant_horizon p) \<le> 0 \<or> duration_ns (retention_horizon p) \<le> 0
      then Inl ValueError
      else if max_objects_per_camera p < 1 then Inl ValueError
      else Inr p)"

section \<open>The machine\<close>

record lifecycle_transition =
  lt_previous :: lifecycle_state
  lt_current :: lifecycle_state
  lt_trigger :: lifecycle_trigger

definition lt_changed :: "lifecycle_transition \<Rightarrow> bool" where
  "lt_changed t \<longleftrightarrow> lt_previous t \<noteq> lt_current t"

definition object_to ::
  "lifecycle_state \<Rightarrow> lifecycle_state \<Rightarrow> lifecycle_trigger \<Rightarrow> lifecycle_transition result" where
  "object_to previous current trigger =
     bind_result (check_object_transition previous current) (\<lambda>_.
       Inr \<lparr>lt_previous = previous, lt_current = current, lt_trigger = trigger\<rparr>)"

definition reject_terminal :: "lifecycle_state \<Rightarrow> string \<Rightarrow> unit result" where
  "reject_terminal s action =
     (if object_is_terminal s then Inl (IllegalTransitionError (object_state_value s) action) else Inr ())"

definition on_measured :: "object_policy \<Rightarrow> lifecycle_state \<Rightarrow> int \<Rightarrow> lifecycle_transition result" where
  "on_measured p s count =
     bind_result (reject_terminal s ''measured'') (\<lambda>_.
       if s = PROVISIONAL
       then (if count \<ge> min_observations_to_confirm p then object_to s ACTIVE CONFIRMATION_MET
             else object_to s PROVISIONAL FIRST_DETECTIONS)
       else if s = OCCLUDED then object_to s ACTIVE REASSOCIATED
       else if s = DORMANT then object_to s ACTIVE RE_ENTRY_MATCHED
       else if s = DEPARTED then Inl (IllegalTransitionError (object_state_value s) ''measured'')
       else object_to s ACTIVE CONFIRMATION_MET)"

definition on_unmeasured ::
  "object_policy \<Rightarrow> lifecycle_state \<Rightarrow> duration \<Rightarrow> bool \<Rightarrow> lifecycle_transition result" where
  "on_unmeasured p s since_confirmed left_view =
     bind_result (reject_terminal s ''unmeasured'') (\<lambda>_.
       if s = PROVISIONAL
       then (if duration_ns since_confirmed \<ge> duration_ns (provisional_horizon p)
             then object_to s EXPIRED NEVER_CONFIRMED
             else object_to s PROVISIONAL FIRST_DETECTIONS)
       else if s = ACTIVE
       then (if left_view then object_to s DORMANT LEFT_FIELD_OF_VIEW
             else object_to s OCCLUDED MEASUREMENT_LOST)
       else if s = OCCLUDED
       then (if duration_ns since_confirmed \<ge> duration_ns (occlusion_horizon p)
             then object_to s DORMANT OCCLUSION_HORIZON
             else object_to s OCCLUDED MEASUREMENT_LOST)
       else if s = DORMANT
       then (if duration_ns since_confirmed \<ge> duration_ns (dormant_horizon p)
             then object_to s DEPARTED DEPARTURE_HORIZON
             else object_to s DORMANT OCCLUSION_HORIZON)
       else if duration_ns since_confirmed \<ge> duration_ns (retention_horizon p)
       then object_to s EXPIRED RETENTION_HORIZON
       else object_to s DEPARTED DEPARTURE_HORIZON)"

definition on_merged :: "lifecycle_state \<Rightarrow> lifecycle_transition result" where
  "on_merged s = bind_result (reject_terminal s ''merge'') (\<lambda>_. object_to s MERGED_INTO IDENTITY_RESOLUTION)"

definition on_shed :: "lifecycle_state \<Rightarrow> lifecycle_transition result" where
  "on_shed s =
     (if s \<noteq> PROVISIONAL
      then Inl (IllegalTransitionError (object_state_value s) (object_state_value EXPIRED))
      else object_to s EXPIRED POPULATION_SHED)"

datatype object_event = Measured int | Unmeasured duration bool | Merged | Shed

fun object_transition :: "object_policy \<Rightarrow> object_event \<Rightarrow> lifecycle_state \<Rightarrow> lifecycle_transition result" where
  "object_transition p (Measured n) s = on_measured p s n"
| "object_transition p (Unmeasured d lv) s = on_unmeasured p s d lv"
| "object_transition p Merged s = on_merged s"
| "object_transition p Shed s = on_shed s"

definition object_handle :: "object_policy \<Rightarrow> object_event \<Rightarrow> lifecycle_state \<Rightarrow> lifecycle_state result" where
  "object_handle p e s = bind_result (object_transition p e s) (\<lambda>t. Inr (lt_current t))"

section \<open>The machine keeps to its table\<close>

text \<open>Which events a state accepts, read off the checks of the four methods.\<close>

fun object_accepts :: "object_event \<Rightarrow> lifecycle_state \<Rightarrow> bool" where
  "object_accepts (Measured _) s \<longleftrightarrow> s \<notin> {DEPARTED, MERGED_INTO, EXPIRED}"
| "object_accepts (Unmeasured _ _) s \<longleftrightarrow> s \<notin> {MERGED_INTO, EXPIRED}"
| "object_accepts Merged s \<longleftrightarrow> s \<in> {ACTIVE, DORMANT}"
| "object_accepts Shed s \<longleftrightarrow> s = PROVISIONAL"

lemma object_is_legal_simps [simp]:
  "object_is_legal PROVISIONAL t \<longleftrightarrow> t \<in> {PROVISIONAL, ACTIVE, EXPIRED}"
  "object_is_legal ACTIVE t \<longleftrightarrow> t \<in> {ACTIVE, OCCLUDED, DORMANT, MERGED_INTO}"
  "object_is_legal OCCLUDED t \<longleftrightarrow> t \<in> {OCCLUDED, ACTIVE, DORMANT}"
  "object_is_legal DORMANT t \<longleftrightarrow> t \<in> {DORMANT, ACTIVE, DEPARTED, MERGED_INTO}"
  "object_is_legal DEPARTED t \<longleftrightarrow> t \<in> {DEPARTED, EXPIRED}"
  "\<not> object_is_legal MERGED_INTO t" "\<not> object_is_legal EXPIRED t"
  by (auto simp: object_is_legal_def object_allowed_def)

lemmas object_machine_defs = on_measured_def on_unmeasured_def on_merged_def on_shed_def object_to_def
  check_object_transition_def reject_terminal_def object_is_terminal_def

lemma object_transition_legal:
  assumes "object_transition p e s = Inr t"
  shows "lt_previous t = s \<and> object_is_legal s (lt_current t)"
  using assms by (cases e; cases s) (auto simp: object_machine_defs split: if_splits)

lemma object_transition_accepts: "object_accepts e s \<longleftrightarrow> (\<exists>t. object_transition p e s = Inr t)"
  by (cases e; cases s) (auto simp: object_machine_defs)

interpretation object_machine: closed_machine object_is_legal object_is_terminal
  by unfold_locales (auto simp: object_is_terminal_def)

interpretation object_handler:
  closed_machine_handler object_is_legal object_is_terminal "object_handle p" object_accepts
proof
  show "object_is_legal s t" if "object_handle p e s = Inr t" for e s t
    using that by (auto simp: object_handle_def result_simps dest: object_transition_legal)
  show "\<exists>t. object_handle p e s = Inr t" if "object_accepts e s" for e s
    using that object_transition_accepts [of e s p] by (auto simp: object_handle_def)
  show "raises (object_handle p e s)" if "\<not> object_accepts e s" for e s
    using that object_transition_accepts [of e s p]
    by (cases "object_transition p e s") (auto simp: object_handle_def)
qed

text \<open>
  C29: the object lifecycle is closed, and says which events each state refuses. Every history
  follows the table of allowed transitions and reaches a terminal state only as its last; a
  transition raises exactly for a measurement of a departed, merged or expired object, a missed
  measurement of a merged or expired one, a merge of anything but an active or dormant object,
  and a shed of anything but a provisional one. An object that departed is never active again.
\<close>

theorem object_lifecycle_closed:
  "successively object_is_legal (history (object_handle p) s es)
   \<and> (object_is_terminal t \<longrightarrow> t \<notin> set (butlast (history (object_handle p) s es)))
   \<and> (raises (object_transition p e s) \<longleftrightarrow> \<not> object_accepts e s)
   \<and> (object_is_legal\<^sup>*\<^sup>* DEPARTED t \<longrightarrow> t \<in> {DEPARTED, EXPIRED})"
proof -
  have "t \<in> {DEPARTED, EXPIRED}" if "object_is_legal\<^sup>*\<^sup>* DEPARTED t" for t
    using that by (induction rule: rtranclp_induct) auto
  moreover have "raises (object_transition p e s) \<longleftrightarrow> raises (object_handle p e s)"
    by (cases "object_transition p e s") (simp_all add: object_handle_def)
  ultimately show ?thesis
    using object_handler.history_legal object_handler.terminal_only_last object_handler.handle_raises_iff
    by blast
qed

theorem object_lifecycle_closed_witness:
  "MERGED_INTO \<notin> set (butlast (history (object_handle default_object_policy) ACTIVE
      [Unmeasured (Duration 1) False, Measured 2, Merged]))
   \<and> last (history (object_handle default_object_policy) ACTIVE
      [Unmeasured (Duration 1) False, Measured 2, Merged]) = MERGED_INTO"
proof -
  have "object_is_terminal MERGED_INTO" by (simp add: object_is_terminal_def)
  moreover have "last (history (object_handle default_object_policy) ACTIVE
      [Unmeasured (Duration 1) False, Measured 2, Merged]) = MERGED_INTO" by code_simp
  ultimately show ?thesis using object_lifecycle_closed by blast
qed

section \<open>An object that is not measured any more expires\<close>

definition past_all_horizons :: "object_policy \<Rightarrow> duration \<Rightarrow> bool" where
  "past_all_horizons p d \<longleftrightarrow> provisional_horizon p \<le> d \<and> occlusion_horizon p \<le> d
     \<and> dormant_horizon p \<le> d \<and> retention_horizon p \<le> d"

definition steps_to_expiry :: "lifecycle_state \<Rightarrow> nat" where
  "steps_to_expiry s =
     (case s of PROVISIONAL \<Rightarrow> 1 | ACTIVE \<Rightarrow> 4 | OCCLUDED \<Rightarrow> 3 | DORMANT \<Rightarrow> 2 | DEPARTED \<Rightarrow> 1 | _ \<Rightarrow> 0)"

text \<open>
  C37: no object is retained for ever. Once the time since an object was last confirmed exceeds
  every horizon of the policy, at most four sweeps that find it unmeasured take it to EXPIRED:
  one from provisional or departed, two from dormant, three from occluded, four from active.
\<close>

theorem unmeasured_object_expires:
  assumes "\<not> object_is_terminal s" and "past_all_horizons p d" and "length lvs = 4"
  shows "\<exists>k \<le> steps_to_expiry s.
    fold_result (\<lambda>lv s. object_handle p (Unmeasured d lv) s) (take k lvs) s = Inr EXPIRED"
proof -
  have step: "object_handle p (Unmeasured d lv) PROVISIONAL = Inr EXPIRED"
    "object_handle p (Unmeasured d lv) ACTIVE = Inr (if lv then DORMANT else OCCLUDED)"
    "object_handle p (Unmeasured d lv) OCCLUDED = Inr DORMANT"
    "object_handle p (Unmeasured d lv) DORMANT = Inr DEPARTED"
    "object_handle p (Unmeasured d lv) DEPARTED = Inr EXPIRED" for lv
    using assms(2)
    by (simp_all add: object_handle_def object_machine_defs past_all_horizons_def less_eq_duration_def)
  obtain a b c e where lvs: "lvs = [a, b, c, e]"
    using assms(3) by (auto simp: numeral_eq_Suc length_Suc_conv)
  show ?thesis
  proof (cases s)
    case ACTIVE
    then show ?thesis
      by (intro exI [of _ "if a then 3 else 4"]) (simp add: lvs step steps_to_expiry_def)
  qed (use assms(1) in \<open>auto simp: lvs step steps_to_expiry_def object_is_terminal_def
         intro: exI [of _ 1] exI [of _ 2] exI [of _ 3]\<close>)
qed

theorem unmeasured_object_expires_witness:
  "\<exists>k \<le> 4. fold_result (\<lambda>lv s. object_handle default_object_policy (Unmeasured (duration_from_millis 700000) lv) s)
     (take k [False, False, False, False]) ACTIVE = Inr EXPIRED"
  using unmeasured_object_expires [of ACTIVE default_object_policy "duration_from_millis 700000"
      "[False, False, False, False]"]
  by (simp add: object_is_terminal_def past_all_horizons_def default_object_policy_def time_simps
      steps_to_expiry_def)

end
