(* ===== verification/Api_Model.thy ===== *)
theory Api_Model
  imports Timebase Confidence Object_Lifecycle
begin

text \<open>
  The exposed data model of \<^verbatim>\<open>vision_os/core/model/api.py\<close>: scopes and principals, filters,
  query options, time windows, the views of objects and attributes, coverage, and the policy of
  a subscription. Attribute values are Python objects; \<open>py_value\<close> holds the scalars and tuples
  the platform stores, with Python's equality, under which numbers and booleans of equal value
  are equal whatever their type.
\<close>

section \<open>Values\<close>

datatype py_value = VNone | VBool bool | VInt int | VFloat rat | VStr string | VTuple "py_value list"

fun num_of :: "py_value \<Rightarrow> rat option" where
  "num_of (VBool b) = Some (if b then 1 else 0)"
| "num_of (VInt i) = Some (of_int i)"
| "num_of (VFloat q) = Some q"
| "num_of _ = None"

fun py_eq :: "py_value \<Rightarrow> py_value \<Rightarrow> bool"
  and py_eq_list :: "py_value list \<Rightarrow> py_value list \<Rightarrow> bool" where
  "py_eq (VTuple xs) b = (case b of VTuple ys \<Rightarrow> py_eq_list xs ys | _ \<Rightarrow> False)"
| "py_eq VNone b = (b = VNone)"
| "py_eq (VStr s) b = (b = VStr s)"
| "py_eq (VBool x) b = (num_of (VBool x) = num_of b)"
| "py_eq (VInt x) b = (num_of (VInt x) = num_of b)"
| "py_eq (VFloat x) b = (num_of (VFloat x) = num_of b)"
| "py_eq_list [] ys = (ys = [])"
| "py_eq_list (x # xs) ys = (case ys of [] \<Rightarrow> False | y # ys' \<Rightarrow> py_eq x y \<and> py_eq_list xs ys')"

definition py_in :: "py_value \<Rightarrow> py_value list \<Rightarrow> bool" where
  "py_in v vs \<longleftrightarrow> (\<exists>w \<in> set vs. py_eq v w)"

lemma py_eq_list_refl: "\<forall>v \<in> set vs. py_eq v v \<Longrightarrow> py_eq_list vs vs"
  by (induction vs) auto

lemma py_eq_refl [simp]: "py_eq v v"
  by (induction v) (auto intro: py_eq_list_refl)

section \<open>Scopes and principals\<close>

record scope =
  sc_tenant :: tenant_id
  sc_sites :: "site_id list"
  sc_cameras :: "camera_id list"
  sc_regions :: "region_id list"

definition mk_scope :: "scope \<Rightarrow> scope result" where
  "mk_scope s = (if sc_tenant s = [] then Inl ValueError else Inr s)"

definition scope_covers_camera :: "scope \<Rightarrow> camera_id \<Rightarrow> bool" where
  "scope_covers_camera s c \<longleftrightarrow> sc_cameras s = [] \<or> c \<in> set (sc_cameras s)"

definition narrowed_to :: "scope \<Rightarrow> camera_id list \<Rightarrow> scope" where
  "narrowed_to s cameras = s\<lparr>sc_cameras := filter (scope_covers_camera s) cameras\<rparr>"

record principal =
  pr_subject :: string
  pr_tenant :: tenant_id
  pr_scopes :: "string list"
  pr_display_name :: string

definition mk_principal :: "principal \<Rightarrow> principal result" where
  "mk_principal p =
     (if pr_subject p = [] then Inl ValueError
      else if pr_tenant p = [] then Inl ValueError else Inr p)"

datatype action =
    READ_STATE | READ_OBSERVATIONS | READ_EVIDENCE | SUBSCRIBE | REGISTER_DEMAND
  | READ_CAPABILITY | READ_COVERAGE

definition action_is_read :: "action \<Rightarrow> bool" where
  "action_is_read a \<longleftrightarrow> a \<noteq> REGISTER_DEMAND"

section \<open>Filters and options\<close>

record attribute_predicate =
  ap_key :: attribute_key
  ap_equals :: "py_value option"
  ap_present :: bool

definition predicate_matches :: "attribute_predicate \<Rightarrow> (attribute_key, py_value) dict \<Rightarrow> bool" where
  "predicate_matches p attrs =
     (case dict_get attrs (ap_key p) of
        None \<Rightarrow> \<not> ap_present p
      | Some held \<Rightarrow> (case ap_equals p of None \<Rightarrow> True | Some v \<Rightarrow> py_eq held v))"

definition class_matches :: "class_id option \<Rightarrow> class_id list \<Rightarrow> bool" where
  "class_matches c wanted = (case c of None \<Rightarrow> False | Some c \<Rightarrow> list_ex (is_a c) wanted)"

definition matches_class :: "class_id list \<Rightarrow> class_id option \<Rightarrow> bool" where
  "matches_class wanted c = (if wanted = [] then True else class_matches c wanted)"

record query_options =
  qo_include_attributes :: "attribute_key list option"
  qo_include_spatial :: bool
  qo_include_trajectory :: bool
  qo_include_provenance :: bool
  qo_limit :: int
  qo_cursor :: "string option"

definition check_query_options :: "query_options \<Rightarrow> query_options result" where
  "check_query_options q = (if qo_limit q < 1 then Inl ValueError else Inr q)"

datatype time_window = TimeWindow (tw_start: instant) (tw_end: instant)

definition mk_time_window :: "instant \<Rightarrow> instant \<Rightarrow> time_window result" where
  "mk_time_window a b = (if instant_ns b < instant_ns a then Inl ValueError else Inr (TimeWindow a b))"

definition window_span :: "time_window \<Rightarrow> duration" where
  "window_span w = Duration (instant_ns (tw_end w) - instant_ns (tw_start w))"

definition window_contains :: "time_window \<Rightarrow> instant \<Rightarrow> bool" where
  "window_contains w t \<longleftrightarrow>
     instant_ns (tw_start w) \<le> instant_ns t \<and> instant_ns t \<le> instant_ns (tw_end w)"

lemma matches_class_mono:
  assumes "matches_class wanted (Some c)" and "is_a d c"
  shows "matches_class wanted (Some d)"
  using assms is_a_trans by (auto simp: matches_class_def class_matches_def list_ex_iff split: if_splits)

section \<open>Views\<close>

record attribute_view =
  av_key :: attribute_key
  av_value :: py_value
  av_confidence :: confidence
  av_observed_at :: instant
  av_valid_until :: "instant option"
  av_evidence_ref :: "string option"

definition attribute_is_stale :: "attribute_view \<Rightarrow> instant \<Rightarrow> bool" where
  "attribute_is_stale a now =
     (case av_valid_until a of None \<Rightarrow> False | Some u \<Rightarrow> instant_ns now > instant_ns u)"

lemma attribute_is_stale_mono:
  "attribute_is_stale a now \<Longrightarrow> now \<le> now' \<Longrightarrow> attribute_is_stale a now'"
  by (auto simp: attribute_is_stale_def time_simps split: option.splits)

record object_view =
  ov_object_id :: object_id
  ov_class_id :: class_id
  ov_class_confidence :: confidence
  ov_lifecycle :: lifecycle_state
  ov_camera_id :: camera_id
  ov_first_seen :: instant
  ov_last_seen :: instant
  ov_last_confirmed :: instant
  ov_attributes :: "(attribute_key, attribute_view) dict"
  ov_observation_count :: int

definition view_is_stale :: "object_view \<Rightarrow> bool" where
  "view_is_stale v \<longleftrightarrow> instant_ns (ov_last_confirmed v) < instant_ns (ov_last_seen v)"

record coverage_summary =
  cv_observable_fraction :: rat
  cv_observing :: int
  cv_blind :: int
  cv_degraded :: int
  cv_unavailable :: "(string \<times> string) list"

definition fully_observable :: "coverage_summary \<Rightarrow> bool" where
  "fully_observable c \<longleftrightarrow> cv_observable_fraction c \<ge> 1 \<and> cv_unavailable c = []"

end
