(* ===== verification/Compliance.thy ===== *)
theory Compliance
  imports Api_Model
begin

text \<open>
  The compliance evaluator: rules of \<^verbatim>\<open>compliance/document.py\<close>, findings of
  \<^verbatim>\<open>compliance/finding.py\<close>, and the pure evaluation of \<^verbatim>\<open>compliance/evaluator.py\<close>. The
  text Python's \<^verbatim>\<open>str\<close> gives for a value that is not a string is the argument \<open>str_of\<close>.
  Reading rules from JSON is not modelled; the checks of the constructors are.
\<close>

section \<open>Rules\<close>

datatype operator = EQ | NE | IN | NOT_IN | GT | GTE | LT | LTE | PRESENT

definition needs_expected :: "operator \<Rightarrow> bool" where
  "needs_expected op \<longleftrightarrow> op \<noteq> PRESENT"

definition is_ordering :: "operator \<Rightarrow> bool" where
  "is_ordering op \<longleftrightarrow> op \<in> {GT, GTE, LT, LTE}"

record condition =
  cn_attribute :: attribute_key
  cn_operator :: operator
  cn_expected :: py_value
  cn_message :: string
  cn_unknown_values :: "string list"

definition check_condition :: "condition \<Rightarrow> condition result" where
  "check_condition c =
     (if cn_attribute c = [] then Inl RuleDocumentError
      else if needs_expected (cn_operator c) \<and> cn_expected c = VNone then Inl RuleDocumentError
      else if cn_operator c \<in> {IN, NOT_IN} \<and> (case cn_expected c of VTuple _ \<Rightarrow> False | _ \<Rightarrow> True)
      then Inl RuleDocumentError
      else Inr c)"

record evidence_requirements =
  er_max_staleness :: "duration option"
  er_requires :: "attribute_key list"
  er_full_coverage :: bool

record rule_scope =
  rc_tenant :: tenant_id
  rc_sites :: "site_id list"
  rc_cameras :: "camera_id list"

definition rule_covers_camera :: "rule_scope \<Rightarrow> camera_id \<Rightarrow> bool" where
  "rule_covers_camera s c \<longleftrightarrow> rc_cameras s = [] \<or> c \<in> set (rc_cameras s)"

record rule =
  rl_id :: string
  rl_version :: string
  rl_require :: "condition list"
  rl_when :: "condition list"
  rl_classes :: "class_id list"
  rl_scope :: rule_scope
  rl_evidence :: evidence_requirements
  rl_severity :: string

definition check_rule :: "rule \<Rightarrow> rule result" where
  "check_rule r =
     (if rl_id r = [] then Inl RuleDocumentError
      else if rl_version r = [] then Inl RuleDocumentError
      else if rl_require r = [] then Inl RuleDocumentError
      else Inr r)"

definition add_new :: "'a list \<Rightarrow> 'a \<Rightarrow> 'a list" where
  "add_new keys k = (if k \<in> set keys then keys else keys @ [k])"

definition rule_attributes :: "rule \<Rightarrow> attribute_key list" where
  "rule_attributes r =
     foldl add_new (foldl add_new [] (map cn_attribute (rl_when r @ rl_require r)))
       (er_requires (rl_evidence r))"

definition covers_class :: "rule \<Rightarrow> class_id \<Rightarrow> bool" where
  "covers_class r c \<longleftrightarrow> (if rl_classes r = [] then True else list_ex (is_a c) (rl_classes r))"

record rule_set =
  rs_version :: string
  rs_rules :: "rule list"

definition for_class :: "rule_set \<Rightarrow> class_id \<Rightarrow> rule list" where
  "for_class s c = filter (\<lambda>r. covers_class r c) (rs_rules s)"

definition get_rule :: "rule_set \<Rightarrow> string \<Rightarrow> rule option" where
  "get_rule s i = find (\<lambda>r. rl_id r = i) (rs_rules s)"

definition required_attributes :: "rule_set \<Rightarrow> attribute_key list" where
  "required_attributes s = foldl add_new [] (concat (map rule_attributes (rs_rules s)))"

definition unproducible_against :: "rule_set \<Rightarrow> attribute_key list \<Rightarrow> (string \<times> attribute_key) list" where
  "unproducible_against s producible =
     concat (map (\<lambda>r. map (\<lambda>k. (rl_id r, k)) (filter (\<lambda>k. k \<notin> set producible) (rule_attributes r)))
       (rs_rules s))"

text \<open>The last step of \<^verbatim>\<open>from_document\<close>: rules parsed, ids checked to be distinct.\<close>

fun check_distinct_ids :: "string set \<Rightarrow> rule list \<Rightarrow> unit result" where
  "check_distinct_ids seen [] = Inr ()"
| "check_distinct_ids seen (r # rs) =
     (if rl_id r \<in> seen then Inl RuleDocumentError else check_distinct_ids (insert (rl_id r) seen) rs)"

definition rule_set_of :: "string \<Rightarrow> rule list \<Rightarrow> rule_set result" where
  "rule_set_of version rules =
     bind_result (check_distinct_ids {} rules) (\<lambda>_. Inr \<lparr>rs_version = version, rs_rules = rules\<rparr>)"

section \<open>Findings\<close>

datatype compliance_state = COMPLIANT | VIOLATION | UNKNOWN | NOT_APPLICABLE

definition is_decided :: "compliance_state \<Rightarrow> bool" where
  "is_decided s \<longleftrightarrow> s \<in> {COMPLIANT, VIOLATION}"

datatype unknown_reason =
    ATTRIBUTE_ABSENT | ATTRIBUTE_STALE | EVIDENCE_UNVERIFIED | NOT_OBSERVABLE | COVERAGE_GAP
  | CAPABILITY_GAP | SUBJECT_NOT_OBSERVED | VALUE_UNPARSEABLE

record subject_ref =
  sj_object_id :: object_id
  sj_class_id :: class_id
  sj_camera_id :: camera_id
  sj_label :: string

record condition_outcome =
  co_attribute :: attribute_key
  co_operator :: operator
  co_expected :: py_value
  co_observed :: "py_value option"
  co_satisfied :: "bool option"
  co_unknown_reason :: "unknown_reason option"
  co_observed_at :: "instant option"
  co_evidence_ref :: "string option"
  co_message :: string

definition mk_outcome :: "condition_outcome \<Rightarrow> condition_outcome result" where
  "mk_outcome c =
     (if co_satisfied c = None \<and> co_unknown_reason c = None then Inl ValueError
      else if co_satisfied c \<noteq> None \<and> co_unknown_reason c \<noteq> None then Inl ValueError
      else Inr c)"

definition outcome_failed :: "condition_outcome \<Rightarrow> bool" where
  "outcome_failed c \<longleftrightarrow> co_satisfied c = Some False"

definition outcome_unresolved :: "condition_outcome \<Rightarrow> bool" where
  "outcome_unresolved c \<longleftrightarrow> co_satisfied c = None"

record finding =
  fd_id :: "string \<times> string \<times> object_id \<times> int"
  fd_rule_id :: string
  fd_rule_version :: string
  fd_ruleset_version :: string
  fd_state :: compliance_state
  fd_subject :: subject_ref
  fd_evaluated_at :: instant
  fd_conditions :: "condition_outcome list"
  fd_severity :: string
  fd_coverage :: rat

definition failed_conditions :: "finding \<Rightarrow> condition_outcome list" where
  "failed_conditions f = filter outcome_failed (fd_conditions f)"

definition unresolved_conditions :: "finding \<Rightarrow> condition_outcome list" where
  "unresolved_conditions f = filter outcome_unresolved (fd_conditions f)"

definition mk_finding :: "finding \<Rightarrow> finding result" where
  "mk_finding f =
     (if fd_rule_id f = [] \<or> fd_rule_version f = [] then Inl ValueError
      else if fd_state f = VIOLATION \<and> failed_conditions f = [] then Inl ValueError
      else if fd_state f = UNKNOWN \<and> unresolved_conditions f = [] then Inl ValueError
      else if \<not> (0 \<le> fd_coverage f \<and> fd_coverage f \<le> 1) then Inl ValueError
      else Inr f)"

definition unknown_reasons :: "finding \<Rightarrow> unknown_reason list" where
  "unknown_reasons f =
     foldl add_new [] (List.map_filter co_unknown_reason (unresolved_conditions f))"

definition finding_age :: "finding \<Rightarrow> instant \<Rightarrow> duration" where
  "finding_age f now = Duration (max 0 (instant_ns now - instant_ns (fd_evaluated_at f)))"

section \<open>Evaluation\<close>

definition compare_values :: "condition \<Rightarrow> py_value \<Rightarrow> bool option" where
  "compare_values c held =
     (case cn_operator c of
        EQ \<Rightarrow> Some (py_eq held (cn_expected c))
      | NE \<Rightarrow> Some (\<not> py_eq held (cn_expected c))
      | IN \<Rightarrow> Some (case cn_expected c of VTuple vs \<Rightarrow> py_in held vs | _ \<Rightarrow> False)
      | NOT_IN \<Rightarrow> Some (case cn_expected c of VTuple vs \<Rightarrow> \<not> py_in held vs | _ \<Rightarrow> True)
      | PRESENT \<Rightarrow> None
      | op \<Rightarrow>
          (case (held, cn_expected c) of
             (VBool _, _) \<Rightarrow> None
           | (_, VBool _) \<Rightarrow> None
           | _ \<Rightarrow>
             (case (num_of held, num_of (cn_expected c)) of
                (Some h, Some e) \<Rightarrow>
                  Some (case op of GT \<Rightarrow> h > e | GTE \<Rightarrow> h \<ge> e | LT \<Rightarrow> h < e | _ \<Rightarrow> h \<le> e)
              | _ \<Rightarrow> None)))"

definition held_is_stale :: "attribute_view \<Rightarrow> evidence_requirements \<Rightarrow> instant \<Rightarrow> bool" where
  "held_is_stale held ev now =
     (if attribute_is_stale held now then True
      else case er_max_staleness ev of
             None \<Rightarrow> False
           | Some d \<Rightarrow> instant_ns now - instant_ns (av_observed_at held) > duration_ns d)"

definition uncorroborated :: "object_view \<Rightarrow> evidence_requirements \<Rightarrow> instant \<Rightarrow> bool" where
  "uncorroborated v ev now \<longleftrightarrow>
     list_ex (\<lambda>k. case dict_get (ov_attributes v) k of
                     None \<Rightarrow> True | Some a \<Rightarrow> attribute_is_stale a now) (er_requires ev)"

definition as_text :: "(py_value \<Rightarrow> string) \<Rightarrow> py_value \<Rightarrow> string" where
  "as_text str_of v = (case v of VStr s \<Rightarrow> s | _ \<Rightarrow> str_of v)"

definition outcome_of ::
  "condition \<Rightarrow> attribute_view option \<Rightarrow> bool option \<Rightarrow> unknown_reason option \<Rightarrow> condition_outcome" where
  "outcome_of c held sat why =
     \<lparr>co_attribute = cn_attribute c, co_operator = cn_operator c, co_expected = cn_expected c,
      co_observed = map_option av_value held, co_satisfied = sat, co_unknown_reason = why,
      co_observed_at = map_option av_observed_at held,
      co_evidence_ref = Option.bind held av_evidence_ref, co_message = cn_message c\<rparr>"

definition assess ::
  "(py_value \<Rightarrow> string) \<Rightarrow> condition \<Rightarrow> object_view \<Rightarrow> evidence_requirements \<Rightarrow> instant \<Rightarrow>
   string set \<Rightarrow> coverage_summary option \<Rightarrow> condition_outcome result" where
  "assess str_of c v ev now gaps coverage =
     (let held = dict_get (ov_attributes v) (cn_attribute c);
          unresolved = (\<lambda>why. mk_outcome (outcome_of c held None (Some why)))
      in if cn_attribute c \<in> gaps then unresolved CAPABILITY_GAP
         else if er_full_coverage ev \<and> (case coverage of None \<Rightarrow> False | Some s \<Rightarrow> \<not> fully_observable s)
         then unresolved COVERAGE_GAP
         else if cn_operator c = PRESENT
         then mk_outcome (outcome_of c held (Some (held \<noteq> None)) None)
         else case held of
                None \<Rightarrow> unresolved ATTRIBUTE_ABSENT
              | Some a \<Rightarrow>
                  if cn_unknown_values c \<noteq> [] \<and> as_text str_of (av_value a) \<in> set (cn_unknown_values c)
                  then unresolved NOT_OBSERVABLE
                  else if held_is_stale a ev now then unresolved ATTRIBUTE_STALE
                  else if uncorroborated v ev now then unresolved EVIDENCE_UNVERIFIED
                  else case compare_values c (av_value a) of
                         None \<Rightarrow> unresolved VALUE_UNPARSEABLE
                       | Some verdict \<Rightarrow> mk_outcome (outcome_of c held (Some verdict) None))"

fun assess_all ::
  "(py_value \<Rightarrow> string) \<Rightarrow> condition list \<Rightarrow> object_view \<Rightarrow> evidence_requirements \<Rightarrow> instant \<Rightarrow>
   string set \<Rightarrow> coverage_summary option \<Rightarrow> condition_outcome list result" where
  "assess_all str_of [] v ev now gaps coverage = Inr []"
| "assess_all str_of (c # cs) v ev now gaps coverage =
     bind_result (assess str_of c v ev now gaps coverage) (\<lambda>o1.
       bind_result (assess_all str_of cs v ev now gaps coverage) (\<lambda>os. Inr (o1 # os)))"

definition make_finding ::
  "rule_set \<Rightarrow> rule \<Rightarrow> subject_ref \<Rightarrow> compliance_state \<Rightarrow> condition_outcome list \<Rightarrow> instant \<Rightarrow> rat \<Rightarrow>
   finding result" where
  "make_finding s r subject state outcomes now observable =
     mk_finding
       \<lparr>fd_id = (rl_id r, rl_version r, sj_object_id subject, instant_ns now), fd_rule_id = rl_id r,
        fd_rule_version = rl_version r, fd_ruleset_version = rs_version s, fd_state = state,
        fd_subject = subject, fd_evaluated_at = now, fd_conditions = outcomes,
        fd_severity = rl_severity r, fd_coverage = observable\<rparr>"

record eval_context =
  ec_str_of :: "py_value \<Rightarrow> string"
  ec_now :: instant
  ec_coverage :: "coverage_summary option"
  ec_gaps :: "string list"

definition evaluate_rule ::
  "rule_set \<Rightarrow> eval_context \<Rightarrow> string \<Rightarrow> rule \<Rightarrow> object_view \<Rightarrow> finding result" where
  "evaluate_rule s ctx label r v =
     (let subject = \<lparr>sj_object_id = ov_object_id v, sj_class_id = ov_class_id v,
                     sj_camera_id = ov_camera_id v, sj_label = label\<rparr>;
          observable = (case ec_coverage ctx of None \<Rightarrow> 1 | Some c \<Rightarrow> cv_observable_fraction c);
          gaps = set (ec_gaps ctx);
          judge = (\<lambda>cs. assess_all (ec_str_of ctx) cs v (rl_evidence r) (ec_now ctx) gaps (ec_coverage ctx))
      in bind_result (judge (rl_when r)) (\<lambda>guard.
           if list_ex outcome_failed guard
           then make_finding s r subject NOT_APPLICABLE guard (ec_now ctx) observable
           else if list_ex outcome_unresolved guard
           then make_finding s r subject UNKNOWN guard (ec_now ctx) observable
           else bind_result (judge (rl_require r)) (\<lambda>required.
             make_finding s r subject
               (if list_ex outcome_failed required then VIOLATION
                else if list_ex outcome_unresolved required then UNKNOWN else COMPLIANT)
               (guard @ required) (ec_now ctx) observable)))"

fun collect :: "'a result list \<Rightarrow> 'a list result" where
  "collect [] = Inr []"
| "collect (x # xs) = bind_result x (\<lambda>y. bind_result (collect xs) (\<lambda>ys. Inr (y # ys)))"

definition evaluate_object ::
  "rule_set \<Rightarrow> eval_context \<Rightarrow> string \<Rightarrow> object_view \<Rightarrow> finding list result" where
  "evaluate_object s ctx label v =
     collect (map (\<lambda>r. evaluate_rule s ctx label r v)
       (filter (\<lambda>r. rule_covers_camera (rl_scope r) (ov_camera_id v)) (for_class s (ov_class_id v))))"

definition evaluate ::
  "rule_set \<Rightarrow> eval_context \<Rightarrow> (string, string) dict \<Rightarrow> object_view list \<Rightarrow> finding list result" where
  "evaluate s ctx labels views =
     bind_result (collect (map (\<lambda>v. evaluate_object s ctx
         (case dict_get labels (ov_object_id v) of None \<Rightarrow> [] | Some l \<Rightarrow> l) v) views))
       (\<lambda>fs. Inr (concat fs))"

section \<open>Three-valued reference semantics\<close>

text \<open>
  A condition is true, false or unknown (\<open>None\<close>); a list of conditions is their strong Kleene
  conjunction; a rule is the table below. \<open>refines\<close> is the information order: unknown is below
  everything.
\<close>

fun kleene_and :: "bool option \<Rightarrow> bool option \<Rightarrow> bool option" where
  "kleene_and (Some False) _ = Some False"
| "kleene_and _ (Some False) = Some False"
| "kleene_and (Some True) (Some True) = Some True"
| "kleene_and _ _ = None"

definition kleene_all :: "bool option list \<Rightarrow> bool option" where
  "kleene_all ts = foldr kleene_and ts (Some True)"

definition rule_table :: "bool option list \<Rightarrow> bool option list \<Rightarrow> compliance_state" where
  "rule_table guard required =
     (case kleene_all guard of
        Some False \<Rightarrow> NOT_APPLICABLE
      | None \<Rightarrow> UNKNOWN
      | Some True \<Rightarrow>
          (case kleene_all required of
             Some False \<Rightarrow> VIOLATION | None \<Rightarrow> UNKNOWN | Some True \<Rightarrow> COMPLIANT))"

definition truth ::
  "eval_context \<Rightarrow> rule \<Rightarrow> object_view \<Rightarrow> condition \<Rightarrow> bool option" where
  "truth ctx r v c =
     (case assess (ec_str_of ctx) c v (rl_evidence r) (ec_now ctx) (set (ec_gaps ctx)) (ec_coverage ctx) of
        Inl _ \<Rightarrow> None | Inr o1 \<Rightarrow> co_satisfied o1)"

definition refines :: "bool option \<Rightarrow> bool option \<Rightarrow> bool" where
  "refines a b \<longleftrightarrow> a = None \<or> a = b"

lemma kleene_and_simps [simp]:
  "kleene_and a b = Some False \<longleftrightarrow> a = Some False \<or> b = Some False"
  "kleene_and a b = Some True \<longleftrightarrow> a = Some True \<and> b = Some True"
  by (cases "(a, b)" rule: kleene_and.cases; auto)+

lemma kleene_all_iff:
  "kleene_all ts = Some False \<longleftrightarrow> Some False \<in> set ts"
  "kleene_all ts = Some True \<longleftrightarrow> set ts \<subseteq> {Some True}"
  "kleene_all ts = None \<longleftrightarrow> Some False \<notin> set ts \<and> None \<in> set ts"
proof -
  show f: "kleene_all ts = Some False \<longleftrightarrow> Some False \<in> set ts"
    and t: "kleene_all ts = Some True \<longleftrightarrow> set ts \<subseteq> {Some True}"
    by (induction ts) (auto simp: kleene_all_def)
  show "kleene_all ts = None \<longleftrightarrow> Some False \<notin> set ts \<and> None \<in> set ts"
  proof -
    have "kleene_all ts = None \<longleftrightarrow> kleene_all ts \<noteq> Some False \<and> kleene_all ts \<noteq> Some True"
      by (cases "kleene_all ts") auto
    then show ?thesis unfolding f t by (auto, (case_tac x rule: option.exhaust; auto)+)
  qed
qed

section \<open>The evaluator computes the reference\<close>

definition context_ok :: "eval_context \<Rightarrow> bool" where
  "context_ok ctx \<longleftrightarrow> (case ec_coverage ctx of None \<Rightarrow> True
     | Some c \<Rightarrow> 0 \<le> cv_observable_fraction c \<and> cv_observable_fraction c \<le> 1)"

lemma assess_total:
  obtains out where "assess (ec_str_of ctx) c v (rl_evidence r) (ec_now ctx) (set (ec_gaps ctx)) (ec_coverage ctx)
      = Inr out" and "co_satisfied out = truth ctx r v c"
proof -
  have "\<exists>out. assess (ec_str_of ctx) c v (rl_evidence r) (ec_now ctx) (set (ec_gaps ctx)) (ec_coverage ctx)
      = Inr out"
    by (auto simp: assess_def Let_def mk_outcome_def outcome_of_def split: option.split)
  with that show thesis by (auto simp: truth_def)
qed

lemma assess_all_total:
  obtains outs where "assess_all (ec_str_of ctx) cs v (rl_evidence r) (ec_now ctx) (set (ec_gaps ctx))
      (ec_coverage ctx) = Inr outs" and "map co_satisfied outs = map (truth ctx r v) cs"
proof (induction cs arbitrary: thesis)
  case (Cons c cs)
  obtain out where "assess (ec_str_of ctx) c v (rl_evidence r) (ec_now ctx) (set (ec_gaps ctx)) (ec_coverage ctx)
      = Inr out" "co_satisfied out = truth ctx r v c" by (rule assess_total)
  moreover obtain outs where "assess_all (ec_str_of ctx) cs v (rl_evidence r) (ec_now ctx)
      (set (ec_gaps ctx)) (ec_coverage ctx) = Inr outs" "map co_satisfied outs = map (truth ctx r v) cs"
    by (rule Cons.IH)
  ultimately show ?case using Cons.prems [of "out # outs"] by simp
qed simp

lemma list_ex_outcomes:
  assumes "map co_satisfied outs = ts"
  shows "list_ex outcome_failed outs \<longleftrightarrow> Some False \<in> set ts"
    and "list_ex outcome_unresolved outs \<longleftrightarrow> None \<in> set ts"
  unfolding assms [symmetric] by (force simp: list_ex_iff outcome_failed_def outcome_unresolved_def)+

lemma mk_finding_ok:
  assumes "check_rule r = Inr r" and "0 \<le> q" "q \<le> 1"
    and "st = VIOLATION \<Longrightarrow> list_ex outcome_failed outs"
    and "st = UNKNOWN \<Longrightarrow> list_ex outcome_unresolved outs"
  shows "\<exists>f. make_finding s r sj st outs now q = Inr f \<and> fd_state f = st"
  using assms
  by (auto simp: make_finding_def mk_finding_def check_rule_def failed_conditions_def
      unresolved_conditions_def filter_empty_conv list_ex_iff split: if_splits)

lemma evaluate_rule_outcome:
  assumes rule: "check_rule r = Inr r" and ctx: "context_ok ctx"
  shows "\<exists>f. evaluate_rule s ctx label r v = Inr f
    \<and> fd_state f = rule_table (map (truth ctx r v) (rl_when r)) (map (truth ctx r v) (rl_require r))"
proof -
  let ?g = "map (truth ctx r v) (rl_when r)" and ?q = "map (truth ctx r v) (rl_require r)"
  obtain guard where g: "assess_all (ec_str_of ctx) (rl_when r) v (rl_evidence r) (ec_now ctx)
      (set (ec_gaps ctx)) (ec_coverage ctx) = Inr guard" "map co_satisfied guard = ?g"
    by (rule assess_all_total)
  obtain req where q: "assess_all (ec_str_of ctx) (rl_require r) v (rl_evidence r) (ec_now ctx)
      (set (ec_gaps ctx)) (ec_coverage ctx) = Inr req" "map co_satisfied req = ?q"
    by (rule assess_all_total)
  have frac: "0 \<le> (case ec_coverage ctx of None \<Rightarrow> 1 | Some c \<Rightarrow> cv_observable_fraction c)"
    "(case ec_coverage ctx of None \<Rightarrow> 1 | Some c \<Rightarrow> cv_observable_fraction c) \<le> 1"
    using ctx by (auto simp: context_ok_def split: option.splits)
  note guards = list_ex_outcomes [OF g(2)] and reqs = list_ex_outcomes [OF q(2)]
  note make = mk_finding_ok [OF rule frac]
  show ?thesis
  proof (cases "kleene_all ?g")
    case None
    then have "Some False \<notin> set ?g" "None \<in> set ?g" using kleene_all_iff(3) [of ?g] by blast+
    with make [of UNKNOWN guard] show ?thesis
      unfolding evaluate_rule_def rule_table_def None by (simp add: g(1) guards Let_def)
  next
    case (Some b)
    show ?thesis
    proof (cases b)
      case False
      with Some have "Some False \<in> set ?g" by (simp add: kleene_all_iff)
      with make [of NOT_APPLICABLE guard] show ?thesis
        unfolding evaluate_rule_def rule_table_def using Some False by (simp add: g(1) guards Let_def)
    next
      case True
      with Some have none: "Some False \<notin> set ?g" "None \<notin> set ?g"
        by (auto simp: kleene_all_iff)
      define st where "st = (if list_ex outcome_failed req then VIOLATION
          else if list_ex outcome_unresolved req then UNKNOWN else COMPLIANT)"
      have "st = (case kleene_all ?q of Some False \<Rightarrow> VIOLATION | None \<Rightarrow> UNKNOWN | Some True \<Rightarrow> COMPLIANT)"
        using kleene_all_iff [of ?q] unfolding st_def reqs
        by (cases "kleene_all ?q") (auto split: bool.split)
      moreover have "\<exists>f. make_finding s r sj st (guard @ req) now
          (case ec_coverage ctx of None \<Rightarrow> 1 | Some c \<Rightarrow> cv_observable_fraction c) = Inr f \<and> fd_state f = st" for sj now
        using make [of st "guard @ req"] by (fastforce simp: st_def split: if_splits)
      ultimately show ?thesis
        unfolding evaluate_rule_def rule_table_def using Some True none
        by (simp add: g(1) q(1) guards Let_def st_def)
    qed
  qed
qed

text \<open>
  C5: a rule is evaluated as a three-valued formula. For every rule its constructor accepts, the
  evaluator returns a finding, without raising, whose state is the table of the strong Kleene
  conjunctions of the guard and of the requirement: a false guard condition makes the rule not
  applicable whatever else is unknown, a failed requirement is a violation even when others are
  unknown, and compliance needs every condition to be known true.
\<close>

theorem evaluate_rule_is_kleene:
  assumes "check_rule r = Inr r" and "context_ok ctx"
  shows "\<exists>f. evaluate_rule s ctx label r v = Inr f
    \<and> fd_state f = rule_table (map (truth ctx r v) (rl_when r)) (map (truth ctx r v) (rl_require r))"
  using assms by (rule evaluate_rule_outcome)

section \<open>Verdicts under more evidence and under time\<close>

lemma kleene_and_refines:
  assumes "refines a a'" and "refines b b'"
  shows "refines (kleene_and a b) (kleene_and a' b')"
proof (cases "kleene_and a b")
  case (Some x)
  show ?thesis
  proof (cases x)
    case True
    with Some have "a = Some True" "b = Some True" by auto
    with assms have "a' = Some True" "b' = Some True"
      unfolding refines_def by (metis option.distinct(1))+
    with \<open>a = _\<close> \<open>b = _\<close> show ?thesis by (simp add: refines_def)
  next
    case False
    with Some have "a = Some False \<or> b = Some False" by auto
    with assms have "kleene_and a' b' = Some False" by (auto simp: refines_def)
    moreover have "kleene_and a b = Some False" using Some False by simp
    ultimately show ?thesis unfolding refines_def by metis
  qed
qed (simp add: refines_def)

lemma kleene_all_refines: "list_all2 refines ts ts' \<Longrightarrow> refines (kleene_all ts) (kleene_all ts')"
  by (induction rule: list_all2_induct)
     (auto simp: kleene_all_def kleene_and_refines, simp add: refines_def)

lemma rule_table_refines:
  assumes "\<And>c. c \<in> set gs \<union> set qs \<Longrightarrow> refines (f c) (g c)"
  shows "rule_table (map f gs) (map f qs) = UNKNOWN
    \<or> rule_table (map f gs) (map f qs) = rule_table (map g gs) (map g qs)"
proof -
  have "refines (kleene_all (map f gs)) (kleene_all (map g gs))"
    "refines (kleene_all (map f qs)) (kleene_all (map g qs))"
    using assms by (auto simp: list_all2_map1 list_all2_map2 list_all2_same intro!: kleene_all_refines)
  then show ?thesis
    unfolding refines_def rule_table_def by (elim disjE) (simp_all split: option.split bool.split)
qed

definition more_evidence :: "object_view \<Rightarrow> object_view \<Rightarrow> bool" where
  "more_evidence v v' \<longleftrightarrow>
     (\<forall>(k, a) \<in> set (ov_attributes v). dict_get (ov_attributes v') k = Some a)"

lemma truth_more_evidence:
  assumes "more_evidence v v'" and "cn_operator c \<noteq> PRESENT"
  shows "refines (truth ctx r v c) (truth ctx r v' c)"
proof -
  have keep: "dict_get (ov_attributes v') k = Some a" if "dict_get (ov_attributes v) k = Some a" for k a
    using assms(1) dict_get_Some_in [OF that] by (auto simp: more_evidence_def)
  have "uncorroborated v' ev now \<Longrightarrow> uncorroborated v ev now" for ev now
    using keep by (fastforce simp: uncorroborated_def list_ex_iff split: option.splits)
  with assms(2) keep [of "cn_attribute c"] show ?thesis
    by (auto simp: refines_def truth_def assess_def Let_def mk_outcome_def outcome_of_def
        split: option.splits)
qed

lemma truth_at_later_time:
  assumes "now \<le> now'"
  shows "refines (truth (ctx\<lparr>ec_now := now'\<rparr>) r v c) (truth (ctx\<lparr>ec_now := now\<rparr>) r v c)"
proof -
  have "uncorroborated v ev now \<Longrightarrow> uncorroborated v ev now'" for ev
    using attribute_is_stale_mono [OF _ assms]
    by (fastforce simp: uncorroborated_def list_ex_iff split: option.splits)
  moreover have "held_is_stale a ev now \<Longrightarrow> held_is_stale a ev now'" for a ev
    using attribute_is_stale_mono [OF _ assms, of a] assms
    by (auto simp: held_is_stale_def less_eq_instant_def split: if_splits option.splits)
  ultimately show ?thesis
    by (auto simp: refines_def truth_def assess_def Let_def mk_outcome_def outcome_of_def
        split: option.splits)
qed


text \<open>
  The passage of time alone never turns one verdict into another. With the same view of a
  subject, a later evaluation either repeats the earlier state or has become unknown, because
  evidence has expired.
\<close>

theorem time_only_loses_verdicts:
  assumes "check_rule r = Inr r" and "context_ok ctx" and "now \<le> now'"
  shows "\<exists>f f'. evaluate_rule s (ctx\<lparr>ec_now := now\<rparr>) label r v = Inr f
    \<and> evaluate_rule s (ctx\<lparr>ec_now := now'\<rparr>) label r v = Inr f'
    \<and> (fd_state f' = UNKNOWN \<or> fd_state f' = fd_state f)"
proof -
  have ok: "context_ok (ctx\<lparr>ec_now := t\<rparr>)" for t using assms(2) by (simp add: context_ok_def)
  let ?now = "truth (ctx\<lparr>ec_now := now\<rparr>) r v" and ?later = "truth (ctx\<lparr>ec_now := now'\<rparr>) r v"
  obtain f f' where "evaluate_rule s (ctx\<lparr>ec_now := now\<rparr>) label r v = Inr f"
    and "evaluate_rule s (ctx\<lparr>ec_now := now'\<rparr>) label r v = Inr f'"
    and "fd_state f = rule_table (map ?now (rl_when r)) (map ?now (rl_require r))"
    and "fd_state f' = rule_table (map ?later (rl_when r)) (map ?later (rl_require r))"
    using evaluate_rule_outcome [OF assms(1) ok] by blast
  moreover have "rule_table (map ?later (rl_when r)) (map ?later (rl_require r)) = UNKNOWN
    \<or> rule_table (map ?later (rl_when r)) (map ?later (rl_require r))
        = rule_table (map ?now (rl_when r)) (map ?now (rl_require r))"
    by (rule rule_table_refines) (rule truth_at_later_time [OF assms(3)])
  ultimately show ?thesis by auto
qed

section \<open>What a violation rests on\<close>

definition established :: "eval_context \<Rightarrow> rule \<Rightarrow> object_view \<Rightarrow> condition \<Rightarrow> bool \<Rightarrow> bool" where
  "established ctx r v c b \<longleftrightarrow>
     cn_attribute c \<notin> set (ec_gaps ctx)
     \<and> (if cn_operator c = PRESENT then b = (dict_get (ov_attributes v) (cn_attribute c) \<noteq> None)
        else \<exists>a. dict_get (ov_attributes v) (cn_attribute c) = Some a
          \<and> \<not> attribute_is_stale a (ec_now ctx) \<and> \<not> uncorroborated v (rl_evidence r) (ec_now ctx)
          \<and> as_text (ec_str_of ctx) (av_value a) \<notin> set (cn_unknown_values c)
          \<and> compare_values c (av_value a) = Some b)"

lemma truth_established: "truth ctx r v c = Some b \<Longrightarrow> established ctx r v c b"
  by (auto simp: truth_def assess_def established_def Let_def mk_outcome_def outcome_of_def held_is_stale_def
      split: option.splits if_splits)


section \<open>What of a rule's scope is enforced\<close>

definition rescoped :: "tenant_id \<Rightarrow> site_id list \<Rightarrow> rule \<Rightarrow> rule" where
  "rescoped t sites r = r\<lparr>rl_scope := (rl_scope r)\<lparr>rc_tenant := t, rc_sites := sites\<rparr>\<rparr>"

lemma evaluate_rule_rescoped: "evaluate_rule s ctx label (rescoped t sites r) v = evaluate_rule s ctx label r v"
proof -
  have "make_finding s (rescoped t sites r) = make_finding s r"
    by (intro ext) (simp add: make_finding_def rescoped_def)
  moreover have "rl_when (rescoped t sites r) = rl_when r" "rl_require (rescoped t sites r) = rl_require r"
    "rl_evidence (rescoped t sites r) = rl_evidence r"
    by (simp_all add: rescoped_def)
  ultimately show ?thesis unfolding evaluate_rule_def by (simp only:)
qed

lemma evaluate_rule_set_version:
  assumes "rs_version s = rs_version s'"
  shows "evaluate_rule s ctx label r v = evaluate_rule s' ctx label r v"
proof -
  have "make_finding s = make_finding s'"
    using assms by (intro ext) (simp add: make_finding_def)
  then show ?thesis unfolding evaluate_rule_def by (simp only:)
qed

text \<open>
  The tenant and the sites a rule is scoped to have no effect. Replacing them in every rule of
  a rule set, by anything, changes no finding for any subject: of the scope, the evaluator reads
  the cameras only.
\<close>

theorem rule_tenant_and_sites_are_ignored:
  "evaluate (s\<lparr>rs_rules := map (rescoped t sites) (rs_rules s)\<rparr>) ctx labels views = evaluate s ctx labels views"
proof -
  let ?s = "s\<lparr>rs_rules := map (rescoped t sites) (rs_rules s)\<rparr>"
  have cover: "covers_class (rescoped t sites r) c = covers_class r c"
    "rule_covers_camera (rl_scope (rescoped t sites r)) k = rule_covers_camera (rl_scope r) k" for r c k
    by (simp_all add: covers_class_def rescoped_def rule_covers_camera_def)
  have "evaluate_rule ?s ctx label r v = evaluate_rule s ctx label r v" for label r v
    by (rule evaluate_rule_set_version) simp
  then have "evaluate_object ?s ctx label v = evaluate_object s ctx label v" for label v
    by (simp add: evaluate_object_def for_class_def filter_map comp_def cover evaluate_rule_rescoped)
  then show ?thesis by (simp add: evaluate_def)
qed

section \<open>Examples\<close>

definition example_condition :: condition where
  "example_condition = \<lparr>cn_attribute = ''h'', cn_operator = EQ, cn_expected = VStr ''y'',
     cn_message = [], cn_unknown_values = [''u'']\<rparr>"

definition example_rule :: rule where
  "example_rule = \<lparr>rl_id = ''r'', rl_version = ''1'', rl_require = [example_condition], rl_when = [],
     rl_classes = [], rl_scope = \<lparr>rc_tenant = [], rc_sites = [], rc_cameras = []\<rparr>,
     rl_evidence = \<lparr>er_max_staleness = Some (Duration 5), er_requires = [], er_full_coverage = False\<rparr>,
     rl_severity = []\<rparr>"

definition example_confidence :: confidence where
  "example_confidence = \<lparr>cf_value = 1 / 2, cf_semantics = ATTRIBUTE_CONFIDENCE, cf_calibrated = False,
     cf_calibration_id = None, cf_raw_score = None\<rparr>"

definition example_view :: "(attribute_key, attribute_view) dict \<Rightarrow> object_view" where
  "example_view attrs = \<lparr>ov_object_id = ''o'', ov_class_id = ''p'', ov_class_confidence = example_confidence,
     ov_lifecycle = ACTIVE, ov_camera_id = ''c'',
     ov_first_seen = Instant 0, ov_last_seen = Instant 0, ov_last_confirmed = Instant 0,
     ov_attributes = attrs, ov_observation_count = 1\<rparr>"

definition example_held :: "string \<Rightarrow> attribute_view" where
  "example_held s = \<lparr>av_key = ''h'', av_value = VStr s, av_confidence = example_confidence, av_observed_at = Instant 0,
     av_valid_until = None, av_evidence_ref = None\<rparr>"

definition example_context :: eval_context where
  "example_context = \<lparr>ec_str_of = \<lambda>_. [], ec_now = Instant 1, ec_coverage = None, ec_gaps = []\<rparr>"

definition example_rules :: rule_set where
  "example_rules = \<lparr>rs_version = ''1'', rs_rules = [example_rule]\<rparr>"

lemma example_rule_ok: "check_rule example_rule = Inr example_rule" "context_ok example_context"
  by (simp_all add: check_rule_def example_rule_def context_ok_def example_context_def)

theorem evaluate_rule_is_kleene_witness:
  "\<exists>f. evaluate_rule example_rules example_context [] example_rule (example_view [(''h'', example_held ''n'')]) = Inr f
     \<and> fd_state f = VIOLATION"
proof -
  have "rule_table
      (map (truth example_context example_rule (example_view [(''h'', example_held ''n'')])) (rl_when example_rule))
      (map (truth example_context example_rule (example_view [(''h'', example_held ''n'')])) (rl_require example_rule))
    = VIOLATION" by code_simp
  then show ?thesis
    using evaluate_rule_is_kleene [OF example_rule_ok, of example_rules "[]"] by metis
qed


theorem time_only_loses_verdicts_witness:
  "\<exists>f f'. evaluate_rule example_rules (example_context\<lparr>ec_now := Instant 1\<rparr>) [] example_rule
        (example_view [(''h'', example_held ''y'')]) = Inr f
     \<and> evaluate_rule example_rules (example_context\<lparr>ec_now := Instant 9\<rparr>) [] example_rule
        (example_view [(''h'', example_held ''y'')]) = Inr f'
     \<and> (fd_state f' = UNKNOWN \<or> fd_state f' = fd_state f)"
  by (rule time_only_loses_verdicts [OF example_rule_ok]) (simp add: less_eq_instant_def)


end
