(* ===== verification/Authorization.thy ===== *)
theory Authorization
  imports Api_Model
begin

text \<open>
  Authorization (\<^verbatim>\<open>vision_os/core/ports/exposure.py\<close> and
  \<^verbatim>\<open>vision_os/adapters/exposure/authorization.py\<close>): the decision type of the port, the three
  authorizers and the grants. The port's contract is the locale \<open>authorization_port\<close>: a decision
  is always reached for a checked principal and scope, and a granted scope is in the tenant of
  both. \<open>narrowing_port\<close> adds what the port's documentation promises of the granted scope, that it
  is no wider than the request; of the three authorizers only \<open>DenyAll\<close> and
  \<open>AllowReadsWithinTenant\<close> keep it. Reasons are modelled as present, without their text.
\<close>

section \<open>Decisions\<close>

record decision =
  de_granted :: bool
  de_scope :: scope
  de_reason :: string

definition mk_decision :: "decision \<Rightarrow> decision result" where
  "mk_decision d = (if \<not> de_granted d \<and> de_reason d = [] then Inl ValueError else Inr d)"

definition denied :: "decision \<Rightarrow> bool" where
  "denied d \<longleftrightarrow> \<not> de_granted d"

definition tenant_scope :: "tenant_id \<Rightarrow> scope" where
  "tenant_scope t = \<lparr>sc_tenant = t, sc_sites = [], sc_cameras = [], sc_regions = []\<rparr>"

definition deny :: "principal \<Rightarrow> string \<Rightarrow> decision result" where
  "deny p why =
     bind_result (mk_scope (tenant_scope (pr_tenant p)))
       (\<lambda>s. mk_decision \<lparr>de_granted = False, de_scope = s, de_reason = why\<rparr>)"

definition grant_scope :: "scope \<Rightarrow> decision result" where
  "grant_scope s =
     bind_result (mk_scope s) (\<lambda>s. mk_decision \<lparr>de_granted = True, de_scope = s, de_reason = []\<rparr>)"

section \<open>Grants and the static authorizer\<close>

record grant =
  gr_subject :: string
  gr_tenant :: tenant_id
  gr_actions :: "action set"
  gr_cameras :: "camera_id list"
  gr_regions :: "string list"

definition mk_grant :: "grant \<Rightarrow> grant result" where
  "mk_grant g =
     (if gr_subject g = [] then Inl ValueError
      else if gr_tenant g = [] then Inl ValueError else Inr g)"

definition permits :: "grant \<Rightarrow> action \<Rightarrow> bool" where
  "permits g a \<longleftrightarrow> a \<in> gr_actions g"

definition grant_covers :: "grant \<Rightarrow> camera_id \<Rightarrow> bool" where
  "grant_covers g c \<longleftrightarrow> gr_cameras g = [] \<or> c \<in> set (gr_cameras g)"

definition read_actions :: "action set" where
  "read_actions = {READ_STATE, READ_OBSERVATIONS, READ_COVERAGE, READ_CAPABILITY, SUBSCRIBE}"

definition read_only_grant :: "string \<Rightarrow> tenant_id \<Rightarrow> camera_id list \<Rightarrow> grant result" where
  "read_only_grant subject t cameras =
     mk_grant \<lparr>gr_subject = subject, gr_tenant = t, gr_actions = read_actions, gr_cameras = cameras,
       gr_regions = []\<rparr>"

definition full_grant :: "string \<Rightarrow> tenant_id \<Rightarrow> camera_id list \<Rightarrow> grant result" where
  "full_grant subject t cameras =
     mk_grant \<lparr>gr_subject = subject, gr_tenant = t,
       gr_actions = {READ_STATE, READ_OBSERVATIONS, READ_EVIDENCE, SUBSCRIBE, REGISTER_DEMAND,
         READ_CAPABILITY, READ_COVERAGE},
       gr_cameras = cameras, gr_regions = []\<rparr>"

type_synonym grants = "(string, grant) dict"

definition add_grant :: "grant \<Rightarrow> grants \<Rightarrow> grants" where
  "add_grant g gs = dict_set (gr_subject g) g gs"

definition static_init :: "grant list \<Rightarrow> grants" where
  "static_init gs = fold add_grant gs []"

definition narrow :: "grant \<Rightarrow> scope \<Rightarrow> scope" where
  "narrow g s =
     (let cameras =
        (if gr_cameras g \<noteq> [] \<and> sc_cameras s \<noteq> []
         then filter (\<lambda>c. c \<in> set (gr_cameras g)) (sc_cameras s)
         else if gr_cameras g \<noteq> [] then gr_cameras g
         else sc_cameras s)
      in \<lparr>sc_tenant = sc_tenant s, sc_sites = sc_sites s, sc_cameras = cameras,
          sc_regions = sc_regions s\<rparr>)"

definition static_authorize :: "grants \<Rightarrow> principal \<Rightarrow> action \<Rightarrow> scope \<Rightarrow> decision result" where
  "static_authorize gs p a s =
     (if pr_tenant p \<noteq> sc_tenant s then deny p ''cross-tenant''
      else case dict_get gs (pr_subject p) of
             None \<Rightarrow> deny p ''no grant''
           | Some g \<Rightarrow>
               if gr_tenant g \<noteq> pr_tenant p then deny p ''grant of another tenant''
               else if \<not> permits g a then deny p ''no permission''
               else grant_scope (narrow g s))"

definition static_visible_cameras :: "grants \<Rightarrow> principal \<Rightarrow> scope \<Rightarrow> camera_id list" where
  "static_visible_cameras gs p s =
     (case dict_get gs (pr_subject p) of
        None \<Rightarrow> []
      | Some g \<Rightarrow>
          if gr_tenant g \<noteq> pr_tenant p then []
          else if gr_cameras g = [] then sc_cameras s
          else if sc_cameras s = [] then gr_cameras g
          else filter (grant_covers g) (sc_cameras s))"

section \<open>The other two authorizers\<close>

definition deny_all_authorize :: "principal \<Rightarrow> action \<Rightarrow> scope \<Rightarrow> decision result" where
  "deny_all_authorize p a s = deny p ''no authorization model''"

definition tenant_reads_authorize :: "principal \<Rightarrow> action \<Rightarrow> scope \<Rightarrow> decision result" where
  "tenant_reads_authorize p a s =
     (if pr_tenant p \<noteq> sc_tenant s then deny p ''cross-tenant''
      else if a \<notin> read_actions then deny p ''requires a grant''
      else mk_decision \<lparr>de_granted = True, de_scope = s, de_reason = []\<rparr>)"

section \<open>The contract of the port\<close>

locale authorization_port =
  fixes authorize :: "principal \<Rightarrow> action \<Rightarrow> scope \<Rightarrow> decision result"
  assumes decides:
      "mk_principal p = Inr p \<Longrightarrow> mk_scope s = Inr s \<Longrightarrow> \<exists>d. authorize p a s = Inr d"
    and in_tenant:
      "authorize p a s = Inr d \<Longrightarrow> de_granted d
       \<Longrightarrow> pr_tenant p = sc_tenant s \<and> sc_tenant (de_scope d) = sc_tenant s"
begin

lemma cross_tenant_denied:
  assumes "mk_principal p = Inr p" and "mk_scope s = Inr s" and "pr_tenant p \<noteq> sc_tenant s"
  shows "\<exists>d. authorize p a s = Inr d \<and> denied d"
  using decides [OF assms(1,2), of a] in_tenant [of p a s] assms(3) by (auto simp: denied_def)

end

locale narrowing_port = authorization_port +
  assumes narrows:
    "authorize p a s = Inr d \<Longrightarrow> de_granted d \<Longrightarrow> scope_covers_camera (de_scope d) c
     \<Longrightarrow> scope_covers_camera s c"
begin

text \<open>What is covered after two requests in a row was covered by the first request.\<close>

lemma narrows_twice:
  assumes "authorize p a s = Inr d" and "de_granted d" and "authorize p b (de_scope d) = Inr e"
    and "de_granted e" and "scope_covers_camera (de_scope e) c"
  shows "scope_covers_camera s c"
  using assms narrows by blast

end

lemmas decision_defs = deny_def grant_scope_def mk_decision_def mk_scope_def tenant_scope_def

lemma deny_Inr: "deny p why = Inr d \<Longrightarrow> \<not> de_granted d"
  by (auto simp: decision_defs split: if_splits)

lemma deny_decides: "mk_principal p = Inr p \<Longrightarrow> why \<noteq> [] \<Longrightarrow> \<exists>d. deny p why = Inr d"
  by (auto simp: decision_defs mk_principal_def split: if_splits)

lemma grant_scope_Inr: "grant_scope s = Inr d \<Longrightarrow> de_granted d \<and> de_scope d = s"
  by (auto simp: decision_defs split: if_splits)

lemma narrow_tenant [simp]: "sc_tenant (narrow g s) = sc_tenant s"
  by (simp add: narrow_def)

lemma static_granted:
  assumes "static_authorize gs p a s = Inr d" and "de_granted d"
  obtains g where "dict_get gs (pr_subject p) = Some g" and "gr_tenant g = pr_tenant p"
    and "pr_tenant p = sc_tenant s" and "permits g a" and "de_scope d = narrow g s"
  using assms unfolding static_authorize_def
  by (auto dest: deny_Inr grant_scope_Inr split: if_splits option.splits)

lemma static_decides:
  assumes "mk_principal p = Inr p" and "mk_scope s = Inr s"
  shows "\<exists>d. static_authorize gs p a s = Inr d"
  using assms deny_decides [OF assms(1)]
  by (auto simp: static_authorize_def grant_scope_def mk_scope_def mk_decision_def
      split: if_splits option.splits)

interpretation static: authorization_port "static_authorize gs" for gs
proof
  show "\<exists>d. static_authorize gs p a s = Inr d"
    if "mk_principal p = Inr p" and "mk_scope s = Inr s" for p s a
    using that by (rule static_decides)
  show "pr_tenant p = sc_tenant s \<and> sc_tenant (de_scope d) = sc_tenant s"
    if "static_authorize gs p a s = Inr d" and "de_granted d" for p a s d
    using that by (auto elim: static_granted)
qed

interpretation deny_all: narrowing_port deny_all_authorize
  by unfold_locales (auto simp: deny_all_authorize_def intro: deny_decides dest: deny_Inr)

interpretation tenant_reads: narrowing_port tenant_reads_authorize
proof
  show "\<exists>d. tenant_reads_authorize p a s = Inr d" if "mk_principal p = Inr p" for p a s
    using deny_decides [OF that] by (auto simp: tenant_reads_authorize_def mk_decision_def)
qed (auto simp: tenant_reads_authorize_def mk_decision_def dest: deny_Inr split: if_splits)

section \<open>What the static authorizer grants\<close>

definition disjoint_request :: "grant \<Rightarrow> scope \<Rightarrow> bool" where
  "disjoint_request g s \<longleftrightarrow>
     gr_cameras g \<noteq> [] \<and> sc_cameras s \<noteq> [] \<and> set (gr_cameras g) \<inter> set (sc_cameras s) = {}"

lemma narrow_covers:
  "scope_covers_camera (narrow g s) c \<longleftrightarrow>
     disjoint_request g s \<or> (scope_covers_camera s c \<and> grant_covers g c)"
  by (auto simp: narrow_def scope_covers_camera_def grant_covers_def disjoint_request_def Let_def
      filter_empty_conv)

text \<open>
  C14: the scope a static authorizer grants, exactly. When a checked principal's request is granted,
  the request is in its own tenant, some grant of that tenant permits the action, and the granted
  scope covers a camera exactly when both the request and the grant cover it, with one exception:
  if grant and request name cameras and have none in common, the granted scope names no camera and
  so covers every camera.
\<close>

theorem static_grant_exact:
  assumes "static_authorize gs p a s = Inr d" and "de_granted d"
  shows "\<exists>g. dict_get gs (pr_subject p) = Some g \<and> gr_tenant g = pr_tenant p \<and> permits g a
    \<and> pr_tenant p = sc_tenant s \<and> sc_tenant (de_scope d) = pr_tenant p
    \<and> (\<forall>c. scope_covers_camera (de_scope d) c \<longleftrightarrow>
          disjoint_request g s \<or> (scope_covers_camera s c \<and> grant_covers g c))"
  using assms by (elim static_granted) (auto simp: narrow_covers)

definition example_grant :: grant where
  "example_grant =
     \<lparr>gr_subject = ''guard'', gr_tenant = ''acme'', gr_actions = read_actions,
      gr_cameras = [''cam-1''], gr_regions = []\<rparr>"

definition example_principal :: principal where
  "example_principal =
     \<lparr>pr_subject = ''guard'', pr_tenant = ''acme'', pr_scopes = [], pr_display_name = []\<rparr>"

definition camera_scope :: "tenant_id \<Rightarrow> camera_id list \<Rightarrow> scope" where
  "camera_scope t cs = \<lparr>sc_tenant = t, sc_sites = [], sc_cameras = cs, sc_regions = []\<rparr>"

definition example_decision :: "camera_id list \<Rightarrow> decision" where
  "example_decision cs = \<lparr>de_granted = True, de_scope = camera_scope ''acme'' cs, de_reason = []\<rparr>"

lemmas authorization_example_defs = example_grant_def example_principal_def camera_scope_def
  example_decision_def static_init_def add_grant_def static_authorize_def narrow_def permits_def
  read_actions_def grant_scope_def mk_scope_def mk_decision_def dict_set_def dict_get_def

lemma example_static_decision:
  "static_authorize (static_init [example_grant]) example_principal READ_STATE
     (camera_scope ''acme'' [''cam-1'', ''cam-2'']) = Inr (example_decision [''cam-1''])"
  "static_authorize (static_init [example_grant]) example_principal READ_STATE
     (camera_scope ''acme'' [''cam-2'']) = Inr (example_decision [])"
  by (simp_all add: authorization_example_defs)

theorem static_grant_exact_witness:
  "\<not> scope_covers_camera (de_scope (example_decision [''cam-1''])) ''cam-2''
   \<and> scope_covers_camera (de_scope (example_decision [])) ''cam-3''"
proof
  show "\<not> scope_covers_camera (de_scope (example_decision [''cam-1''])) ''cam-2''"
    using static_grant_exact [OF example_static_decision(1)]
    by (auto simp: authorization_example_defs disjoint_request_def grant_covers_def)
  show "scope_covers_camera (de_scope (example_decision [])) ''cam-3''"
    using static_grant_exact [OF example_static_decision(2)]
    by (auto simp: authorization_example_defs disjoint_request_def grant_covers_def)
qed

end
