(* ===== verification/Observation.thy ===== *)
theory Observation
  imports Api_Model Track_Table
begin

text \<open>
  Observations (\<^verbatim>\<open>vision_os/core/model/observation.py\<close>) with the attributes
  (\<^verbatim>\<open>visual_object.py\<close>) they carry, their constructors' checks, and the two filters of
  \<^verbatim>\<open>api.py\<close> that select them. Quality grades, of which the modelled code tests only the
  presence, are kept as that presence; fields that no modelled code reads (timing, publication
  time, track id, taxonomy version, demand ids, labels) are left out.
\<close>

section \<open>Attributes\<close>

record attribute =
  at_key :: attribute_key
  at_schema_version :: string
  at_value :: py_value
  at_confidence :: confidence
  at_observed_at :: instant
  at_producer :: provenance
  at_valid_until :: "instant option"
  at_evidence_ref :: "string option"
  at_superseded_by :: "string option"

definition attribute_semantics_ok :: "attribute \<Rightarrow> bool" where
  "attribute_semantics_ok a \<longleftrightarrow> cf_semantics (at_confidence a) \<in> {ATTRIBUTE_CONFIDENCE, SELF_REPORTED}"

definition mk_attribute :: "attribute \<Rightarrow> attribute result" where
  "mk_attribute a = (if \<not> attribute_semantics_ok a then Inl ValueError else Inr a)"

definition at_is_stale :: "attribute \<Rightarrow> instant \<Rightarrow> bool" where
  "at_is_stale a now =
     (case at_valid_until a of None \<Rightarrow> False | Some u \<Rightarrow> instant_ns now > instant_ns u)"

definition at_staleness :: "attribute \<Rightarrow> instant \<Rightarrow> duration" where
  "at_staleness a now = Duration (max 0 (instant_ns now - instant_ns (at_observed_at a)))"

section \<open>Coverage windows\<close>

datatype observability_status = OBSERVING | DEGRADED | BLIND | DISCONNECTED

definition is_observing :: "observability_status \<Rightarrow> bool" where
  "is_observing s \<longleftrightarrow> s = OBSERVING"

datatype observability_reason =
    NORMAL | STREAM_DISCONNECTED | DECODE_FAILING | PRIVACY_MASK_FAILED | SCHEDULER_SHEDDING
  | DETECTOR_UNAVAILABLE | UNDERSTANDING_BUDGET_EXHAUSTED | SCENE_OBSCURED | CALIBRATION_SUSPECT
  | MODEL_CAPABILITY_GAP | REASON_PARTITION_UNAVAILABLE | RESTART

record coverage_window =
  cw_status :: observability_status
  cw_reason :: observability_reason
  cw_since :: instant
  cw_effective_rate :: rat
  cw_regions :: "region_id list"
  cw_capability_gaps :: "(string \<times> string) list"
  cw_until :: "instant option"

definition mk_coverage_window :: "coverage_window \<Rightarrow> coverage_window result" where
  "mk_coverage_window w =
     (if \<not> (0 \<le> cw_effective_rate w \<and> cw_effective_rate w \<le> 1) then Inl ValueError
      else if is_observing (cw_status w) \<and> cw_reason w \<noteq> NORMAL then Inl ValueError
      else Inr w)"

definition is_gap :: "coverage_window \<Rightarrow> bool" where
  "is_gap w \<longleftrightarrow> \<not> is_observing (cw_status w)"

fun blind_ns :: "instant \<Rightarrow> instant \<Rightarrow> coverage_window list \<Rightarrow> int" where
  "blind_ns s u [] = 0"
| "blind_ns s u (w # ws) =
     (if \<not> is_gap w then blind_ns s u ws
      else max 0 (min (instant_ns (case cw_until w of None \<Rightarrow> u | Some e \<Rightarrow> e)) (instant_ns u)
             - max (instant_ns (cw_since w)) (instant_ns s)) + blind_ns s u ws)"

definition coverage_gap :: "coverage_window list \<Rightarrow> instant \<Rightarrow> instant \<Rightarrow> rat" where
  "coverage_gap ws s u =
     (let span = max 1 (instant_ns u - instant_ns s)
      in max 0 (min 1 (1 - of_int (blind_ns s u ws) / of_int span)))"

lemma coverage_gap_unit: "0 \<le> coverage_gap ws s u \<and> coverage_gap ws s u \<le> 1"
  by (simp add: coverage_gap_def Let_def)

section \<open>Spatial information, identity, evidence\<close>

datatype measurement_basis = MEASURED | PREDICTED | INTERPOLATED

definition is_direct :: "measurement_basis \<Rightarrow> bool" where
  "is_direct b \<longleftrightarrow> b = MEASURED"

record spatial_info =
  sp_normalized :: bool
  sp_bbox :: "box option"
  sp_calibration_id :: "string option"
  sp_ground_point :: "(rat \<times> rat) option"
  sp_ground_uncertainty :: "(rat \<times> rat \<times> rat) option"

definition mk_spatial_info :: "spatial_info \<Rightarrow> spatial_info result" where
  "mk_spatial_info sp =
     (if \<not> sp_normalized sp \<and> sp_calibration_id sp = None then Inl ValueError
      else if sp_ground_point sp \<noteq> None \<and> sp_ground_uncertainty sp = None then Inl ValueError
      else Inr sp)"

definition bottom_centre :: "box \<Rightarrow> rat \<times> rat" where
  "bottom_centre b = ((box_x1 b + box_x2 b) / 2, box_y2 b)"

record identity_ref =
  ir_method :: string
  ir_ambiguous :: bool
  ir_alternatives :: int

definition mk_identity_ref :: "identity_ref \<Rightarrow> identity_ref result" where
  "mk_identity_ref r = (if ir_ambiguous r \<and> ir_alternatives r < 1 then Inl ValueError else Inr r)"

record object_transition_ref =
  lr_previous :: lifecycle_state
  lr_current :: lifecycle_state
  lr_trigger :: string

definition mk_object_transition_ref :: "object_transition_ref \<Rightarrow> object_transition_ref result" where
  "mk_object_transition_ref r = (if lr_previous r = lr_current r then Inl ValueError else Inr r)"

record evidence_ref =
  er_evidence_id :: string
  er_status :: string

definition mk_evidence_ref :: "evidence_ref \<Rightarrow> evidence_ref result" where
  "mk_evidence_ref e =
     (if er_evidence_id e = [] then Inl ValueError
      else if er_status e \<notin> {''stored'', ''pending'', ''unavailable''} then Inl ValueError
      else Inr e)"

section \<open>Observations\<close>

datatype observation_type = PRESENCE | SPATIAL | ATTRIBUTE | IDENTITY | LIFECYCLE | QUALITY | COVERAGE

definition all_observation_types :: "observation_type list" where
  "all_observation_types = [PRESENCE, SPATIAL, ATTRIBUTE, IDENTITY, LIFECYCLE, QUALITY, COVERAGE]"

lemma all_observation_types [simp]: "k \<in> set all_observation_types"
  by (cases k) (simp_all add: all_observation_types_def)

definition concerns_an_object :: "observation_type \<Rightarrow> bool" where
  "concerns_an_object k \<longleftrightarrow> k \<noteq> COVERAGE"

type_synonym observation_id = string

record observation =
  ob_id :: observation_id
  ob_type :: observation_type
  ob_tenant :: tenant_id
  ob_site :: site_id
  ob_camera :: camera_id
  ob_frame :: frame_ref
  ob_t_capture :: instant
  ob_t_capture_unc :: duration
  ob_provenance :: provenance
  ob_object :: "object_id option"
  ob_class :: "class_id option"
  ob_lifecycle_state :: "lifecycle_state option"
  ob_confidence :: "confidence option"
  ob_spatial :: "spatial_info option"
  ob_attributes :: "attribute list"
  ob_basis :: measurement_basis
  ob_has_quality :: bool
  ob_coverage :: "coverage_window option"
  ob_transition :: "object_transition_ref option"
  ob_identity :: "identity_ref option"
  ob_evidence_ref :: "evidence_ref option"
  ob_lineage :: "observation_id list"
  ob_supersedes :: "observation_id option"

definition check_type_payload :: "observation \<Rightarrow> unit result" where
  "check_type_payload ob =
     (if concerns_an_object (ob_type ob) \<and> ob_object ob = None then Inl ValueError
      else if ob_type ob = COVERAGE then
        (if ob_coverage ob = None then Inl ValueError
         else if ob_object ob \<noteq> None then Inl ValueError else Inr ())
      else if ob_type ob = LIFECYCLE \<and> ob_transition ob = None then Inl ValueError
      else if ob_type ob = IDENTITY \<and> ob_identity ob = None then Inl ValueError
      else if ob_type ob = ATTRIBUTE \<and> ob_attributes ob = [] then Inl ValueError
      else if ob_type ob = QUALITY \<and> \<not> ob_has_quality ob then Inl ValueError
      else if ob_type ob \<in> {PRESENCE, SPATIAL} \<and> ob_spatial ob = None then Inl ValueError
      else Inr ())"

definition check_attributes :: "observation \<Rightarrow> unit result" where
  "check_attributes ob = (if list_all attribute_semantics_ok (ob_attributes ob) then Inr () else Inl ValueError)"

definition mk_observation :: "observation \<Rightarrow> observation result" where
  "mk_observation ob =
     (if ob_id ob = [] then Inl ValueError
      else if pv_producer_module (ob_provenance ob) = [] then Inl ValueError
      else if pv_config_revision (ob_provenance ob) = [] then Inl ValueError
      else if fr_camera (ob_frame ob) \<noteq> ob_camera ob then Inl ValueError
      else if duration_ns (ob_t_capture_unc ob) < 0 then Inl ValueError
      else bind_result (check_type_payload ob) (\<lambda>_.
           bind_result (check_attributes ob) (\<lambda>_.
             if ob_supersedes ob = Some (ob_id ob) then Inl ValueError
             else if ob_id ob \<in> set (ob_lineage ob) then Inl ValueError
             else Inr ob)))"

definition is_measured :: "observation \<Rightarrow> bool" where
  "is_measured ob \<longleftrightarrow> is_direct (ob_basis ob)"

definition is_correction :: "observation \<Rightarrow> bool" where
  "is_correction ob \<longleftrightarrow> ob_supersedes ob \<noteq> None"

text \<open>What a constructed observation is: about exactly one of an object or the platform's sight.\<close>

lemma mk_observation_subject:
  assumes "mk_observation ob = Inr ob'"
  shows "ob' = ob \<and> (ob_object ob = None \<longleftrightarrow> ob_type ob = COVERAGE) \<and> (ob_type ob = COVERAGE \<longrightarrow> ob_coverage ob \<noteq> None)"
  using assms
  by (auto simp: mk_observation_def check_type_payload_def concerns_an_object_def result_simps split: if_splits)

section \<open>Filters\<close>

record observation_filter =
  of_types :: "observation_type list"
  of_objects :: "object_id list"
  of_classes :: "class_id list"
  of_attribute_keys :: "attribute_key list"
  of_min_confidence :: "rat option"
  of_producer :: "string option"
  of_include_superseded :: bool

definition has_attribute_in :: "attribute_key list \<Rightarrow> observation \<Rightarrow> bool" where
  "has_attribute_in ks ob \<longleftrightarrow> (\<exists>a \<in> set (ob_attributes ob). at_key a \<in> set ks)"

definition object_in :: "object_id list \<Rightarrow> observation \<Rightarrow> bool" where
  "object_in os ob = (case ob_object ob of None \<Rightarrow> False | Some x \<Rightarrow> x \<in> set os)"

definition observation_filter_matches :: "observation_filter \<Rightarrow> observation \<Rightarrow> bool" where
  "observation_filter_matches f ob =
     (if of_types f \<noteq> [] \<and> ob_type ob \<notin> set (of_types f) then False
      else if of_objects f \<noteq> [] \<and> \<not> object_in (of_objects f) ob then False
      else if of_classes f \<noteq> [] \<and> \<not> class_matches (ob_class ob) (of_classes f) then False
      else if of_attribute_keys f \<noteq> [] \<and> \<not> has_attribute_in (of_attribute_keys f) ob then False
      else if (case of_producer f of None \<Rightarrow> False
                 | Some q \<Rightarrow> q \<noteq> [] \<and> (case pv_model_id (ob_provenance ob) of None \<Rightarrow> [] | Some m \<Rightarrow> m) \<noteq> q)
      then False
      else case of_min_confidence f of
             None \<Rightarrow> True
           | Some lowest \<Rightarrow>
               (case ob_confidence ob of
                  None \<Rightarrow> False
                | Some c \<Rightarrow> if \<not> cf_calibrated c then False else \<not> cf_value c < lowest))"

record subscription_filter =
  sf_types :: "observation_type list"
  sf_classes :: "class_id list"
  sf_objects :: "object_id list"
  sf_attribute_keys :: "attribute_key list"

definition subscription_filter_matches :: "subscription_filter \<Rightarrow> observation \<Rightarrow> bool" where
  "subscription_filter_matches f ob =
     (if sf_types f \<noteq> [] \<and> ob_type ob \<notin> set (sf_types f) then False
      else if sf_classes f \<noteq> [] \<and> \<not> class_matches (ob_class ob) (sf_classes f) then False
      else if sf_objects f \<noteq> [] \<and> \<not> object_in (sf_objects f) ob then False
      else if sf_attribute_keys f \<noteq> [] \<and> \<not> has_attribute_in (sf_attribute_keys f) ob then False
      else True)"

section \<open>Examples\<close>

definition example_observation :: "observation_id \<Rightarrow> tenant_id \<Rightarrow> camera_id \<Rightarrow> object_id \<Rightarrow> int \<Rightarrow> observation" where
  "example_observation i ten cam x ns =
     \<lparr>ob_id = i, ob_type = PRESENCE, ob_tenant = ten, ob_site = ''site'', ob_camera = cam,
      ob_frame = FrameRef cam 0 1, ob_t_capture = Instant ns, ob_t_capture_unc = Duration 0,
      ob_provenance = \<lparr>pv_producer_module = ''m'', pv_producer_version = ''1'', pv_config_revision = ''c'',
        pv_model_id = None, pv_model_artifact_hash = None\<rparr>,
      ob_object = Some x, ob_class = Some ''person'', ob_lifecycle_state = None, ob_confidence = None,
      ob_spatial = Some \<lparr>sp_normalized = True, sp_bbox = None, sp_calibration_id = None,
        sp_ground_point = None, sp_ground_uncertainty = None\<rparr>,
      ob_attributes = [], ob_basis = MEASURED, ob_has_quality = False, ob_coverage = None,
      ob_transition = None, ob_identity = None, ob_evidence_ref = None, ob_lineage = [], ob_supersedes = None\<rparr>"

end
