(* ===== verification/Gap_Queue.thy ===== *)
theory Gap_Queue
  imports Prelude
begin

text \<open>
  Bounded queues that report what they drop. The Observation API's subscriptions and the event
  bus's subscriptions both evict from the front of their queue when it is full and put a marker
  with the number of lost messages before the next drain. The locale \<open>gap_queue\<close> is what the two
  have in common; it is interpreted on both.
\<close>

text \<open>
  A log holds, for every drain, how many messages the marker said were missed and the messages that
  followed. \<open>accounted\<close> reads a log against the messages that were offered: at every drain it skips as
  many offered messages as were reported missed, expects the delivered messages next and in order,
  and returns what has not been reached.
\<close>

type_synonym 'm gap_log = "(nat \<times> 'm list) list"

fun accounted :: "'m gap_log \<Rightarrow> 'm list \<Rightarrow> 'm list option" where
  "accounted [] xs = Some xs"
| "accounted ((g, ms) # ds) xs =
     (let ys = drop g xs
      in if g \<le> length xs \<and> take (length ms) ys = ms then accounted ds (drop (length ms) ys) else None)"

lemma accounted_append: "accounted ds xs = Some ys \<Longrightarrow> accounted ds (xs @ zs) = Some (ys @ zs)"
proof (induction ds xs rule: accounted.induct)
  case (2 g ms ds xs)
  then have le: "g \<le> length xs" and ms: "take (length ms) (drop g xs) = ms"
    and rest: "accounted ds (drop (length ms) (drop g xs)) = Some ys"
    by (auto simp: Let_def split: if_splits)
  from ms have "length ms \<le> length (drop g xs)" by (metis nat_le_linear take_all length_take min.absorb_iff2)
  with le ms rest 2(1) show ?case by (simp add: Let_def)
qed simp

lemma accounted_snoc:
  "accounted (d # ds) xs = (case accounted [d] xs of None \<Rightarrow> None | Some ys \<Rightarrow> accounted ds ys)"
  by (cases d) (simp add: Let_def)

lemma accounted_concat:
  "accounted (ds @ es) xs = (case accounted ds xs of None \<Rightarrow> None | Some ys \<Rightarrow> accounted es ys)"
  by (induction ds xs rule: accounted.induct) (simp_all add: Let_def)

text \<open>The number of messages a log delivers and the number it reports missed add up to those it passes.\<close>

lemma accounted_length:
  "accounted ds xs = Some ys \<Longrightarrow> length xs = sum_list (map (\<lambda>(g, ms). g + length ms) ds) + length ys"
proof (induction ds xs rule: accounted.induct)
  case (2 g ms ds xs)
  then have le: "g \<le> length xs" and ms: "take (length ms) (drop g xs) = ms"
    and rest: "length (drop (length ms) (drop g xs)) = sum_list (map (\<lambda>(g, ms). g + length ms) ds) + length ys"
    by (auto simp: Let_def split: if_splits)
  from ms have "length ms \<le> length xs - g" by (metis length_drop length_take min.cobounded2 min.commute)
  with le rest show ?case by simp
qed simp

datatype ('i, 'd) queue_op = Put 'i | Take 'd

locale gap_queue =
  fixes queue :: "'s \<Rightarrow> 'm list" and missed :: "'s \<Rightarrow> nat" and message :: "'i \<Rightarrow> 'm"
    and put :: "'i \<Rightarrow> 's \<Rightarrow> 's" and take_out :: "'d \<Rightarrow> 's \<Rightarrow> (nat \<times> 'm list) \<times> 's" and usable :: "'s \<Rightarrow> bool"
  assumes put_usable: "usable s \<Longrightarrow> usable (put i s)"
    and put_evicts: "usable s \<Longrightarrow>
      \<exists>k \<le> length (queue s). missed (put i s) = missed s + k \<and> queue (put i s) = drop k (queue s @ [message i])"
    and take_usable: "usable s \<Longrightarrow> usable (snd (take_out d s))"
    and take_reports: "usable s \<Longrightarrow> fst (fst (take_out d s)) = missed s \<and> missed (snd (take_out d s)) = 0"
    and take_front: "usable s \<Longrightarrow>
      \<exists>n. snd (fst (take_out d s)) = take n (queue s) \<and> queue (snd (take_out d s)) = drop n (queue s)"
begin

fun run :: "('i, 'd) queue_op list \<Rightarrow> 's \<Rightarrow> 'm gap_log \<times> 's" where
  "run [] s = ([], s)"
| "run (Put i # ops) s = run ops (put i s)"
| "run (Take d # ops) s =
     (case take_out d s of (entry, s1) \<Rightarrow> case run ops s1 of (lg, s2) \<Rightarrow> (entry # lg, s2))"

fun offers :: "('i, 'd) queue_op list \<Rightarrow> 'm list" where
  "offers [] = []"
| "offers (Put i # ops) = message i # offers ops"
| "offers (Take d # ops) = offers ops"

text \<open>The messages offered and not yet reached are the missed ones, followed by the queue.\<close>

definition outstanding :: "'s \<Rightarrow> 'm list \<Rightarrow> bool" where
  "outstanding s xs \<longleftrightarrow> missed s \<le> length xs \<and> drop (missed s) xs = queue s"

lemma put_outstanding:
  assumes "usable s" and "outstanding s xs"
  shows "outstanding (put i s) (xs @ [message i])"
proof -
  from put_evicts [OF assms(1), of i] obtain k where k: "k \<le> length (queue s)"
    "missed (put i s) = missed s + k" "queue (put i s) = drop k (queue s @ [message i])" by blast
  have front: "missed s \<le> length xs" "drop (missed s) xs = queue s" using assms(2) by (simp_all add: outstanding_def)
  have "length (queue s) = length xs - missed s" using front(2) by (metis length_drop)
  with front(1) k(1) have "missed s + k \<le> length xs" by linarith
  moreover from this front have "drop (missed s + k) (xs @ [message i]) = drop k (queue s @ [message i])"
    using k(1) by (metis drop_append drop_drop add.commute diff_is_0_eq drop0)
  ultimately show ?thesis using assms(2) k(2,3) by (simp add: outstanding_def)
qed

lemma take_outstanding:
  assumes "usable s" and "outstanding s xs"
  shows "\<exists>ys. accounted [fst (take_out d s)] xs = Some ys \<and> outstanding (snd (take_out d s)) ys"
proof -
  obtain g ms t where step: "take_out d s = ((g, ms), t)" by (metis prod.collapse)
  from take_front [OF assms(1), of d] step obtain n where n: "ms = take n (queue s)" "queue t = drop n (queue s)" by auto
  from take_reports [OF assms(1), of d] step have g: "g = missed s" "missed t = 0" by simp_all
  have front: "drop (missed s) xs = queue s" "missed s \<le> length xs" using assms(2) by (simp_all add: outstanding_def)
  have "take (length ms) (queue s) = ms" "drop (length ms) (queue s) = queue t" using n by (auto simp: min_def)
  with step front g show ?thesis by (simp add: outstanding_def)
qed

lemma run_accounted:
  assumes "usable s" and "outstanding s xs" and "run ops s = (lg, t)"
  shows "\<exists>ys. accounted lg (xs @ offers ops) = Some ys \<and> outstanding t ys \<and> usable t"
  using assms
proof (induction ops arbitrary: s xs lg)
  case (Cons op ops)
  show ?case
  proof (cases op)
    case (Put i)
    with Cons.prems Cons.IH [of "put i s" "xs @ [message i]" lg] put_outstanding put_usable
    show ?thesis by simp
  next
    case (Take d)
    obtain lg' where rest: "run ops (snd (take_out d s)) = (lg', t)" "lg = fst (take_out d s) # lg'"
      using Cons.prems(3) Take by (auto split: prod.splits)
    from take_outstanding [OF Cons.prems(1,2)] obtain ys
      where ys: "accounted [fst (take_out d s)] xs = Some ys" "outstanding (snd (take_out d s)) ys" by blast
    with Cons.IH [OF take_usable [OF Cons.prems(1)] ys(2) rest(1)] obtain zs
      where "accounted lg' (ys @ offers ops) = Some zs" "outstanding t zs" "usable t" by blast
    with accounted_append [OF ys(1), of "offers ops"] rest(2) Take
      accounted_snoc [of "fst (take_out d s)" lg' "xs @ offers ops"]
    show ?thesis by auto
  qed
qed auto

lemma nothing_lost_silently:
  assumes "usable s" and "queue s = []" and "missed s = 0" and "run ops s = (lg, t)"
  shows "\<exists>rest. accounted lg (offers ops) = Some rest \<and> drop (missed t) rest = queue t
    \<and> missed t + length (queue t) = length rest"
proof -
  from run_accounted [OF assms(1) _ assms(4), of "[]"] assms(2,3) obtain ys
    where ys: "accounted lg (offers ops) = Some ys" "missed t \<le> length ys" "drop (missed t) ys = queue t"
    by (auto simp: outstanding_def)
  then have "length (queue t) = length ys - missed t" by (metis length_drop)
  with ys show ?thesis by auto
qed

end

end
