(* ===== verification/Subscription.thy ===== *)
theory Subscription
  imports Observation Gap_Queue
begin

text \<open>
  One subscription (\<^verbatim>\<open>class Subscription\<close> of \<^verbatim>\<open>vision_os/exposure/subscriptions.py\<close>) with
  the messages and the delivery policy of \<^verbatim>\<open>core/model/api.py\<close>: offering a message to the
  bounded queue, the three overflow policies, the pending gap, draining, heartbeats. The clock is
  an argument of the operations that read it. Every method holds the subscription's lock for its
  whole body, so a concurrent run is a sequence of these operations.
\<close>

section \<open>Messages and policy\<close>

datatype gap_reason =
  SLOW_CONSUMER | PLATFORM_BLIND | BUDGET_SHED | PARTITION_UNAVAILABLE | RETENTION_EXPIRED

definition reason_recoverable :: "gap_reason \<Rightarrow> bool" where
  "reason_recoverable r \<longleftrightarrow> r \<in> {SLOW_CONSUMER, BUDGET_SHED, PARTITION_UNAVAILABLE}"

record gap =
  gp_start :: instant
  gp_end :: instant
  gp_reason :: gap_reason
  gp_cameras :: "camera_id list"
  gp_missed :: "int option"
  gp_recoverable :: bool

definition gap_span :: "gap \<Rightarrow> duration" where
  "gap_span g = Duration (max 0 (instant_ns (gp_end g) - instant_ns (gp_start g)))"

record state_delta =
  sd_camera :: camera_id
  sd_objects :: "object_id list"
  sd_regions :: "region_id list"
  sd_at :: "instant option"

record coverage_change =
  cc_camera :: camera_id
  cc_status :: string
  cc_reason :: string
  cc_at :: instant
  cc_rate :: rat

record heartbeat =
  hbt_at :: instant
  hbt_cursor :: "string option"

datatype message =
  MObservation observation | MDelta state_delta | MGap gap | MHeartbeat heartbeat | MCoverage coverage_change

datatype delivery_mode = DELIVER_ALL | CONFLATED | SAMPLED

datatype overflow_policy = CONFLATE | DROP_WITH_GAP | DISCONNECT

record delivery_policy =
  dp_mode :: delivery_mode
  dp_overflow :: overflow_policy
  dp_max_lag :: duration
  dp_heartbeat :: duration
  dp_resume_from :: "string option"
  dp_queue_capacity :: int

definition mk_delivery_policy :: "delivery_policy \<Rightarrow> delivery_policy result" where
  "mk_delivery_policy p =
     (if dp_queue_capacity p < 1 then Inl ValueError
      else if duration_ns (dp_heartbeat p) \<le> 0 then Inl ValueError
      else Inr p)"

fun moment_of :: "message \<Rightarrow> instant option" where
  "moment_of (MObservation ob) = Some (ob_t_capture ob)"
| "moment_of (MDelta d) = sd_at d"
| "moment_of (MGap g) = Some (gp_start g)"
| "moment_of (MHeartbeat h) = Some (hbt_at h)"
| "moment_of (MCoverage c) = Some (cc_at c)"

fun cameras_of :: "message \<Rightarrow> camera_id list" where
  "cameras_of (MObservation ob) = [ob_camera ob]"
| "cameras_of (MDelta d) = [sd_camera d]"
| "cameras_of (MCoverage c) = [cc_camera c]"
| "cameras_of _ = []"

fun cursor_of :: "message \<Rightarrow> string option" where
  "cursor_of (MObservation ob) = Some (ob_id ob)"
| "cursor_of _ = None"

section \<open>State and operations\<close>

record subscription_stats =
  ss_delivered :: int
  ss_dropped :: int
  ss_gaps :: int
  ss_conflated :: int
  ss_heartbeats :: int

record subscription =
  sb_id :: string
  sb_principal :: principal
  sb_scope :: scope
  sb_filter :: subscription_filter
  sb_policy :: delivery_policy
  sb_stats :: subscription_stats
  sb_queue :: "message list"
  sb_conflated :: "(object_id, observation) dict"
  sb_cursor :: "string option"
  sb_pending_gap :: "gap option"
  sb_last_heartbeat :: instant
  sb_closed :: bool

definition subscription_init ::
  "string \<Rightarrow> principal \<Rightarrow> scope \<Rightarrow> subscription_filter \<Rightarrow> delivery_policy \<Rightarrow> instant \<Rightarrow> subscription" where
  "subscription_init i p sc f pol now =
     \<lparr>sb_id = i, sb_principal = p, sb_scope = sc, sb_filter = f, sb_policy = pol,
      sb_stats = \<lparr>ss_delivered = 0, ss_dropped = 0, ss_gaps = 0, ss_conflated = 0, ss_heartbeats = 0\<rparr>,
      sb_queue = [], sb_conflated = [], sb_cursor = dp_resume_from pol, sb_pending_gap = None,
      sb_last_heartbeat = now, sb_closed = False\<rparr>"

definition note_gap :: "instant \<Rightarrow> message \<Rightarrow> gap_reason \<Rightarrow> int \<Rightarrow> subscription \<Rightarrow> subscription" where
  "note_gap now around why missed s =
     (let moment = (case moment_of around of None \<Rightarrow> now | Some t \<Rightarrow> t)
      in case sb_pending_gap s of
           Some g \<Rightarrow>
             s\<lparr>sb_pending_gap := Some (g\<lparr>gp_end := moment,
                 gp_missed := Some ((case gp_missed g of None \<Rightarrow> 0 | Some n \<Rightarrow> n) + missed)\<rparr>)\<rparr>
         | None \<Rightarrow>
             s\<lparr>sb_pending_gap := Some \<lparr>gp_start = moment, gp_end = moment, gp_reason = why,
                 gp_cameras = cameras_of around, gp_missed = Some missed,
                 gp_recoverable = reason_recoverable why\<rparr>,
               sb_stats := (sb_stats s)\<lparr>ss_gaps := ss_gaps (sb_stats s) + 1\<rparr>\<rparr>)"

definition count_dropped :: "subscription \<Rightarrow> subscription" where
  "count_dropped s = s\<lparr>sb_stats := (sb_stats s)\<lparr>ss_dropped := ss_dropped (sb_stats s) + 1\<rparr>\<rparr>"

definition conflate :: "instant \<Rightarrow> message \<Rightarrow> subscription \<Rightarrow> bool \<times> subscription" where
  "conflate now m s =
     (case m of
        MObservation ob \<Rightarrow>
          (case ob_object ob of
             None \<Rightarrow> (False, note_gap now m SLOW_CONSUMER 1 (count_dropped s))
           | Some x \<Rightarrow>
               (let s1 = s\<lparr>sb_conflated := dict_set x ob (sb_conflated s)\<rparr>;
                    s2 = (if dict_get (sb_conflated s) x = None then note_gap now m SLOW_CONSUMER 0 s1 else s1)
                in (True, s2\<lparr>sb_stats := (sb_stats s2)\<lparr>ss_conflated := ss_conflated (sb_stats s2) + 1\<rparr>\<rparr>)))
      | _ \<Rightarrow> (False, note_gap now m SLOW_CONSUMER 1 (count_dropped s)))"

text \<open>
  \<^verbatim>\<open>popleft\<close> on an empty queue raises; the branch is reached only with a full queue, whose
  capacity the policy's constructor checks to be positive. The model leaves the state as it is.
\<close>

definition overflow :: "instant \<Rightarrow> message \<Rightarrow> subscription \<Rightarrow> bool \<times> subscription" where
  "overflow now m s =
     (case dp_overflow (sb_policy s) of
        CONFLATE \<Rightarrow> conflate now m s
      | DISCONNECT \<Rightarrow>
          (False, note_gap now m SLOW_CONSUMER (int (length (sb_queue s))) (s\<lparr>sb_closed := True\<rparr>))
      | DROP_WITH_GAP \<Rightarrow>
          (case sb_queue s of
             [] \<Rightarrow> (False, s)
           | dropped # rest \<Rightarrow>
               (True, note_gap now dropped SLOW_CONSUMER 1
                        (count_dropped (s\<lparr>sb_queue := rest @ [m]\<rparr>)))))"

definition offer :: "instant \<Rightarrow> message \<Rightarrow> subscription \<Rightarrow> bool \<times> subscription" where
  "offer now m s =
     (if sb_closed s then (False, s)
      else if int (length (sb_queue s)) < dp_queue_capacity (sb_policy s)
      then (True, s\<lparr>sb_queue := sb_queue s @ [m],
                    sb_stats := (sb_stats s)\<lparr>ss_delivered := ss_delivered (sb_stats s) + 1\<rparr>\<rparr>)
      else overflow now m s)"

definition last_cursor :: "string option \<Rightarrow> message list \<Rightarrow> string option" where
  "last_cursor c out = fold (\<lambda>m c. case cursor_of m of None \<Rightarrow> c | Some k \<Rightarrow> Some k) out c"

definition drain :: "int \<Rightarrow> subscription \<Rightarrow> message list \<times> subscription" where
  "drain limit s =
     (let head = (case sb_pending_gap s of None \<Rightarrow> [] | Some g \<Rightarrow> [MGap g])
                 @ map (MObservation \<circ> snd) (sb_conflated s);
          n = nat (limit - int (length head));
          out = head @ take n (sb_queue s)
      in (out, s\<lparr>sb_pending_gap := None, sb_conflated := [], sb_queue := drop n (sb_queue s),
                 sb_cursor := last_cursor (sb_cursor s) out\<rparr>))"

definition heartbeat_due :: "instant \<Rightarrow> subscription \<Rightarrow> bool" where
  "heartbeat_due now s \<longleftrightarrow>
     instant_ns now - instant_ns (sb_last_heartbeat s) \<ge> duration_ns (dp_heartbeat (sb_policy s))"

definition beat :: "instant \<Rightarrow> subscription \<Rightarrow> heartbeat \<times> subscription" where
  "beat now s =
     (\<lparr>hbt_at = now, hbt_cursor = sb_cursor s\<rparr>,
      s\<lparr>sb_last_heartbeat := now,
        sb_stats := (sb_stats s)\<lparr>ss_heartbeats := ss_heartbeats (sb_stats s) + 1\<rparr>\<rparr>)"

definition close_subscription :: "subscription \<Rightarrow> subscription" where
  "close_subscription s = s\<lparr>sb_closed := True, sb_queue := [], sb_conflated := []\<rparr>"

definition depth :: "subscription \<Rightarrow> int" where
  "depth s = int (length (sb_queue s)) + int (length (sb_conflated s))"

definition lagging :: "subscription \<Rightarrow> bool" where
  "lagging s \<longleftrightarrow> depth s \<ge> dp_queue_capacity (sb_policy s)"

section \<open>What an operation leaves alone\<close>

definition same_contract :: "subscription \<Rightarrow> subscription \<Rightarrow> bool" where
  "same_contract s t \<longleftrightarrow>
     sb_id s = sb_id t \<and> sb_principal s = sb_principal t \<and> sb_scope s = sb_scope t
     \<and> sb_filter s = sb_filter t \<and> sb_policy s = sb_policy t"

lemmas subscription_defs = note_gap_def count_dropped_def conflate_def overflow_def Let_def

lemma note_gap_simps [simp]:
  "sb_id (note_gap now m r k s) = sb_id s" "sb_principal (note_gap now m r k s) = sb_principal s"
  "sb_scope (note_gap now m r k s) = sb_scope s" "sb_filter (note_gap now m r k s) = sb_filter s"
  "sb_policy (note_gap now m r k s) = sb_policy s" "sb_queue (note_gap now m r k s) = sb_queue s"
  "sb_conflated (note_gap now m r k s) = sb_conflated s" "sb_closed (note_gap now m r k s) = sb_closed s"
  "sb_cursor (note_gap now m r k s) = sb_cursor s"
  by (simp_all add: note_gap_def Let_def split: option.split)

lemma count_dropped_simps [simp]:
  "sb_id (count_dropped s) = sb_id s" "sb_principal (count_dropped s) = sb_principal s"
  "sb_scope (count_dropped s) = sb_scope s" "sb_filter (count_dropped s) = sb_filter s"
  "sb_policy (count_dropped s) = sb_policy s" "sb_queue (count_dropped s) = sb_queue s"
  "sb_conflated (count_dropped s) = sb_conflated s" "sb_closed (count_dropped s) = sb_closed s"
  "sb_pending_gap (count_dropped s) = sb_pending_gap s"
  by (simp_all add: count_dropped_def)

lemma offer_same_contract: "same_contract (snd (offer now m s)) s"
  by (simp add: same_contract_def offer_def overflow_def conflate_def Let_def
      split: message.split option.split overflow_policy.split list.split)

lemma drain_same_contract: "same_contract (snd (drain n s)) s"
  by (simp add: same_contract_def drain_def Let_def)

lemma beat_same_contract: "same_contract (snd (beat now s)) s"
  by (simp add: same_contract_def beat_def)

lemma close_same_contract: "same_contract (close_subscription s) s"
  by (simp add: same_contract_def close_subscription_def)

lemmas contract_kept = offer_same_contract drain_same_contract beat_same_contract close_same_contract


section \<open>Nothing is lost silently under \<open>DROP_WITH_GAP\<close>\<close>

text \<open>
  A run of a subscription is a sequence of offers and drains. Its log holds, for every drain, the
  gap that was delivered first, if any, and the messages that followed it.
\<close>

datatype subscription_event = Offer instant message | Drain int

type_synonym drain_log = "(gap option \<times> message list) list"

fun subscription_run :: "subscription_event list \<Rightarrow> subscription \<Rightarrow> drain_log \<times> subscription" where
  "subscription_run [] s = ([], s)"
| "subscription_run (Offer now m # es) s = subscription_run es (snd (offer now m s))"
| "subscription_run (Drain n # es) s =
     (let (out, s1) = drain n s; (ds, s2) = subscription_run es s1
      in ((sb_pending_gap s, if sb_pending_gap s = None then out else tl out) # ds, s2))"

fun offered :: "subscription_event list \<Rightarrow> message list" where
  "offered [] = []"
| "offered (Offer now m # es) = m # offered es"
| "offered (Drain n # es) = offered es"

definition missed_by :: "gap option \<Rightarrow> nat" where
  "missed_by g = (case g of None \<Rightarrow> 0 | Some g \<Rightarrow> (case gp_missed g of None \<Rightarrow> 0 | Some n \<Rightarrow> nat n))"

definition dropping :: "subscription \<Rightarrow> bool" where
  "dropping s \<longleftrightarrow>
     dp_overflow (sb_policy s) = DROP_WITH_GAP \<and> 1 \<le> dp_queue_capacity (sb_policy s)
     \<and> \<not> sb_closed s \<and> sb_conflated s = []
     \<and> (case sb_pending_gap s of None \<Rightarrow> True | Some g \<Rightarrow> \<exists>n \<ge> 0. gp_missed g = Some n)"

lemma missed_by_note_gap:
  assumes "dropping s" and "0 \<le> k"
  shows "missed_by (sb_pending_gap (note_gap now m r k s)) = missed_by (sb_pending_gap s) + nat k"
  using assms
  by (auto simp: dropping_def note_gap_def missed_by_def Let_def nat_add_distrib split: option.splits)

lemma dropping_note_gap: "dropping s \<Longrightarrow> 0 \<le> k \<Longrightarrow> dropping (note_gap now m r k s)"
  by (auto simp: dropping_def note_gap_def Let_def split: option.splits)

lemma dropping_update [simp]:
  "dropping (s\<lparr>sb_queue := q\<rparr>) = dropping s" "dropping (s\<lparr>sb_stats := st\<rparr>) = dropping s"
  "dropping (s\<lparr>sb_queue := q, sb_stats := st\<rparr>) = dropping s" "dropping (count_dropped s) = dropping s"
  by (simp_all add: dropping_def count_dropped_def)

lemma offer_full:
  assumes "dropping s" and "\<not> int (length (sb_queue s)) < dp_queue_capacity (sb_policy s)"
  obtains y ys where "sb_queue s = y # ys"
    and "snd (offer now m s) = note_gap now y SLOW_CONSUMER 1 (count_dropped (s\<lparr>sb_queue := ys @ [m]\<rparr>))"
proof -
  from assms obtain y ys where q: "sb_queue s = y # ys"
    by (cases "sb_queue s") (auto simp: dropping_def)
  with assms have "snd (offer now m s) = note_gap now y SLOW_CONSUMER 1 (count_dropped (s\<lparr>sb_queue := ys @ [m]\<rparr>))"
    by (simp add: offer_def overflow_def dropping_def)
  with q show thesis by (rule that)
qed

lemma offer_dropping:
  assumes "dropping s"
  shows "dropping (snd (offer now m s))"
proof (cases "int (length (sb_queue s)) < dp_queue_capacity (sb_policy s)")
  case False
  obtain y ys where "snd (offer now m s) = note_gap now y SLOW_CONSUMER 1 (count_dropped (s\<lparr>sb_queue := ys @ [m]\<rparr>))"
    by (rule offer_full [OF assms False])
  with assms show ?thesis by (simp add: dropping_note_gap)
qed (use assms in \<open>auto simp: offer_def dropping_def\<close>)

lemma offer_evicts:
  assumes "dropping s"
  shows "\<exists>k \<le> length (sb_queue s). missed_by (sb_pending_gap (snd (offer now m s))) = missed_by (sb_pending_gap s) + k
    \<and> sb_queue (snd (offer now m s)) = drop k (sb_queue s @ [m])"
proof (cases "int (length (sb_queue s)) < dp_queue_capacity (sb_policy s)")
  case True
  with assms show ?thesis by (intro exI [of _ 0]) (auto simp: offer_def dropping_def)
next
  case False
  obtain y ys where "sb_queue s = y # ys"
    and "snd (offer now m s) = note_gap now y SLOW_CONSUMER 1 (count_dropped (s\<lparr>sb_queue := ys @ [m]\<rparr>))"
    by (rule offer_full [OF assms False])
  with assms show ?thesis by (intro exI [of _ 1]) (simp add: missed_by_note_gap)
qed

definition drain_entry :: "int \<Rightarrow> subscription \<Rightarrow> (nat \<times> message list) \<times> subscription" where
  "drain_entry n s =
     (case drain n s of (out, t) \<Rightarrow>
        ((missed_by (sb_pending_gap s), if sb_pending_gap s = None then out else tl out), t))"

lemma drain_dropping:
  assumes "dropping s"
  shows "dropping (snd (drain_entry n s))" and "sb_pending_gap (snd (drain_entry n s)) = None"
    and "\<exists>k. snd (fst (drain_entry n s)) = take k (sb_queue s) \<and> sb_queue (snd (drain_entry n s)) = drop k (sb_queue s)"
  using assms by (auto simp: drain_entry_def drain_def dropping_def Let_def split: option.splits)

interpretation hub_queue: gap_queue sb_queue "\<lambda>s. missed_by (sb_pending_gap s)" snd
  "\<lambda>(now, m) s. snd (offer now m s)" drain_entry dropping
proof (unfold_locales, goal_cases)
  case (1 s i)
  then show ?case by (cases i) (simp add: offer_dropping)
next
  case (2 s i)
  then show ?case using offer_evicts [OF 2, of "fst i" "snd i"] by (simp add: case_prod_beta)
next
  case (3 s d)
  then show ?case by (rule drain_dropping)
next
  case (4 s d)
  then show ?case by (simp add: drain_dropping(2)) (simp add: drain_entry_def missed_by_def split: prod.split)
next
  case (5 s d)
  then show ?case by (rule drain_dropping)
qed

primrec queue_op_of :: "subscription_event \<Rightarrow> (instant \<times> message, int) queue_op" where
  "queue_op_of (Offer now m) = Put (now, m)"
| "queue_op_of (Drain n) = Take n"

lemma subscription_run_queue:
  "hub_queue.run (map queue_op_of es) s = (map (apfst missed_by) (fst (subscription_run es s)), snd (subscription_run es s))"
proof (induction es arbitrary: s)
  case (Cons e es)
  show ?case
  proof (cases e)
    case (Drain n)
    with Cons show ?thesis by (simp add: drain_entry_def [of n s] Let_def split: prod.split)
  qed (simp add: Cons)
qed simp

lemma offered_queue: "hub_queue.offers (map queue_op_of es) = offered es"
proof (induction es)
  case (Cons e es)
  then show ?case by (cases e) simp_all
qed simp


section \<open>Conflation reorders\<close>

lemma offer_conflates:
  assumes "dp_overflow (sb_policy s) = CONFLATE" and "\<not> sb_closed s"
    and "dp_queue_capacity (sb_policy s) \<le> int (length (sb_queue s))" and "ob_object b = Some x"
  shows "sb_conflated (snd (offer now (MObservation b) s)) = dict_set x b (sb_conflated s)
    \<and> sb_queue (snd (offer now (MObservation b) s)) = sb_queue s"
  using assms by (simp add: offer_def overflow_def conflate_def Let_def)

lemma drain_all:
  assumes "drain limit s = (out, t)" and "1 + depth s \<le> limit"
  shows "\<exists>us. out = us @ map (MObservation \<circ> snd) (sb_conflated s) @ sb_queue s"
  using assms by (auto simp: drain_def depth_def Let_def split: option.splits)

text \<open>
  Conflation hands an object's newer state over before its older one. When a full subscription
  with the policy \<open>CONFLATE\<close> still queues an observation \<open>a\<close> of an object and is offered a later
  observation \<open>b\<close> of the same object, the next complete drain returns \<open>b\<close> and then \<open>a\<close>: a consumer
  that applies the stream in order ends with the superseded state.
\<close>

theorem conflated_update_precedes_older:
  assumes "dp_overflow (sb_policy s) = CONFLATE" and "\<not> sb_closed s"
    and "dp_queue_capacity (sb_policy s) \<le> int (length (sb_queue s))"
    and "MObservation a \<in> set (sb_queue s)" and "ob_object a = Some x" and "ob_object b = Some x"
    and "drain limit (snd (offer now (MObservation b) s)) = (out, t)"
    and "1 + depth (snd (offer now (MObservation b) s)) \<le> limit"
  shows "\<exists>us vs ws. out = us @ MObservation b # vs @ MObservation a # ws"
proof -
  let ?s = "snd (offer now (MObservation b) s)"
  from drain_all [OF assms(7,8)] offer_conflates [OF assms(1-3,6)] obtain us
    where out: "out = us @ map (MObservation \<circ> snd) (dict_set x b (sb_conflated s)) @ sb_queue s" by auto
  have "(x, b) \<in> set (dict_set x b (sb_conflated s))"
    by (rule dict_get_Some_in) (simp add: dict_simps)
  then obtain ps qs where "dict_set x b (sb_conflated s) = ps @ (x, b) # qs" by (meson split_list)
  moreover from assms(4) obtain vs ws where "sb_queue s = vs @ MObservation a # ws" by (meson split_list)
  ultimately have "out = (us @ map (MObservation \<circ> snd) ps) @ MObservation b
      # (map (MObservation \<circ> snd) qs @ vs) @ MObservation a # ws"
    using out by simp
  then show ?thesis by blast
qed

section \<open>Examples\<close>

definition example_policy :: "overflow_policy \<Rightarrow> int \<Rightarrow> delivery_policy" where
  "example_policy ov cap =
     \<lparr>dp_mode = DELIVER_ALL, dp_overflow = ov, dp_max_lag = Duration 5000000000,
      dp_heartbeat = Duration 10000000000, dp_resume_from = None, dp_queue_capacity = cap\<rparr>"

definition any_filter :: subscription_filter where
  "any_filter = \<lparr>sf_types = [], sf_classes = [], sf_objects = [], sf_attribute_keys = []\<rparr>"

definition example_subscription :: "string \<Rightarrow> tenant_id \<Rightarrow> camera_id list \<Rightarrow> overflow_policy \<Rightarrow> int \<Rightarrow> subscription" where
  "example_subscription i ten cams ov cap =
     subscription_init i
       \<lparr>pr_subject = ''reader'', pr_tenant = ten, pr_scopes = [], pr_display_name = []\<rparr>
       \<lparr>sc_tenant = ten, sc_sites = [], sc_cameras = cams, sc_regions = []\<rparr>
       any_filter (example_policy ov cap) (Instant 0)"

abbreviation example_message :: "string \<Rightarrow> int \<Rightarrow> message" where
  "example_message i ns \<equiv> MObservation (example_observation i ''acme'' ''cam-1'' ''obj-1'' ns)"

definition example_events :: "subscription_event list" where
  "example_events =
     [Offer (Instant 1) (example_message ''a'' 1), Offer (Instant 2) (example_message ''b'' 2),
      Offer (Instant 3) (example_message ''c'' 3), Drain 2, Offer (Instant 4) (example_message ''d'' 4)]"

lemmas subscription_example_defs = example_subscription_def subscription_init_def example_policy_def
  offer_def overflow_def conflate_def note_gap_def count_dropped_def drain_def last_cursor_def
  dict_set_def dict_get_def Let_def


theorem conflated_update_precedes_older_witness:
  "\<exists>us vs ws. fst (drain 9 (snd (offer (Instant 2) (example_message ''b'' 2)
      (snd (offer (Instant 1) (example_message ''a'' 1) (example_subscription ''s'' ''acme'' [] CONFLATE 1))))))
    = us @ example_message ''b'' 2 # vs @ example_message ''a'' 1 # ws"
proof -
  let ?s = "snd (offer (Instant 1) (example_message ''a'' 1) (example_subscription ''s'' ''acme'' [] CONFLATE 1))"
  let ?b = "example_observation ''b'' ''acme'' ''cam-1'' ''obj-1'' 2"
  obtain out t where d: "drain 9 (snd (offer (Instant 2) (MObservation ?b) ?s)) = (out, t)"
    by (metis surj_pair)
  have "\<exists>us vs ws. out = us @ MObservation ?b # vs @ example_message ''a'' 1 # ws"
    by (rule conflated_update_precedes_older [OF _ _ _ _ _ _ d])
      (simp_all add: subscription_example_defs example_observation_def depth_def)
  with d show ?thesis by simp
qed

end
