(* ===== verification/Subscription_Hub.thy ===== *)
theory Subscription_Hub
  imports Subscription
begin

text \<open>
  Fan-out (\<^verbatim>\<open>class SubscriptionHub\<close> of \<^verbatim>\<open>vision_os/exposure/subscriptions.py\<close>): the
  subscriptions by id with an index by observation type and one by camera, adding, removing,
  publishing observations, deltas, coverage changes and gaps, and the heartbeat. Candidates are a
  Python set, whose iteration order is not specified: the order is the argument \<open>enum\<close> of the
  definitions, with \<open>enumerates\<close> as what Python promises of it. The reference definition is
  \<open>broadcast\<close>, an offer to every subscription that satisfies a predicate, with no index and no
  order.
\<close>

section \<open>State and operations\<close>

record hub =
  hb_subs :: "(string, subscription) dict"
  hb_by_type :: "(observation_type, string set) dict"
  hb_by_camera :: "(camera_id, string set) dict"

definition empty_hub :: hub where
  "empty_hub = \<lparr>hb_subs = [], hb_by_type = [], hb_by_camera = []\<rparr>"

definition holders :: "('k, string set) dict \<Rightarrow> 'k \<Rightarrow> string set" where
  "holders ix k = (case dict_get ix k of None \<Rightarrow> {} | Some ids \<Rightarrow> ids)"

definition index_add :: "string \<Rightarrow> 'k \<Rightarrow> ('k, string set) dict \<Rightarrow> ('k, string set) dict" where
  "index_add i k ix = dict_set k (insert i (holders ix k)) ix"

definition index_discard :: "string \<Rightarrow> ('k, string set) dict \<Rightarrow> ('k, string set) dict" where
  "index_discard i ix = map (\<lambda>(k, ids). (k, ids - {i})) ix"

definition kinds_of :: "subscription \<Rightarrow> observation_type list" where
  "kinds_of s = (if sf_types (sb_filter s) = [] then all_observation_types else sf_types (sb_filter s))"

definition hub_add :: "subscription \<Rightarrow> hub \<Rightarrow> hub" where
  "hub_add s h =
     \<lparr>hb_subs = dict_set (sb_id s) s (hb_subs h),
      hb_by_type = fold (index_add (sb_id s)) (kinds_of s) (hb_by_type h),
      hb_by_camera = fold (index_add (sb_id s)) (sc_cameras (sb_scope s)) (hb_by_camera h)\<rparr>"

text \<open>The removed subscription is closed too; it is returned beside the hub.\<close>

definition hub_remove :: "string \<Rightarrow> hub \<Rightarrow> subscription option \<times> hub" where
  "hub_remove i h =
     (case dict_get (hb_subs h) i of
        None \<Rightarrow> (None, h)
      | Some s \<Rightarrow>
          (Some (close_subscription s),
           \<lparr>hb_subs = dict_del i (hb_subs h), hb_by_type = index_discard i (hb_by_type h),
            hb_by_camera = index_discard i (hb_by_camera h)\<rparr>))"

definition unscoped :: "hub \<Rightarrow> string set" where
  "unscoped h = {sb_id s |i s. (i, s) \<in> set (hb_subs h) \<and> sc_cameras (sb_scope s) = []}"

lemma unscoped_code [code]:
  "unscoped h = set (map (sb_id \<circ> snd) (filter (\<lambda>(i, s). sc_cameras (sb_scope s) = []) (hb_subs h)))"
  by (force simp: unscoped_def)

definition candidates :: "(string set \<Rightarrow> string list) \<Rightarrow> hub \<Rightarrow> observation \<Rightarrow> string list" where
  "candidates enum h ob =
     filter (\<lambda>i. dict_get (hb_subs h) i \<noteq> None)
       (enum (holders (hb_by_type h) (ob_type ob)
              \<inter> (case dict_get (hb_by_camera h) (ob_camera ob) of
                    None \<Rightarrow> unscoped h | Some ids \<Rightarrow> ids \<union> unscoped h)))"

definition for_camera :: "(string set \<Rightarrow> string list) \<Rightarrow> hub \<Rightarrow> camera_id \<Rightarrow> string list" where
  "for_camera enum h c =
     filter (\<lambda>i. dict_get (hb_subs h) i \<noteq> None) (enum (holders (hb_by_camera h) c \<union> unscoped h))"

definition in_scope :: "subscription \<Rightarrow> observation \<Rightarrow> bool" where
  "in_scope s ob =
     (if ob_tenant ob \<noteq> sc_tenant (sb_scope s) then False
      else scope_covers_camera (sb_scope s) (ob_camera ob))"

text \<open>The body of the fan-out loops: offer to one subscription if it qualifies, count acceptances.\<close>

definition offer_to ::
  "instant \<Rightarrow> message \<Rightarrow> (subscription \<Rightarrow> bool) \<Rightarrow> string \<Rightarrow> int \<times> hub \<Rightarrow> int \<times> hub" where
  "offer_to now m P i st =
     (case st of (n, h) \<Rightarrow>
        (case dict_get (hb_subs h) i of
           None \<Rightarrow> (n, h)
         | Some s \<Rightarrow>
             if P s then
               (let (ok, s') = offer now m s
                in (if ok then n + 1 else n, h\<lparr>hb_subs := dict_set i s' (hb_subs h)\<rparr>))
             else (n, h)))"

definition publish_one ::
  "(string set \<Rightarrow> string list) \<Rightarrow> instant \<Rightarrow> observation \<Rightarrow> int \<times> hub \<Rightarrow> int \<times> hub" where
  "publish_one enum now ob st =
     fold (offer_to now (MObservation ob)
             (\<lambda>s. in_scope s ob \<and> subscription_filter_matches (sb_filter s) ob))
       (candidates enum (snd st) ob) st"

definition publish ::
  "(string set \<Rightarrow> string list) \<Rightarrow> instant \<Rightarrow> observation list \<Rightarrow> hub \<Rightarrow> int \<times> hub" where
  "publish enum now obs h = fold (publish_one enum now) obs (0, h)"

definition publish_delta :: "(string set \<Rightarrow> string list) \<Rightarrow> instant \<Rightarrow> state_delta \<Rightarrow> hub \<Rightarrow> int \<times> hub" where
  "publish_delta enum now d h =
     fold (offer_to now (MDelta d) (\<lambda>s. scope_covers_camera (sb_scope s) (sd_camera d)))
       (for_camera enum h (sd_camera d)) (0, h)"

definition publish_coverage ::
  "(string set \<Rightarrow> string list) \<Rightarrow> instant \<Rightarrow> coverage_change \<Rightarrow> hub \<Rightarrow> int \<times> hub" where
  "publish_coverage enum now c h =
     fold (offer_to now (MCoverage c) (\<lambda>s. scope_covers_camera (sb_scope s) (cc_camera c)))
       (for_camera enum h (cc_camera c)) (0, h)"

fun gap_visit ::
  "instant \<Rightarrow> gap \<Rightarrow> string \<Rightarrow> string set \<times> int \<times> hub \<Rightarrow> string set \<times> int \<times> hub" where
  "gap_visit now g i (seen, st) =
     (if i \<in> seen then (seen, st) else (insert i seen, offer_to now (MGap g) (\<lambda>_. True) i st))"

definition gap_camera ::
  "(string set \<Rightarrow> string list) \<Rightarrow> instant \<Rightarrow> gap \<Rightarrow> camera_id \<Rightarrow> string set \<times> int \<times> hub \<Rightarrow> string set \<times> int \<times> hub" where
  "gap_camera enum now g c st = fold (gap_visit now g) (for_camera enum (snd (snd st)) c) st"

definition publish_gap :: "(string set \<Rightarrow> string list) \<Rightarrow> instant \<Rightarrow> gap \<Rightarrow> hub \<Rightarrow> int \<times> hub" where
  "publish_gap enum now g h =
     snd (fold (gap_camera enum now g)
            (if gp_cameras g \<noteq> [] then gp_cameras g else dict_keys (hb_by_camera h)) ({}, 0, h))"

definition hub_beat_one :: "instant \<Rightarrow> string \<Rightarrow> int \<times> hub \<Rightarrow> int \<times> hub" where
  "hub_beat_one now i st =
     (case st of (n, h) \<Rightarrow>
        (case dict_get (hb_subs h) i of
           None \<Rightarrow> (n, h)
         | Some s \<Rightarrow>
             if heartbeat_due now s then
               (let (hbt, s1) = beat now s; (ok, s2) = offer now (MHeartbeat hbt) s1
                in (n + 1, h\<lparr>hb_subs := dict_set i s2 (hb_subs h)\<rparr>))
             else (n, h)))"

definition hub_beat :: "instant \<Rightarrow> hub \<Rightarrow> int \<times> hub" where
  "hub_beat now h = fold (hub_beat_one now) (dict_keys (hb_subs h)) (0, h)"

definition hub_for_principal :: "string \<Rightarrow> hub \<Rightarrow> subscription list" where
  "hub_for_principal subject h =
     filter (\<lambda>s. pr_subject (sb_principal s) = subject) (map snd (hb_subs h))"

definition close_all :: "hub \<Rightarrow> hub" where
  "close_all h = fold (\<lambda>i h. snd (hub_remove i h)) (map (sb_id \<circ> snd) (hb_subs h)) h"

text \<open>A consumer drains its own subscription; the hub sees the drained state.\<close>

definition hub_drain :: "string \<Rightarrow> int \<Rightarrow> hub \<Rightarrow> message list \<times> hub" where
  "hub_drain i limit h =
     (case dict_get (hb_subs h) i of
        None \<Rightarrow> ([], h)
      | Some s \<Rightarrow>
          (let (out, s') = drain limit s in (out, h\<lparr>hb_subs := dict_set i s' (hb_subs h)\<rparr>)))"

section \<open>The reference definition\<close>

definition broadcast :: "(subscription \<Rightarrow> bool) \<Rightarrow> instant \<Rightarrow> message \<Rightarrow> hub \<Rightarrow> int \<times> hub" where
  "broadcast P now m h =
     (int (length (filter (\<lambda>(i, s). P s \<and> fst (offer now m s)) (hb_subs h))),
      h\<lparr>hb_subs := map (\<lambda>(i, s). (i, if P s then snd (offer now m s) else s)) (hb_subs h)\<rparr>)"

text \<open>
  The indexes hold exactly what the subscriptions declare, and every subscription is stored under
  its id.
\<close>

definition hub_ok :: "hub \<Rightarrow> bool" where
  "hub_ok h \<longleftrightarrow>
     wf_dict (hb_subs h) \<and> wf_dict (hb_by_camera h) \<and> (\<forall>(i, s) \<in> set (hb_subs h). sb_id s = i)
     \<and> (\<forall>k. holders (hb_by_type h) k = {i. \<exists>s. dict_get (hb_subs h) i = Some s \<and> k \<in> set (kinds_of s)})
     \<and> (\<forall>c. holders (hb_by_camera h) c
            = {i. \<exists>s. dict_get (hb_subs h) i = Some s \<and> c \<in> set (sc_cameras (sb_scope s))})"

lemma dict_set_map:
  assumes "wf_dict d" and "dict_get d i = Some s"
  shows "dict_set i v d = map (\<lambda>(j, t). (j, if j = i then v else t)) d"
  using assms
proof (induction d)
  case (Cons p d)
  show ?case
  proof (cases "fst p = i")
    case True
    with Cons.prems(1) have "i \<notin> fst ` set d" by (cases p) (auto simp: wf_dict_def)
    then have "map (\<lambda>(j, t). (j, if j = i then v else t)) d = d"
      by (intro map_idI) force
    with True show ?thesis by (cases p) (simp add: dict_set_def)
  next
    case False
    with Cons show ?thesis by (cases p) (auto simp: dict_set_def dict_get_def wf_dict_def)
  qed
qed simp


lemma broadcast_cong:
  assumes "\<And>i s. (i, s) \<in> set (hb_subs h) \<Longrightarrow> P s = Q s"
  shows "broadcast P now m h = broadcast Q now m h"
proof -
  have "filter (\<lambda>(i, s). P s \<and> fst (offer now m s)) (hb_subs h) = filter (\<lambda>(i, s). Q s \<and> fst (offer now m s)) (hb_subs h)"
    using assms by (intro filter_cong) auto
  moreover have "map (\<lambda>(i, s). (i, if P s then snd (offer now m s) else s)) (hb_subs h)
      = map (\<lambda>(i, s). (i, if Q s then snd (offer now m s) else s)) (hb_subs h)"
    using assms by (intro map_cong) auto
  ultimately show ?thesis by (simp add: broadcast_def)
qed

lemma broadcast_none: "(\<And>i s. (i, s) \<in> set (hb_subs h) \<Longrightarrow> \<not> P s) \<Longrightarrow> broadcast P now m h = (0, h)"
  using broadcast_cong [of h P "\<lambda>_. False" now m] by (simp add: broadcast_def)

lemma broadcast_twice_list:
  assumes "\<And>s. P s \<Longrightarrow> \<not> Q s \<and> \<not> Q (snd (offer now m s))"
  shows "length (filter (\<lambda>(i, s). P s \<and> fst (offer now m s)) d)
      + length (filter (\<lambda>(i, s). Q s \<and> fst (offer now m s)) (map (\<lambda>(i, s). (i, if P s then snd (offer now m s) else s)) d))
    = length (filter (\<lambda>(i, s). (P s \<or> Q s) \<and> fst (offer now m s)) d)"
proof (induction d)
  case (Cons p d)
  with assms [of "snd p"] show ?case by (cases p; cases "P (snd p)") auto
qed simp

lemma broadcast_twice:
  assumes "\<And>s. P s \<Longrightarrow> \<not> Q s \<and> \<not> Q (snd (offer now m s))"
  shows "(fst (broadcast P now m h) + fst (broadcast Q now m (snd (broadcast P now m h))),
      snd (broadcast Q now m (snd (broadcast P now m h)))) = broadcast (\<lambda>s. P s \<or> Q s) now m h"
proof -
  have "map (\<lambda>(i, s). (i, if Q s then snd (offer now m s) else s)) (map (\<lambda>(i, s). (i, if P s then snd (offer now m s) else s)) d)
      = map (\<lambda>(i, s). (i, if P s \<or> Q s then snd (offer now m s) else s)) d" for d :: "(string, subscription) dict"
    using assms by auto
  then show ?thesis
    using broadcast_twice_list [of P Q now m "hb_subs h"] assms by (simp add: broadcast_def)
qed

definition keyed :: "hub \<Rightarrow> bool" where
  "keyed h \<longleftrightarrow> wf_dict (hb_subs h) \<and> (\<forall>(i, s) \<in> set (hb_subs h). sb_id s = i)"

lemma sb_id_offer [simp]: "sb_id (snd (offer now m s)) = sb_id s"
  using offer_same_contract [of now m s] by (simp add: same_contract_def)

lemma keyed_broadcast: "keyed h \<Longrightarrow> keyed (snd (broadcast P now m h))"
  by (auto simp: keyed_def broadcast_def wf_dict_def comp_def case_prod_beta)

lemma keyed_get: "keyed h \<Longrightarrow> dict_get (hb_subs h) i = Some s \<Longrightarrow> sb_id s = i"
  using dict_get_Some_in [of "hb_subs h" i s] by (auto simp: keyed_def)

lemma keyed_mem:
  "keyed h \<Longrightarrow> (j, t) \<in> set (hb_subs h) \<Longrightarrow> sb_id t = j \<and> dict_get (hb_subs h) j = Some t"
  using in_dict_get [of "hb_subs h" j t] by (auto simp: keyed_def)

lemma offer_to_broadcast:
  assumes "keyed h"
  shows "offer_to now m P i (n, h)
    = (n + fst (broadcast (\<lambda>s. sb_id s = i \<and> P s) now m h), snd (broadcast (\<lambda>s. sb_id s = i \<and> P s) now m h))"
proof (cases "dict_get (hb_subs h) i")
  case None
  with assms have "(j, s) \<in> set (hb_subs h) \<Longrightarrow> sb_id s \<noteq> i" for j s
    by (force simp: keyed_def dict_get_None_iff)
  with None show ?thesis by (simp add: offer_to_def broadcast_none)
next
  case (Some s)
  have only: "sb_id t = j \<and> (j = i \<longrightarrow> t = s)" if "(j, t) \<in> set (hb_subs h)" for j t
    using keyed_mem [OF assms that] Some by auto
  show ?thesis
  proof (cases "P s")
    case False
    with only have "(j, t) \<in> set (hb_subs h) \<Longrightarrow> \<not> (sb_id t = i \<and> P t)" for j t by blast
    from broadcast_none [OF this] Some False show ?thesis by (simp add: offer_to_def)
  next
    case True
    have wf: "wf_dict (hb_subs h)" using assms by (simp add: keyed_def)
    have "filter (\<lambda>(j, t). (sb_id t = i \<and> P t) \<and> fst (offer now m t)) (hb_subs h)
        = filter (\<lambda>(j, t). j = i \<and> fst (offer now m s)) (hb_subs h)"
      using only True by (intro filter_cong) auto
    also have "\<dots> = (if fst (offer now m s) then [(i, s)] else [])"
      unfolding case_prod_beta' by (rule filter_key [OF wf Some])
    finally have count: "fst (broadcast (\<lambda>s. sb_id s = i \<and> P s) now m h) = (if fst (offer now m s) then 1 else 0)"
      by (simp add: broadcast_def)
    have "map (\<lambda>(j, t). (j, if sb_id t = i \<and> P t then snd (offer now m t) else t)) (hb_subs h)
        = map (\<lambda>(j, t). (j, if j = i then snd (offer now m s) else t)) (hb_subs h)"
      using only True by (intro map_cong) auto
    then have "snd (broadcast (\<lambda>s. sb_id s = i \<and> P s) now m h) = h\<lparr>hb_subs := dict_set i (snd (offer now m s)) (hb_subs h)\<rparr>"
      by (simp add: broadcast_def dict_set_map [OF wf Some])
    with count Some True show ?thesis by (simp add: offer_to_def case_prod_beta)
  qed
qed

text \<open>A loop over distinct ids offers to exactly the qualifying subscriptions among them.\<close>

lemma fold_offer_to:
  assumes "keyed h" and "distinct ids"
  shows "fold (offer_to now m P) ids (n, h)
    = (n + fst (broadcast (\<lambda>s. sb_id s \<in> set ids \<and> P s) now m h), snd (broadcast (\<lambda>s. sb_id s \<in> set ids \<and> P s) now m h))"
  using assms
proof (induction ids arbitrary: n h)
  case Nil
  then show ?case by (simp add: broadcast_none)
next
  case (Cons i ids)
  let ?P = "\<lambda>s. sb_id s = i \<and> P s" and ?Q = "\<lambda>s. sb_id s \<in> set ids \<and> P s"
  have "broadcast (\<lambda>s. ?P s \<or> ?Q s) now m h = broadcast (\<lambda>s. sb_id s \<in> set (i # ids) \<and> P s) now m h"
    by (rule broadcast_cong) auto
  moreover have "\<And>s. ?P s \<Longrightarrow> \<not> ?Q s \<and> \<not> ?Q (snd (offer now m s))" using Cons.prems(2) by auto
  note broadcast_twice [where P = ?P and Q = ?Q, OF this, of h]
  ultimately show ?case
    using Cons.prems Cons.IH [OF keyed_broadcast [OF Cons.prems(1)], of "n + fst (broadcast ?P now m h)" ?P now m]
    by (simp add: offer_to_broadcast prod_eq_iff add.assoc)
qed

section \<open>The indexes lose nothing\<close>

lemma hub_ok_keyed: "hub_ok h \<Longrightarrow> keyed h"
  by (simp add: hub_ok_def keyed_def)

lemma finite_held: "finite {i. \<exists>s. dict_get d i = Some s \<and> P i s}"
  by (rule finite_subset [of _ "fst ` set d"]) (auto dest!: dict_get_Some_in simp: rev_image_eqI)

lemma unscoped_iff:
  "keyed h \<Longrightarrow> unscoped h = {i. \<exists>s. dict_get (hb_subs h) i = Some s \<and> sc_cameras (sb_scope s) = []}"
  unfolding unscoped_def using keyed_mem [of h] dict_get_Some_in [of "hb_subs h"] by blast

lemma finite_unscoped: "keyed h \<Longrightarrow> finite (unscoped h)"
  unfolding unscoped_iff by (rule finite_held)

lemma set_for_camera:
  assumes "hub_ok h" and "enumerates enum"
  shows "set (for_camera enum h c) = {i. \<exists>s. dict_get (hb_subs h) i = Some s \<and> scope_covers_camera (sb_scope s) c}
    \<and> distinct (for_camera enum h c)"
proof -
  have key: "keyed h" using assms(1) by (rule hub_ok_keyed)
  have held: "holders (hb_by_camera h) c = {i. \<exists>s. dict_get (hb_subs h) i = Some s \<and> c \<in> set (sc_cameras (sb_scope s))}"
    using assms(1) by (simp add: hub_ok_def)
  let ?S = "holders (hb_by_camera h) c \<union> unscoped h"
  have S: "?S = {i. \<exists>s. dict_get (hb_subs h) i = Some s \<and> scope_covers_camera (sb_scope s) c}"
    unfolding held unscoped_iff [OF key] by (auto simp: scope_covers_camera_def)
  then have "finite ?S" by (simp add: finite_held)
  then have "set (enum ?S) = ?S" "distinct (enum ?S)" using assms(2) by (auto simp: enumerates_def)
  with S show ?thesis by (auto simp: for_camera_def)
qed

lemma candidates_cover:
  assumes "hub_ok h" and "enumerates enum"
  shows "distinct (candidates enum h ob)
    \<and> ((i, s) \<in> set (hb_subs h) \<longrightarrow> in_scope s ob \<longrightarrow> subscription_filter_matches (sb_filter s) ob
       \<longrightarrow> sb_id s \<in> set (candidates enum h ob))"
proof -
  have key: "keyed h" using assms(1) by (rule hub_ok_keyed)
  let ?T = "holders (hb_by_type h) (ob_type ob)"
  let ?C = "case dict_get (hb_by_camera h) (ob_camera ob) of None \<Rightarrow> unscoped h | Some ids \<Rightarrow> ids \<union> unscoped h"
  have C: "?C = holders (hb_by_camera h) (ob_camera ob) \<union> unscoped h"
    by (simp add: holders_def split: option.split)
  have T: "?T = {i. \<exists>s. dict_get (hb_subs h) i = Some s \<and> ob_type ob \<in> set (kinds_of s)}"
    and B: "holders (hb_by_camera h) (ob_camera ob)
      = {i. \<exists>s. dict_get (hb_subs h) i = Some s \<and> ob_camera ob \<in> set (sc_cameras (sb_scope s))}"
    using assms(1) by (simp_all add: hub_ok_def)
  have "finite ?T" unfolding T by (rule finite_held)
  then have e: "set (enum (?T \<inter> ?C)) = ?T \<inter> ?C" "distinct (enum (?T \<inter> ?C))"
    using assms(2) by (simp_all add: enumerates_def)
  have "sb_id s \<in> ?T \<inter> ?C" if mem: "(i, s) \<in> set (hb_subs h)" and sc: "in_scope s ob"
    and mt: "subscription_filter_matches (sb_filter s) ob"
  proof -
    have get: "dict_get (hb_subs h) (sb_id s) = Some s" using keyed_mem [OF key mem] by simp
    have "ob_type ob \<in> set (kinds_of s)"
      using mt by (auto simp: kinds_of_def subscription_filter_matches_def split: if_splits)
    moreover have "ob_camera ob \<in> set (sc_cameras (sb_scope s)) \<or> sc_cameras (sb_scope s) = []"
      using sc by (auto simp: in_scope_def scope_covers_camera_def split: if_splits)
    ultimately show ?thesis
      using get unfolding C unfolding T B unscoped_iff [OF key] by blast
  qed
  with e keyed_mem [OF key] show ?thesis by (auto simp: candidates_def)
qed

definition wants :: "observation \<Rightarrow> subscription \<Rightarrow> bool" where
  "wants ob s \<longleftrightarrow>
     ob_tenant ob = sc_tenant (sb_scope s) \<and> scope_covers_camera (sb_scope s) (ob_camera ob)
     \<and> subscription_filter_matches (sb_filter s) ob"

lemma wants_iff: "wants ob s \<longleftrightarrow> in_scope s ob \<and> subscription_filter_matches (sb_filter s) ob"
  by (simp add: wants_def in_scope_def)

lemma publish_one_broadcast:
  assumes "hub_ok h" and "enumerates enum"
  shows "publish_one enum now ob (n, h)
    = (n + fst (broadcast (wants ob) now (MObservation ob) h), snd (broadcast (wants ob) now (MObservation ob) h))"
proof -
  let ?P = "\<lambda>s. in_scope s ob \<and> subscription_filter_matches (sb_filter s) ob"
  have "broadcast (\<lambda>s. sb_id s \<in> set (candidates enum h ob) \<and> ?P s) now (MObservation ob) h
      = broadcast (wants ob) now (MObservation ob) h"
    using candidates_cover [OF assms] by (intro broadcast_cong) (auto simp: wants_iff)
  then show ?thesis
    using fold_offer_to [OF hub_ok_keyed [OF assms(1)], of "candidates enum h ob" now "MObservation ob" ?P n]
      candidates_cover [OF assms, of ob] by (simp add: publish_one_def)
qed

section \<open>Keeping the indexes\<close>

lemma offer_keeps [simp]:
  "sb_scope (snd (offer now m s)) = sb_scope s" "sb_filter (snd (offer now m s)) = sb_filter s"
  "sb_policy (snd (offer now m s)) = sb_policy s" "sb_principal (snd (offer now m s)) = sb_principal s"
  using offer_same_contract [of now m s] by (simp_all add: same_contract_def)

text \<open>
  Changing the states of subscriptions without changing what they were made with keeps \<open>hub_ok\<close>.
\<close>

definition refreshed :: "hub \<Rightarrow> hub \<Rightarrow> bool" where
  "refreshed h h' \<longleftrightarrow>
     hb_by_type h' = hb_by_type h \<and> hb_by_camera h' = hb_by_camera h
     \<and> dict_keys (hb_subs h') = dict_keys (hb_subs h)
     \<and> (\<forall>i s'. dict_get (hb_subs h') i = Some s' \<longrightarrow> (\<exists>s. dict_get (hb_subs h) i = Some s \<and> same_contract s' s))"

lemma refreshed_iff:
  assumes "refreshed h h'"
  shows "(\<exists>s. dict_get (hb_subs h') i = Some s \<and> Q (sb_scope s) (sb_filter s))
    \<longleftrightarrow> (\<exists>s. dict_get (hb_subs h) i = Some s \<and> Q (sb_scope s) (sb_filter s))"
proof -
  have "dict_get (hb_subs h') i = None \<longleftrightarrow> dict_get (hb_subs h) i = None"
    using assms by (simp add: dict_get_None_iff refreshed_def)
  then show ?thesis
    using assms unfolding refreshed_def same_contract_def
    by (cases "dict_get (hb_subs h') i"; cases "dict_get (hb_subs h) i") fastforce+
qed

lemma refreshed_ok:
  assumes "hub_ok h" and "refreshed h h'"
  shows "hub_ok h'"
proof -
  have wf: "wf_dict (hb_subs h')" using assms by (simp add: hub_ok_def refreshed_def wf_dict_def)
  have "sb_id s = i" if "(i, s) \<in> set (hb_subs h')" for i s
  proof -
    have "dict_get (hb_subs h') i = Some s" using wf that by (rule in_dict_get)
    then obtain t where "dict_get (hb_subs h) i = Some t" and "same_contract s t"
      using assms(2) by (auto simp: refreshed_def)
    with keyed_get [OF hub_ok_keyed [OF assms(1)]] show ?thesis by (auto simp: same_contract_def)
  qed
  moreover have "(\<exists>s. dict_get (hb_subs h') i = Some s \<and> k \<in> set (kinds_of s))
      \<longleftrightarrow> (\<exists>s. dict_get (hb_subs h) i = Some s \<and> k \<in> set (kinds_of s))" for i k
    unfolding kinds_of_def
    by (rule refreshed_iff [OF assms(2), of _ "\<lambda>_ f. k \<in> set (if sf_types f = [] then all_observation_types else sf_types f)"])
  moreover have "(\<exists>s. dict_get (hb_subs h') i = Some s \<and> c \<in> set (sc_cameras (sb_scope s)))
      \<longleftrightarrow> (\<exists>s. dict_get (hb_subs h) i = Some s \<and> c \<in> set (sc_cameras (sb_scope s)))" for i c
    by (rule refreshed_iff [OF assms(2), of _ "\<lambda>sc _. c \<in> set (sc_cameras sc)"])
  ultimately show ?thesis
    using assms wf by (auto simp: hub_ok_def refreshed_def)
qed

lemma dict_get_broadcast:
  "dict_get (hb_subs (snd (broadcast P now m h))) i
   = map_option (\<lambda>s. if P s then snd (offer now m s) else s) (dict_get (hb_subs h) i)"
  by (simp add: broadcast_def dict_get_def map_of_map)

lemma broadcast_refreshed: "refreshed h (snd (broadcast P now m h))"
  using offer_same_contract
  by (auto simp: refreshed_def dict_get_broadcast)
    (auto simp: broadcast_def comp_def case_prod_beta same_contract_def)

lemma broadcast_ok: "hub_ok h \<Longrightarrow> hub_ok (snd (broadcast P now m h))"
  using refreshed_ok broadcast_refreshed by blast

section \<open>Observations reach exactly the subscriptions that want them\<close>

definition broadcast_all :: "instant \<Rightarrow> observation list \<Rightarrow> hub \<Rightarrow> int \<times> hub" where
  "broadcast_all now obs h =
     fold (\<lambda>ob (n, h). let (k, h') = broadcast (wants ob) now (MObservation ob) h in (n + k, h')) obs (0, h)"

lemma publish_broadcast:
  assumes "hub_ok h" and "enumerates enum"
  shows "fold (publish_one enum now) obs (n, h)
    = fold (\<lambda>ob (n, h). let (k, h') = broadcast (wants ob) now (MObservation ob) h in (n + k, h')) obs (n, h)"
  using assms(1)
proof (induction obs arbitrary: n h)
  case (Cons ob obs)
  then show ?case
    by (simp add: publish_one_broadcast [OF Cons.prems assms(2)] broadcast_ok case_prod_beta Let_def)
qed simp

lemma publish_ok: "hub_ok h \<Longrightarrow> enumerates enum \<Longrightarrow> hub_ok (snd (publish enum now obs h))"
  unfolding publish_def
proof (induction obs arbitrary: h rule: rev_induct)
  case (snoc ob obs)
  then show ?case
    using publish_one_broadcast [of "snd (fold (publish_one enum now) obs (0, h))" enum now ob
        "fst (fold (publish_one enum now) obs (0, h))"]
    by (simp add: broadcast_ok)
qed simp

text \<open>
  C10: the fan-out index is exact. Publishing a batch through the index by type and by camera, in
  whatever order Python iterates the candidate sets, gives the same subscriptions and the same
  count as offering each observation in turn to every subscription of its tenant whose scope
  covers its camera and whose filter matches it, with no index at all.
\<close>

theorem publish_reaches_exactly_wanting:
  assumes "hub_ok h" and "enumerates enum"
  shows "publish enum now obs h = broadcast_all now obs h \<and> hub_ok (snd (publish enum now obs h))"
  using publish_broadcast [OF assms, of now obs 0] publish_ok [OF assms, of now obs]
  unfolding publish_def broadcast_all_def by (intro conjI)

section \<open>Deltas, coverage changes and gaps\<close>

lemma for_camera_broadcast:
  assumes "hub_ok h" and "enumerates enum"
  shows "fold (offer_to now m (\<lambda>s. scope_covers_camera (sb_scope s) c)) (for_camera enum h c) (0, h)
    = broadcast (\<lambda>s. scope_covers_camera (sb_scope s) c) now m h"
proof -
  let ?P = "\<lambda>s. scope_covers_camera (sb_scope s) c"
  have "broadcast (\<lambda>s. sb_id s \<in> set (for_camera enum h c) \<and> ?P s) now m h = broadcast ?P now m h"
    using set_for_camera [OF assms, of c] keyed_mem [OF hub_ok_keyed [OF assms(1)]]
    by (intro broadcast_cong) auto
  then show ?thesis
    using fold_offer_to [OF hub_ok_keyed [OF assms(1)], of "for_camera enum h c" now m ?P 0]
      set_for_camera [OF assms, of c] by (simp add: prod_eq_iff)
qed

lemma for_camera_refreshed:
  assumes "hub_ok h"
  shows "for_camera enum (snd (broadcast P now m h)) c = for_camera enum h c"
proof -
  have "unscoped (snd (broadcast P now m h)) = unscoped h"
    using refreshed_iff [OF broadcast_refreshed [of h P now m], of _ "\<lambda>sc _. sc_cameras sc = []"]
    by (simp add: unscoped_iff hub_ok_keyed [OF assms] hub_ok_keyed [OF broadcast_ok [OF assms]])
  moreover have "dict_get (hb_subs (snd (broadcast P now m h))) i \<noteq> None \<longleftrightarrow> dict_get (hb_subs h) i \<noteq> None" for i
    by (simp add: dict_get_broadcast)
  ultimately show ?thesis by (simp add: for_camera_def broadcast_def)
qed

definition visited :: "instant \<Rightarrow> gap \<Rightarrow> hub \<Rightarrow> string set \<Rightarrow> string set \<times> int \<times> hub" where
  "visited now g h seen = (seen, broadcast (\<lambda>s. sb_id s \<in> seen) now (MGap g) h)"

lemma gap_visit_visited:
  assumes "keyed h"
  shows "gap_visit now g i (visited now g h seen) = visited now g h (insert i seen)"
proof (cases "i \<in> seen")
  case True
  then show ?thesis by (simp add: visited_def insert_absorb)
next
  case False
  let ?P = "\<lambda>s. sb_id s \<in> seen" and ?Q = "\<lambda>s. sb_id s = i \<and> True"
  have "\<And>s. ?P s \<Longrightarrow> \<not> ?Q s \<and> \<not> ?Q (snd (offer now (MGap g) s))" using False by auto
  note twice = broadcast_twice [where P = ?P and Q = ?Q, OF this, of h]
  have "broadcast (\<lambda>s. ?P s \<or> ?Q s) now (MGap g) h = broadcast (\<lambda>s. sb_id s \<in> insert i seen) now (MGap g) h"
    by (rule broadcast_cong) auto
  with twice False show ?thesis
    using offer_to_broadcast [OF keyed_broadcast [OF assms], of now "MGap g" "\<lambda>_. True" i
        "fst (broadcast ?P now (MGap g) h)" ?P now "MGap g"]
    by (simp add: visited_def prod_eq_iff)
qed

lemma fold_gap_visit: "keyed h \<Longrightarrow> fold (gap_visit now g) ids (visited now g h seen) = visited now g h (seen \<union> set ids)"
  by (induction ids arbitrary: seen) (simp_all add: gap_visit_visited)

lemma gap_camera_visited:
  assumes "hub_ok h"
  shows "gap_camera enum now g c (visited now g h seen) = visited now g h (seen \<union> set (for_camera enum h c))"
  using fold_gap_visit [OF hub_ok_keyed [OF assms], of now g "for_camera enum h c" seen]
  by (simp add: gap_camera_def visited_def for_camera_refreshed [OF assms])

lemma fold_gap_camera:
  assumes "hub_ok h"
  shows "fold (gap_camera enum now g) cs (visited now g h seen)
    = visited now g h (seen \<union> (\<Union>c \<in> set cs. set (for_camera enum h c)))"
  by (induction cs arbitrary: seen) (simp_all add: gap_camera_visited [OF assms] Un_assoc)

lemma publish_gap_broadcast:
  assumes "hub_ok h" and "enumerates enum"
  shows "publish_gap enum now g h
    = broadcast (\<lambda>s. \<exists>c \<in> set (if gp_cameras g \<noteq> [] then gp_cameras g else dict_keys (hb_by_camera h)).
                   scope_covers_camera (sb_scope s) c) now (MGap g) h"
proof -
  let ?cs = "if gp_cameras g \<noteq> [] then gp_cameras g else dict_keys (hb_by_camera h)"
  have "visited now g h {} = ({}, 0, h)" by (simp add: visited_def broadcast_none)
  then have "publish_gap enum now g h = snd (visited now g h (\<Union>c \<in> set ?cs. set (for_camera enum h c)))"
    using fold_gap_camera [OF assms(1), of enum now g ?cs "{}"] by (simp add: publish_gap_def)
  also have "\<dots> = broadcast (\<lambda>s. \<exists>c \<in> set ?cs. scope_covers_camera (sb_scope s) c) now (MGap g) h"
    unfolding visited_def snd_conv
    using set_for_camera [OF assms] keyed_mem [OF hub_ok_keyed [OF assms(1)]]
    by (intro broadcast_cong) (auto simp del: set_map)
  finally show ?thesis .
qed

lemma named_camera_indexed:
  assumes "hub_ok h" and "(i, s) \<in> set (hb_subs h)" and "c \<in> set (sc_cameras (sb_scope s))"
  shows "c \<in> set (dict_keys (hb_by_camera h))"
proof (rule ccontr)
  assume "c \<notin> set (dict_keys (hb_by_camera h))"
  then have "holders (hb_by_camera h) c = {}" by (simp add: holders_def dict_get_None_iff [THEN iffD2])
  moreover have "dict_get (hb_subs h) i = Some s"
    using assms keyed_mem hub_ok_keyed by blast
  ultimately show False using assms(1,3) by (auto simp: hub_ok_def)
qed

lemma everyone_gap:
  assumes "hub_ok h" and "(i, s) \<in> set (hb_subs h)"
  shows "(\<exists>c \<in> set (dict_keys (hb_by_camera h)). scope_covers_camera (sb_scope s) c)
    \<longleftrightarrow> sc_cameras (sb_scope s) \<noteq> [] \<or> hb_by_camera h \<noteq> []"
proof (cases "sc_cameras (sb_scope s)")
  case Nil
  then show ?thesis by (cases "hb_by_camera h") (auto simp: scope_covers_camera_def)
next
  case (Cons c cs)
  with named_camera_indexed [OF assms, of c] have "c \<in> set (dict_keys (hb_by_camera h))" by simp
  with Cons show ?thesis by (auto simp: scope_covers_camera_def)
qed

text \<open>
  C40: who receives deltas, coverage changes and gaps. A delta or a coverage change goes to exactly
  the subscriptions whose scope covers its camera, and a gap that names cameras to exactly those
  covering one of them, with no regard to the tenant: a subscription whose scope names no cameras
  receives those of every tenant. A gap that names no camera goes to the subscriptions that name
  cameras, and to the others only if the camera index is not empty: if no subscription has named a
  camera, it reaches nobody.
\<close>

theorem platform_message_recipients:
  assumes "hub_ok h" and "enumerates enum"
  shows "publish_delta enum now d h
      = broadcast (\<lambda>s. scope_covers_camera (sb_scope s) (sd_camera d)) now (MDelta d) h
    \<and> publish_coverage enum now c h
      = broadcast (\<lambda>s. scope_covers_camera (sb_scope s) (cc_camera c)) now (MCoverage c) h
    \<and> publish_gap enum now g h
      = broadcast (\<lambda>s. if gp_cameras g = [] then sc_cameras (sb_scope s) \<noteq> [] \<or> hb_by_camera h \<noteq> []
                       else \<exists>c \<in> set (gp_cameras g). scope_covers_camera (sb_scope s) c) now (MGap g) h"
proof (intro conjI)
  show "publish_gap enum now g h
      = broadcast (\<lambda>s. if gp_cameras g = [] then sc_cameras (sb_scope s) \<noteq> [] \<or> hb_by_camera h \<noteq> []
                       else \<exists>c \<in> set (gp_cameras g). scope_covers_camera (sb_scope s) c) now (MGap g) h"
    unfolding publish_gap_broadcast [OF assms]
    using everyone_gap [OF assms(1)] by (intro broadcast_cong) (auto simp del: set_map)
qed (simp_all add: publish_delta_def publish_coverage_def for_camera_broadcast [OF assms])

section \<open>Every reachable hub\<close>

inductive hub_step :: "(string set \<Rightarrow> string list) \<Rightarrow> hub \<Rightarrow> hub \<Rightarrow> bool" for enum where
  add: "dict_get (hb_subs h) i = None \<Longrightarrow> mk_delivery_policy pol = Inr pol
        \<Longrightarrow> hub_step enum h (hub_add (subscription_init i p sc f pol now) h)"
| remove: "hub_step enum h (snd (hub_remove i h))"
| publish: "hub_step enum h (snd (publish enum now obs h))"
| delta: "hub_step enum h (snd (publish_delta enum now d h))"
| coverage: "hub_step enum h (snd (publish_coverage enum now c h))"
| gap: "hub_step enum h (snd (publish_gap enum now g h))"
| beat: "hub_step enum h (snd (hub_beat now h))"
| drain: "hub_step enum h (snd (hub_drain i limit h))"

definition subscription_ok :: "subscription \<Rightarrow> bool" where
  "subscription_ok s \<longleftrightarrow>
     int (length (sb_queue s)) \<le> dp_queue_capacity (sb_policy s)
     \<and> (\<forall>ob. MObservation ob \<in> set (sb_queue s) \<longrightarrow> wants ob s)
     \<and> (\<forall>(x, ob) \<in> set (sb_conflated s). wants ob s \<and> ob_object ob = Some x)
     \<and> (dp_overflow (sb_policy s) \<noteq> CONFLATE \<longrightarrow> sb_conflated s = [])"

lemma wants_same_contract: "same_contract s t \<Longrightarrow> wants ob s = wants ob t"
  by (simp add: same_contract_def wants_def)

lemma offer_contents:
  "set (sb_queue (snd (offer now m s))) \<subseteq> insert m (set (sb_queue s))
   \<and> (\<forall>(x, ob) \<in> set (sb_conflated (snd (offer now m s))).
        (x, ob) \<in> set (sb_conflated s) \<or> m = MObservation ob \<and> ob_object ob = Some x)
   \<and> (dp_overflow (sb_policy s) \<noteq> CONFLATE \<longrightarrow> sb_conflated (snd (offer now m s)) = sb_conflated s)"
  by (auto simp: offer_def overflow_def conflate_def Let_def dest!: in_dict_set
      split: message.splits option.splits overflow_policy.splits list.splits)

lemma offer_bounded:
  "int (length (sb_queue s)) \<le> dp_queue_capacity (sb_policy s)
   \<Longrightarrow> int (length (sb_queue (snd (offer now m s)))) \<le> dp_queue_capacity (sb_policy s)"
  by (auto simp: offer_def overflow_def conflate_def Let_def
      split: message.splits option.splits overflow_policy.splits list.splits)

lemma offer_subscription_ok:
  assumes "subscription_ok s" and "\<And>ob. m = MObservation ob \<Longrightarrow> wants ob s"
  shows "subscription_ok (snd (offer now m s))"
  unfolding subscription_ok_def wants_same_contract [OF offer_same_contract] offer_keeps
proof (intro conjI)
  show "int (length (sb_queue (snd (offer now m s)))) \<le> dp_queue_capacity (sb_policy s)"
    using assms(1) by (simp add: subscription_ok_def offer_bounded)
  show "\<forall>ob. MObservation ob \<in> set (sb_queue (snd (offer now m s))) \<longrightarrow> wants ob s"
    using assms offer_contents [of now m s] unfolding subscription_ok_def by blast
  show "\<forall>(x, ob) \<in> set (sb_conflated (snd (offer now m s))). wants ob s \<and> ob_object ob = Some x"
    using assms offer_contents [of now m s] unfolding subscription_ok_def by blast
  show "dp_overflow (sb_policy s) \<noteq> CONFLATE \<longrightarrow> sb_conflated (snd (offer now m s)) = []"
    using assms(1) offer_contents [of now m s] unfolding subscription_ok_def by simp
qed

lemma drain_subscription_ok: "subscription_ok s \<Longrightarrow> subscription_ok (snd (drain n s))"
  by (auto simp: subscription_ok_def drain_def Let_def wants_def dest: in_set_dropD)

lemma beat_subscription_ok: "subscription_ok s \<Longrightarrow> subscription_ok (snd (beat now s))"
  by (auto simp: subscription_ok_def beat_def wants_def)

lemma init_subscription_ok:
  "mk_delivery_policy pol = Inr pol \<Longrightarrow> subscription_ok (subscription_init i p sc f pol now)"
  by (auto simp: subscription_ok_def subscription_init_def mk_delivery_policy_def split: if_splits)

lemmas subscription_ok_kept = offer_subscription_ok drain_subscription_ok beat_subscription_ok

definition hub_inv :: "hub \<Rightarrow> bool" where
  "hub_inv h \<longleftrightarrow> hub_ok h \<and> (\<forall>(i, s) \<in> set (hb_subs h). subscription_ok s)"

lemma broadcast_inv:
  assumes "hub_inv h" and "\<And>ob s. m = MObservation ob \<Longrightarrow> P s \<Longrightarrow> wants ob s"
  shows "hub_inv (snd (broadcast P now m h))"
proof -
  have "subscription_ok (if P s then snd (offer now m s) else s)" if "(i, s) \<in> set (hb_subs h)" for i s
  proof -
    have "subscription_ok s" using assms(1) that unfolding hub_inv_def by blast
    then show ?thesis using offer_subscription_ok [of s m now] assms(2) by simp
  qed
  then have "\<forall>(i, s) \<in> set (hb_subs (snd (broadcast P now m h))). subscription_ok s"
    by (fastforce simp: broadcast_def)
  with assms(1) broadcast_ok [of h P now m] show ?thesis by (simp add: hub_inv_def)
qed

lemma set_sub_inv:
  assumes "hub_inv h" and "dict_get (hb_subs h) i = Some s" and "same_contract t s" and "subscription_ok t"
  shows "hub_inv (h\<lparr>hb_subs := dict_set i t (hb_subs h)\<rparr>)"
proof -
  have "i \<in> set (dict_keys (hb_subs h))" using assms(2) dict_get_Some_in by force
  then have "refreshed h (h\<lparr>hb_subs := dict_set i t (hb_subs h)\<rparr>)"
    using assms(2,3) by (auto simp: refreshed_def dict_simps same_contract_def simp del: set_map)
  moreover have "\<forall>(j, u) \<in> set (dict_set i t (hb_subs h)). subscription_ok u"
    using assms(1,4) in_dict_set [of _ _ i t "hb_subs h"] unfolding hub_inv_def by blast
  ultimately show ?thesis using assms(1) refreshed_ok by (auto simp: hub_inv_def)
qed

lemma publish_inv:
  assumes "hub_inv h" and "enumerates enum"
  shows "hub_inv (snd (publish enum now obs h))"
  unfolding publish_def
proof (induction obs rule: rev_induct)
  case (snoc ob obs)
  let ?st = "fold (publish_one enum now) obs (0, h)"
  have "hub_inv (snd (broadcast (wants ob) now (MObservation ob) (snd ?st)))"
    using snoc by (rule broadcast_inv) simp
  moreover have "hub_ok (snd ?st)" using snoc by (simp add: hub_inv_def)
  ultimately show ?case
    using publish_one_broadcast [OF _ assms(2), of "snd ?st" now ob "fst ?st"] by simp
qed (use assms in simp)

lemma hub_beat_inv:
  assumes "hub_inv h"
  shows "hub_inv (snd (fold (hub_beat_one now) ids (n, h)))"
  using assms
proof (induction ids arbitrary: n h)
  case (Cons i ids)
  have "hub_inv (snd (hub_beat_one now i (n, h)))"
  proof (cases "dict_get (hb_subs h) i")
    case (Some s)
    let ?t = "snd (offer now (MHeartbeat (fst (beat now s))) (snd (beat now s)))"
    have "subscription_ok s"
      using Cons.prems dict_get_Some_in [OF Some] unfolding hub_inv_def by blast
    then have "subscription_ok ?t"
      by (intro offer_subscription_ok beat_subscription_ok) auto
    moreover have "same_contract ?t s"
      using beat_same_contract [of now s] by (simp add: same_contract_def)
    ultimately have "hub_inv (h\<lparr>hb_subs := dict_set i ?t (hb_subs h)\<rparr>)"
      using set_sub_inv [OF Cons.prems Some] by blast
    with Some Cons.prems show ?thesis by (simp add: hub_beat_one_def case_prod_beta Let_def)
  qed (use Cons.prems in \<open>simp add: hub_beat_one_def\<close>)
  from Cons.IH [OF this, of "fst (hub_beat_one now i (n, h))"] show ?case by simp
qed simp

lemma hub_drain_inv:
  assumes "hub_inv h"
  shows "hub_inv (snd (hub_drain i limit h))"
proof (cases "dict_get (hb_subs h) i")
  case (Some s)
  then have "subscription_ok s" using assms dict_get_Some_in [OF Some] unfolding hub_inv_def by blast
  with set_sub_inv [OF assms Some drain_same_contract drain_subscription_ok, of limit] Some show ?thesis
    by (simp add: hub_drain_def case_prod_beta Let_def)
qed (use assms in \<open>simp add: hub_drain_def\<close>)

lemma holders_index_add: "holders (index_add i k ix) k' = (if k' = k then insert i (holders ix k) else holders ix k')"
  by (simp add: index_add_def holders_def dict_simps)

lemma holders_fold_index_add:
  "holders (fold (index_add i) ks ix) k = (if k \<in> set ks then insert i (holders ix k) else holders ix k)"
  by (induction ks arbitrary: ix) (auto simp: holders_index_add)

lemma wf_fold_index_add: "wf_dict ix \<Longrightarrow> wf_dict (fold (index_add i) ks ix)"
  by (induction ks arbitrary: ix) (simp_all add: index_add_def)

lemma holders_index_discard: "holders (index_discard i ix) k = holders ix k - {i}"
  by (simp add: holders_def index_discard_def dict_get_def map_of_map split: option.split)

lemma wf_index_discard: "wf_dict ix \<Longrightarrow> wf_dict (index_discard i ix)"
  by (simp add: wf_dict_def index_discard_def comp_def case_prod_beta)

lemma hub_add_inv:
  assumes "hub_inv h" and "dict_get (hb_subs h) (sb_id s) = None" and "subscription_ok s"
  shows "hub_inv (hub_add s h)"
proof -
  have index: "insert (sb_id s) {i. \<exists>t. dict_get (hb_subs h) i = Some t \<and> P t}
      = {i. \<exists>t. dict_get (dict_set (sb_id s) s (hb_subs h)) i = Some t \<and> P t}" if "P s" for P
    using assms(2) that by (auto simp: dict_simps)
  have no_index: "{i. \<exists>t. dict_get (hb_subs h) i = Some t \<and> P t}
      = {i. \<exists>t. dict_get (dict_set (sb_id s) s (hb_subs h)) i = Some t \<and> P t}" if "\<not> P s" for P
    using assms(2) that by (auto simp: dict_simps)
  have held: "holders (hb_by_type h) k = {i. \<exists>t. dict_get (hb_subs h) i = Some t \<and> k \<in> set (kinds_of t)}"
    "holders (hb_by_camera h) c = {i. \<exists>t. dict_get (hb_subs h) i = Some t \<and> c \<in> set (sc_cameras (sb_scope t))}" for k c
    using assms(1) by (simp_all add: hub_inv_def hub_ok_def)
  have "holders (hb_by_type (hub_add s h)) k
      = {i. \<exists>t. dict_get (hb_subs (hub_add s h)) i = Some t \<and> k \<in> set (kinds_of t)}" for k
    using index [of "\<lambda>t. k \<in> set (kinds_of t)"] no_index [of "\<lambda>t. k \<in> set (kinds_of t)"]
    by (simp add: hub_add_def holders_fold_index_add held)
  moreover have "holders (hb_by_camera (hub_add s h)) c
      = {i. \<exists>t. dict_get (hb_subs (hub_add s h)) i = Some t \<and> c \<in> set (sc_cameras (sb_scope t))}" for c
    using index [of "\<lambda>t. c \<in> set (sc_cameras (sb_scope t))"] no_index [of "\<lambda>t. c \<in> set (sc_cameras (sb_scope t))"]
    by (simp add: hub_add_def holders_fold_index_add held)
  moreover have "\<forall>(i, t) \<in> set (hb_subs (hub_add s h)). sb_id t = i \<and> subscription_ok t"
    using assms(1,3) in_dict_set [of _ _ "sb_id s" s "hb_subs h"]
    unfolding hub_inv_def hub_ok_def hub_add_def by fastforce
  ultimately show ?thesis
    using assms(1) by (auto simp: hub_inv_def hub_ok_def hub_add_def wf_fold_index_add)
qed

lemma hub_remove_inv:
  assumes "hub_inv h"
  shows "hub_inv (snd (hub_remove i h))"
proof (cases "dict_get (hb_subs h) i")
  case (Some s)
  have del: "{j. \<exists>t. dict_get (hb_subs h) j = Some t \<and> P t} - {i}
      = {j. \<exists>t. dict_get (dict_del i (hb_subs h)) j = Some t \<and> P t}" for P
    by (auto simp: dict_simps)
  have "\<forall>(j, t) \<in> set (dict_del i (hb_subs h)). sb_id t = j \<and> subscription_ok t"
    using assms unfolding hub_inv_def hub_ok_def by (fastforce simp: dict_simps)
  with Some assms show ?thesis
    by (auto simp: hub_inv_def hub_ok_def hub_remove_def holders_index_discard wf_index_discard del)
qed (use assms in \<open>simp add: hub_remove_def\<close>)

lemma hub_step_inv:
  assumes "hub_step enum h h'" and "enumerates enum" and "hub_inv h"
  shows "hub_inv h'"
proof -
  have ok: "hub_ok h" using assms(3) by (simp add: hub_inv_def)
  have camera: "hub_inv (snd (broadcast P now m h))" if "\<And>ob. m \<noteq> MObservation ob" for P now m
    using assms(3) that by (intro broadcast_inv) auto
  show ?thesis
    using assms(1)
  proof (cases rule: hub_step.cases)
    case (add i pol p sc f now)
    then show ?thesis
      using hub_add_inv [OF assms(3), of "subscription_init i p sc f pol now"] init_subscription_ok [of pol]
      by (simp add: subscription_init_def)
  next
    case (gap now g)
    then show ?thesis by (simp add: publish_gap_broadcast [OF ok assms(2)] camera)
  qed (use assms in \<open>simp_all add: publish_delta_def publish_coverage_def for_camera_broadcast [OF ok assms(2)]
      camera publish_inv hub_remove_inv hub_beat_def hub_beat_inv hub_drain_inv\<close>)
qed

lemma hub_reachable_inv:
  assumes "(hub_step enum)\<^sup>*\<^sup>* empty_hub h" and "enumerates enum"
  shows "hub_inv h"
  using assms(1)
proof (induction rule: rtranclp_induct)
  case base
  show ?case by (simp add: hub_inv_def hub_ok_def empty_hub_def holders_def)
next
  case (step h h')
  with hub_step_inv [OF step(2) assms(2)] show ?case by blast
qed

text \<open>
  C3: in every hub reachable by adding, removing, publishing, heartbeats and draining, no
  subscription buffers more messages than its queue capacity, and every observation it holds,
  queued or conflated, is of the tenant of its scope, from a camera its scope covers, and matches
  its filter; only a conflating subscription holds observations beside its queue.
\<close>

theorem reachable_hub_isolates_tenants:
  assumes "(hub_step enum)\<^sup>*\<^sup>* empty_hub h" and "enumerates enum" and "dict_get (hb_subs h) i = Some s"
  shows "int (length (sb_queue s)) \<le> dp_queue_capacity (sb_policy s)
    \<and> (\<forall>ob. MObservation ob \<in> set (sb_queue s) \<or> ob \<in> snd ` set (sb_conflated s)
         \<longrightarrow> ob_tenant ob = sc_tenant (sb_scope s) \<and> scope_covers_camera (sb_scope s) (ob_camera ob)
           \<and> subscription_filter_matches (sb_filter s) ob)
    \<and> (dp_overflow (sb_policy s) \<noteq> CONFLATE \<longrightarrow> sb_conflated s = [])"
proof -
  have "subscription_ok s"
    using hub_reachable_inv [OF assms(1,2)] dict_get_Some_in [OF assms(3)] unfolding hub_inv_def by blast
  then show ?thesis unfolding subscription_ok_def wants_def by fastforce
qed

section \<open>Examples\<close>

definition example_hub :: hub where
  "example_hub =
     hub_add (example_subscription ''s2'' ''other'' [] DROP_WITH_GAP 4)
       (hub_add (example_subscription ''s1'' ''acme'' [''cam-1''] DROP_WITH_GAP 4) empty_hub)"

lemma example_hub_reachable: "(hub_step enum)\<^sup>*\<^sup>* empty_hub example_hub"
proof -
  have ok: "mk_delivery_policy (example_policy DROP_WITH_GAP 4) = Inr (example_policy DROP_WITH_GAP 4)"
    by (simp add: mk_delivery_policy_def example_policy_def)
  have "hub_step enum empty_hub (hub_add (example_subscription ''s1'' ''acme'' [''cam-1''] DROP_WITH_GAP 4) empty_hub)"
    unfolding example_subscription_def by (rule hub_step.add [OF _ ok]) (simp add: empty_hub_def)
  moreover have "hub_step enum (hub_add (example_subscription ''s1'' ''acme'' [''cam-1''] DROP_WITH_GAP 4) empty_hub) example_hub"
    unfolding example_hub_def example_subscription_def
    by (rule hub_step.add [OF _ ok])
      (simp add: empty_hub_def hub_add_def subscription_init_def dict_simps)
  ultimately show ?thesis by (rule converse_rtranclp_into_rtranclp [OF _ r_into_rtranclp])
qed

lemma example_hub_ok: "hub_ok example_hub"
  using hub_reachable_inv [OF example_hub_reachable sorted_list_enumerates] by (simp add: hub_inv_def)

lemma example_hub_subs:
  "hb_subs example_hub =
     [(''s1'', example_subscription ''s1'' ''acme'' [''cam-1''] DROP_WITH_GAP 4),
      (''s2'', example_subscription ''s2'' ''other'' [] DROP_WITH_GAP 4)]"
  by (simp add: example_hub_def hub_add_def empty_hub_def example_subscription_def subscription_init_def dict_set_def)

abbreviation example_batch :: "observation list" where
  "example_batch \<equiv> [example_observation ''a'' ''acme'' ''cam-1'' ''obj-1'' 1]"

lemmas hub_example_defs = broadcast_def wants_def scope_covers_camera_def
  example_hub_subs subscription_filter_matches_def any_filter_def subscription_example_defs example_observation_def

theorem publish_reaches_exactly_wanting_witness:
  "fst (publish sorted_list_of_set (Instant 2) example_batch example_hub) = 1"
  using publish_reaches_exactly_wanting [OF example_hub_ok sorted_list_enumerates, of "Instant 2" example_batch]
  by (simp add: broadcast_all_def hub_example_defs)

definition example_delta :: state_delta where
  "example_delta = \<lparr>sd_camera = ''cam-1'', sd_objects = [''obj-1''], sd_regions = [], sd_at = None\<rparr>"

definition example_gap :: "camera_id list \<Rightarrow> gap" where
  "example_gap cs =
     \<lparr>gp_start = Instant 1, gp_end = Instant 2, gp_reason = PLATFORM_BLIND, gp_cameras = cs, gp_missed = None,
      gp_recoverable = False\<rparr>"

definition example_change :: coverage_change where
  "example_change = \<lparr>cc_camera = ''cam-2'', cc_status = ''blind'', cc_reason = [], cc_at = Instant 1, cc_rate = 0\<rparr>"

theorem platform_message_recipients_witness:
  "fst (publish_delta sorted_list_of_set (Instant 2) example_delta example_hub) = 2
   \<and> fst (publish_coverage sorted_list_of_set (Instant 2) example_change example_hub) = 1
   \<and> fst (publish_gap sorted_list_of_set (Instant 2) (example_gap [''cam-2'']) example_hub) = 1"
  using platform_message_recipients [OF example_hub_ok sorted_list_enumerates, of "Instant 2" example_delta
      example_change "example_gap [''cam-2'']"]
  by (simp add: hub_example_defs example_delta_def example_change_def example_gap_def)

theorem reachable_hub_isolates_tenants_witness:
  "\<exists>s. dict_get (hb_subs (snd (publish sorted_list_of_set (Instant 2) example_batch example_hub))) ''s1'' = Some s
     \<and> int (length (sb_queue s)) \<le> 4
     \<and> (\<forall>ob. MObservation ob \<in> set (sb_queue s) \<longrightarrow> ob_tenant ob = ''acme'')
     \<and> sb_queue s \<noteq> []"
proof -
  let ?h = "snd (publish sorted_list_of_set (Instant 2) example_batch example_hub)"
  have "(hub_step sorted_list_of_set)\<^sup>*\<^sup>* empty_hub ?h"
    using example_hub_reachable hub_step.publish by (rule rtranclp.rtrancl_into_rtrancl)
  note inv = reachable_hub_isolates_tenants [OF this sorted_list_enumerates, of "''s1''"]
  obtain s where s: "dict_get (hb_subs ?h) ''s1'' = Some s"
    "sb_queue s \<noteq> []" "dp_queue_capacity (sb_policy s) = 4" "sc_tenant (sb_scope s) = ''acme''"
    by (simp add: publish_def publish_one_broadcast [OF example_hub_ok sorted_list_enumerates] hub_example_defs)
  with inv [OF s(1)] show ?thesis by auto
qed

end
