(* ===== verification/State_Projection.thy ===== *)
theory State_Projection
  imports Observation
begin

text \<open>
  The state model (\<^verbatim>\<open>vision_os/core/model/vision_state.py\<close>) and the projection of an
  observation into the partition of its camera (\<^verbatim>\<open>vision_os/state/projection.py\<close>). Mappings
  are insertion-ordered dictionaries. The dataclass checks of \<^verbatim>\<open>ObjectState\<close> run whenever a
  state is built or replaced, and so they do here.
\<close>

section \<open>State\<close>

record attribute_state =
  as_key :: attribute_key
  as_value :: py_value
  as_confidence :: confidence
  as_observed_at :: instant
  as_valid_until :: "instant option"
  as_evidence_ref :: "evidence_ref option"
  as_producer :: "provenance option"
  as_previous :: "(py_value \<times> instant) list"

definition as_is_stale :: "attribute_state \<Rightarrow> instant \<Rightarrow> bool" where
  "as_is_stale a now =
     (case as_valid_until a of None \<Rightarrow> False | Some u \<Rightarrow> instant_ns now > instant_ns u)"

record region_membership =
  rm_region :: region_id
  rm_geometry_version :: string
  rm_entered_at :: instant
  rm_last_confirmed :: instant

record identity_summary =
  is_binding_count :: int
  is_assertion_confidence :: "confidence option"
  is_method :: string
  is_ambiguous :: bool

record object_state =
  os_id :: object_id
  os_class :: class_id
  os_class_confidence :: confidence
  os_lifecycle :: lifecycle_state
  os_first_seen :: instant
  os_last_seen :: instant
  os_last_confirmed :: instant
  os_spatial :: "spatial_info option"
  os_basis :: measurement_basis
  os_trajectory :: "(instant \<times> (rat \<times> rat) \<times> measurement_basis) list"
  os_class_history :: "(class_id \<times> instant \<times> confidence) list"
  os_regions :: "(region_id, region_membership) dict"
  os_attributes :: "(attribute_key, attribute_state) dict"
  os_identity :: identity_summary
  os_provenance :: "(string, string) dict"
  os_observation_count :: int
  os_last_observation :: "observation_id option"

definition mk_object_state :: "object_state \<Rightarrow> object_state result" where
  "mk_object_state st =
     (if os_id st = [] then Inl ValueError
      else if instant_ns (os_last_confirmed st) > instant_ns (os_last_seen st) then Inl ValueError
      else if instant_ns (os_first_seen st) > instant_ns (os_last_seen st) then Inl ValueError
      else Inr st)"

definition os_staleness :: "object_state \<Rightarrow> instant \<Rightarrow> duration" where
  "os_staleness st now = Duration (max 0 (instant_ns now - instant_ns (os_last_confirmed st)))"

definition stale_attributes :: "object_state \<Rightarrow> instant \<Rightarrow> attribute_key list" where
  "stale_attributes st now = map fst (filter (\<lambda>(k, a). as_is_stale a now) (os_attributes st))"

definition os_is_present :: "object_state \<Rightarrow> bool" where
  "os_is_present st \<longleftrightarrow> os_lifecycle st \<in> {PROVISIONAL, ACTIVE, OCCLUDED}"

record region_state =
  rs_region :: region_id
  rs_geometry_version :: string
  rs_occupancy :: "(class_id, int) dict"
  rs_present_objects :: "object_id list"
  rs_dwell_max :: duration
  rs_dwell_mean :: duration
  rs_last_transition :: "instant option"

record observability_state =
  oy_camera :: camera_id
  oy_status :: observability_status
  oy_since :: instant
  oy_reason :: observability_reason
  oy_effective_rate :: rat
  oy_regions_affected :: "region_id list"
  oy_capability_gaps :: "(string \<times> string) list"

definition mk_observability_state :: "observability_state \<Rightarrow> observability_state result" where
  "mk_observability_state o1 =
     (if \<not> (0 \<le> oy_effective_rate o1 \<and> oy_effective_rate o1 \<le> 1) then Inl ValueError else Inr o1)"

record camera_status =
  cs_camera :: camera_id
  cs_stream_epoch :: int
  cs_tracker_epoch :: int
  cs_calibration_id :: "string option"
  cs_health :: string
  cs_last_observation_at :: "instant option"

definition new_camera_status :: "camera_id \<Rightarrow> camera_status" where
  "new_camera_status c =
     \<lparr>cs_camera = c, cs_stream_epoch = 0, cs_tracker_epoch = 0, cs_calibration_id = None,
      cs_health = ''healthy'', cs_last_observation_at = None\<rparr>"

record camera_partition =
  cp_camera :: camera_id
  cp_objects :: "(object_id, object_state) dict"
  cp_regions :: "(region_id, region_state) dict"
  cp_status :: "camera_status option"
  cp_observability :: "observability_state option"
  cp_log_position :: int
  cp_version :: int
  cp_degraded_reason :: string

definition new_partition :: "camera_id \<Rightarrow> camera_partition" where
  "new_partition c =
     \<lparr>cp_camera = c, cp_objects = [], cp_regions = [], cp_status = None, cp_observability = None,
      cp_log_position = 0, cp_version = 0, cp_degraded_reason = []\<rparr>"

definition is_degraded :: "camera_partition \<Rightarrow> bool" where
  "is_degraded p \<longleftrightarrow> cp_degraded_reason p \<noteq> []"

definition present_objects :: "camera_partition \<Rightarrow> object_state list" where
  "present_objects p = filter os_is_present (map snd (cp_objects p))"

definition bounded_ring :: "'a list \<Rightarrow> 'a \<Rightarrow> int \<Rightarrow> 'a list result" where
  "bounded_ring existing x limit =
     (if limit < 1 then Inl ValueError else Inr (take (nat limit) (x # existing)))"

section \<open>Projection\<close>

record projection_bounds =
  pb_trajectory_points :: int
  pb_attribute_history :: int
  pb_class_history :: int
  pb_max_objects :: int

definition mk_projection_bounds :: "projection_bounds \<Rightarrow> projection_bounds result" where
  "mk_projection_bounds b =
     (if pb_trajectory_points b < 1 \<or> pb_attribute_history b < 1 \<or> pb_class_history b < 1 \<or> pb_max_objects b < 1
      then Inl ValueError else Inr b)"

record projection_outcome =
  po_partition :: camera_partition
  po_changed_objects :: "object_id list"
  po_changed_regions :: "region_id list"
  po_coverage_changed :: bool
  po_evicted :: int

definition later :: "instant \<Rightarrow> instant \<Rightarrow> instant" where
  "later a b = (if instant_ns a \<ge> instant_ns b then a else b)"

definition provenance_role :: "observation_type \<Rightarrow> string option" where
  "provenance_role k =
     (case k of PRESENCE \<Rightarrow> Some ''last_detector'' | SPATIAL \<Rightarrow> Some ''last_tracker''
      | ATTRIBUTE \<Rightarrow> Some ''last_understander'' | _ \<Rightarrow> None)"

definition merge_provenance :: "object_state option \<Rightarrow> observation \<Rightarrow> (string, string) dict" where
  "merge_provenance prev ob =
     (let summary = (case prev of None \<Rightarrow> [] | Some st \<Rightarrow> os_provenance st)
      in case (provenance_role (ob_type ob), pv_model_id (ob_provenance ob)) of
           (Some role, Some m) \<Rightarrow> if m \<noteq> [] then dict_set role m summary else summary
         | _ \<Rightarrow> summary)"

definition apply_spatial :: "projection_bounds \<Rightarrow> observation \<Rightarrow> object_state \<Rightarrow> object_state result" where
  "apply_spatial bounds ob st =
     (case ob_spatial ob of
        None \<Rightarrow> Inr st
      | Some sp \<Rightarrow>
          (let point = (case sp_bbox sp of Some b \<Rightarrow> Some (bottom_centre b) | None \<Rightarrow> sp_ground_point sp)
           in bind_result
                (case point of
                   None \<Rightarrow> Inr (os_trajectory st)
                 | Some pt \<Rightarrow> bounded_ring (os_trajectory st) (ob_t_capture ob, pt, ob_basis ob) (pb_trajectory_points bounds))
                (\<lambda>tr. mk_object_state (st\<lparr>os_spatial := Some sp, os_basis := ob_basis ob, os_trajectory := tr\<rparr>))))"

definition attribute_state_of :: "observation \<Rightarrow> attribute \<Rightarrow> (py_value \<times> instant) list \<Rightarrow> attribute_state" where
  "attribute_state_of ob a prev =
     \<lparr>as_key = at_key a, as_value = at_value a, as_confidence = at_confidence a,
      as_observed_at = at_observed_at a, as_valid_until = at_valid_until a,
      as_evidence_ref = ob_evidence_ref ob, as_producer = Some (at_producer a), as_previous = prev\<rparr>"

definition apply_attribute ::
  "projection_bounds \<Rightarrow> observation \<Rightarrow> attribute \<Rightarrow> (attribute_key, attribute_state) dict
   \<Rightarrow> (attribute_key, attribute_state) dict result" where
  "apply_attribute bounds ob a attrs =
     (case dict_get attrs (at_key a) of
        None \<Rightarrow> Inr (dict_set (at_key a) (attribute_state_of ob a []) attrs)
      | Some held \<Rightarrow>
          if instant_ns (at_observed_at a) < instant_ns (as_observed_at held) then Inr attrs
          else bind_result
                 (bounded_ring (as_previous held) (as_value held, as_observed_at held) (pb_attribute_history bounds))
                 (\<lambda>prev. Inr (dict_set (at_key a) (attribute_state_of ob a prev) attrs)))"

definition apply_attributes :: "projection_bounds \<Rightarrow> observation \<Rightarrow> object_state \<Rightarrow> object_state result" where
  "apply_attributes bounds ob st =
     (if ob_attributes ob = [] then Inr st
      else bind_result (fold_result (apply_attribute bounds ob) (ob_attributes ob) (os_attributes st))
             (\<lambda>attrs. mk_object_state (st\<lparr>os_attributes := attrs\<rparr>)))"

definition apply_class_change ::
  "projection_bounds \<Rightarrow> object_state \<Rightarrow> observation \<Rightarrow> class_id \<Rightarrow> object_state \<Rightarrow> object_state result" where
  "apply_class_change bounds prev ob c base =
     (let conf = (case ob_confidence ob of None \<Rightarrow> os_class_confidence prev | Some c \<Rightarrow> c)
      in bind_result (bounded_ring (os_class_history prev) (c, ob_t_capture ob, conf) (pb_class_history bounds))
           (\<lambda>h. mk_object_state (base\<lparr>os_class := c, os_class_confidence := conf, os_class_history := h\<rparr>)))"

text \<open>
  \<open>half\<close> is \<^verbatim>\<open>Confidence.uncalibrated(0.5, IDENTITY)\<close>. An empty class id is falsy in
  Python, so it too becomes \<^verbatim>\<open>unknown\<close>.
\<close>

definition half_confidence :: confidence where
  "half_confidence =
     \<lparr>cf_value = 1 / 2, cf_semantics = IDENTITY_CONFIDENCE, cf_calibrated = False, cf_calibration_id = None,
      cf_raw_score = Some (1 / 2)\<rparr>"

definition create_object :: "projection_bounds \<Rightarrow> object_id \<Rightarrow> observation \<Rightarrow> object_state result" where
  "create_object bounds x ob =
     (let conf = (case ob_confidence ob of None \<Rightarrow> half_confidence | Some c \<Rightarrow> c);
          cls = (case ob_class ob of None \<Rightarrow> ''unknown'' | Some c \<Rightarrow> if c = [] then ''unknown'' else c)
      in bind_result
           (mk_object_state
              \<lparr>os_id = x, os_class = cls, os_class_confidence = conf,
               os_lifecycle = (case ob_lifecycle_state ob of None \<Rightarrow> PROVISIONAL | Some l \<Rightarrow> l),
               os_first_seen = ob_t_capture ob, os_last_seen = ob_t_capture ob,
               os_last_confirmed = ob_t_capture ob, os_spatial = ob_spatial ob, os_basis = ob_basis ob,
               os_trajectory = [], os_class_history = [(cls, ob_t_capture ob, conf)], os_regions = [],
               os_attributes = [],
               os_identity = \<lparr>is_binding_count = 0, is_assertion_confidence = None, is_method = [], is_ambiguous = False\<rparr>,
               os_provenance = merge_provenance None ob, os_observation_count = 1,
               os_last_observation = Some (ob_id ob)\<rparr>)
           (\<lambda>st. if ob_type ob = ATTRIBUTE then apply_attributes bounds ob st else Inr st))"

definition touch_object :: "observation \<Rightarrow> object_state \<Rightarrow> object_state result" where
  "touch_object ob prev =
     bind_result
       (mk_object_state (prev\<lparr>os_last_seen := later (os_last_seen prev) (ob_t_capture ob),
          os_observation_count := os_observation_count prev + 1, os_last_observation := Some (ob_id ob),
          os_provenance := merge_provenance (Some prev) ob\<rparr>))
       (\<lambda>base. if is_measured ob
               then mk_object_state (base\<lparr>os_last_confirmed := later (os_last_confirmed prev) (ob_t_capture ob)\<rparr>)
               else Inr base)"

definition apply_payload :: "projection_bounds \<Rightarrow> object_state \<Rightarrow> observation \<Rightarrow> object_state \<Rightarrow> object_state result" where
  "apply_payload bounds prev ob base =
     (case ob_type ob of
        PRESENCE \<Rightarrow> apply_spatial bounds ob base
      | SPATIAL \<Rightarrow> apply_spatial bounds ob base
      | ATTRIBUTE \<Rightarrow> apply_attributes bounds ob base
      | LIFECYCLE \<Rightarrow>
          (case ob_transition ob of None \<Rightarrow> Inr base
           | Some tr \<Rightarrow> mk_object_state (base\<lparr>os_lifecycle := lr_current tr\<rparr>))
      | IDENTITY \<Rightarrow>
          (case ob_identity ob of None \<Rightarrow> Inr base
           | Some r \<Rightarrow> mk_object_state (base\<lparr>os_identity :=
               \<lparr>is_binding_count = is_binding_count (os_identity prev) + 1, is_assertion_confidence = ob_confidence ob,
                is_method = ir_method r, is_ambiguous = ir_ambiguous r\<rparr>\<rparr>))
      | _ \<Rightarrow> Inr base)"

definition apply_class :: "projection_bounds \<Rightarrow> object_state \<Rightarrow> observation \<Rightarrow> object_state \<Rightarrow> object_state result" where
  "apply_class bounds prev ob base =
     (if ob_class ob \<noteq> None \<and> ob_class ob \<noteq> Some (os_class prev)
      then apply_class_change bounds prev ob (the (ob_class ob)) base
      else if ob_confidence ob \<noteq> None \<and> ob_class ob = Some (os_class prev) \<and> ob_type ob = PRESENCE
      then mk_object_state (base\<lparr>os_class_confidence := the (ob_confidence ob)\<rparr>)
      else Inr base)"

definition apply_lifecycle :: "observation \<Rightarrow> object_state \<Rightarrow> object_state result" where
  "apply_lifecycle ob base =
     (case ob_lifecycle_state ob of
        None \<Rightarrow> Inr base
      | Some l \<Rightarrow> if ob_type ob \<noteq> LIFECYCLE then mk_object_state (base\<lparr>os_lifecycle := l\<rparr>) else Inr base)"

definition apply_observation ::
  "projection_bounds \<Rightarrow> object_id \<Rightarrow> object_state option \<Rightarrow> observation \<Rightarrow> object_state result" where
  "apply_observation bounds x prev ob =
     (case prev of
        None \<Rightarrow> create_object bounds x ob
      | Some prev \<Rightarrow>
          bind_result (touch_object ob prev) (\<lambda>b1.
          bind_result (apply_payload bounds prev ob b1) (\<lambda>b2.
          bind_result (apply_class bounds prev ob b2) (apply_lifecycle ob))))"

definition shed_rank :: "object_state \<Rightarrow> int \<times> int" where
  "shed_rank st = ((if os_lifecycle st = PROVISIONAL then 0 else 1), instant_ns (os_last_seen st))"

function shed_objects ::
  "int \<Rightarrow> object_id \<Rightarrow> (object_id, object_state) dict \<Rightarrow> int \<Rightarrow> (object_id, object_state) dict \<times> int" where
  "shed_objects capacity keep objects evicted =
     (if int (length objects) \<le> capacity then (objects, evicted)
      else case filter (\<lambda>p. fst p \<noteq> keep) objects of
             [] \<Rightarrow> (objects, evicted)
           | p # ps \<Rightarrow>
               shed_objects capacity keep (dict_del (fst (min_key (shed_rank \<circ> snd) p ps)) objects) (evicted + 1))"
  by pat_completeness auto

termination
proof (relation "measure (\<lambda>(capacity, keep, objects, evicted). length objects)")
  fix capacity :: int and keep :: object_id and objects :: "(object_id, object_state) dict"
    and evicted :: int and p and ps
  assume "filter (\<lambda>p. fst p \<noteq> keep) objects = p # ps"
  then have "insert p (set ps) \<subseteq> set objects"
    by (metis filter_is_subset list.simps(15))
  then have "min_key (shed_rank \<circ> snd) p ps \<in> set objects"
    using min_key_in [of "shed_rank \<circ> snd" p ps] by blast
  then show "((capacity, keep, dict_del (fst (min_key (shed_rank \<circ> snd) p ps)) objects, evicted + 1),
      (capacity, keep, objects, evicted)) \<in> measure (\<lambda>(capacity, keep, objects, evicted). length objects)"
    by (simp add: length_dict_del_less)
qed simp

declare shed_objects.simps [simp del]

definition touched_regions :: "object_state \<Rightarrow> object_state option \<Rightarrow> region_id list" where
  "touched_regions updated prev =
     (let before = (case prev of None \<Rightarrow> [] | Some st \<Rightarrow> dict_keys (os_regions st));
          after = dict_keys (os_regions updated)
      in sort (remdups (filter (\<lambda>r. r \<notin> set after) before @ filter (\<lambda>r. r \<notin> set before) after)))"

definition region_state_of ::
  "camera_partition \<Rightarrow> object_state \<Rightarrow> region_id \<Rightarrow> region_state" where
  "region_state_of p updated r =
     (let members = filter (\<lambda>st. r \<in> set (dict_keys (os_regions st)) \<and> os_is_present st)
            (map snd (dict_set (os_id updated) updated (cp_objects p)));
          occupancy = fold (\<lambda>st occ. dict_set (os_class st)
              ((case dict_get occ (os_class st) of None \<Rightarrow> 0 | Some n \<Rightarrow> n) + 1) occ) members [];
          dwells = map (\<lambda>st. max 0 (instant_ns (os_last_seen st)
              - (case dict_get (os_regions st) r of None \<Rightarrow> 0 | Some m \<Rightarrow> instant_ns (rm_entered_at m)))) members
      in \<lparr>rs_region = r,
          rs_geometry_version =
            (case dict_get (cp_regions p) r of
               Some existing \<Rightarrow> rs_geometry_version existing
             | None \<Rightarrow> (case members of
                         [] \<Rightarrow> ''1.0.0''
                       | st # _ \<Rightarrow> (case dict_get (os_regions st) r of None \<Rightarrow> [] | Some m \<Rightarrow> rm_geometry_version m))),
          rs_occupancy = occupancy,
          rs_present_objects = sort (map os_id members),
          rs_dwell_max = Duration (if dwells = [] then 0 else Max (set dwells)),
          rs_dwell_mean = Duration (if dwells = [] then 0 else sum_list dwells div int (length dwells)),
          rs_last_transition = Some (os_last_seen updated)\<rparr>)"

definition project_regions ::
  "camera_partition \<Rightarrow> object_state \<Rightarrow> object_state option \<Rightarrow> (region_id, region_state) dict" where
  "project_regions p updated prev =
     fold (\<lambda>r rs. dict_set r (region_state_of p updated r) rs) (touched_regions updated prev) (cp_regions p)"

definition advance_status :: "camera_partition \<Rightarrow> observation \<Rightarrow> camera_status" where
  "advance_status p ob =
     (let existing = (case cp_status p of None \<Rightarrow> new_camera_status (cp_camera p) | Some s \<Rightarrow> s)
      in existing\<lparr>cs_stream_epoch := fr_stream_epoch (ob_frame ob),
                  cs_last_observation_at := Some (ob_t_capture ob)\<rparr>)"

definition project_coverage ::
  "camera_partition \<Rightarrow> observation \<Rightarrow> int \<Rightarrow> projection_outcome result" where
  "project_coverage p ob position =
     (case ob_coverage ob of
        None \<Rightarrow> Inl ProjectionError
      | Some w \<Rightarrow>
          bind_result
            (mk_observability_state
               \<lparr>oy_camera = cp_camera p, oy_status = cw_status w, oy_since = cw_since w, oy_reason = cw_reason w,
                oy_effective_rate = cw_effective_rate w, oy_regions_affected = cw_regions w,
                oy_capability_gaps = cw_capability_gaps w\<rparr>)
            (\<lambda>oy. Inr \<lparr>po_partition = p\<lparr>cp_observability := Some oy, cp_log_position := position,
                                           cp_version := cp_version p + 1\<rparr>,
                       po_changed_objects = [], po_changed_regions = [], po_coverage_changed = True,
                       po_evicted = 0\<rparr>))"

definition project_observation ::
  "projection_bounds \<Rightarrow> camera_partition \<Rightarrow> observation \<Rightarrow> int \<Rightarrow> projection_outcome result" where
  "project_observation bounds p ob position =
     (if ob_camera ob \<noteq> cp_camera p then Inl ProjectionError
      else if ob_type ob = COVERAGE then project_coverage p ob position
      else case ob_object ob of
             None \<Rightarrow> Inl ProjectionError
           | Some x \<Rightarrow>
               (let prev = dict_get (cp_objects p) x
                in bind_result (apply_observation bounds x prev ob) (\<lambda>updated.
                   let (objects, evicted) = shed_objects (pb_max_objects bounds) x (dict_set x updated (cp_objects p)) 0;
                       regions = project_regions p updated prev;
                       differing = sort (remdups (filter (\<lambda>r. r \<notin> set (dict_keys (cp_regions p))) (dict_keys regions)
                                     @ filter (\<lambda>r. r \<notin> set (dict_keys regions)) (dict_keys (cp_regions p))))
                   in Inr \<lparr>po_partition = p\<lparr>cp_objects := objects, cp_regions := regions,
                                              cp_status := Some (advance_status p ob), cp_log_position := position,
                                              cp_version := cp_version p + 1\<rparr>,
                           po_changed_objects = [x],
                           po_changed_regions = (if differing \<noteq> [] then differing else touched_regions updated prev),
                           po_coverage_changed = False, po_evicted = evicted\<rparr>)))"

section \<open>Well-formed state\<close>

definition attribute_state_ok :: "projection_bounds \<Rightarrow> attribute_state \<Rightarrow> bool" where
  "attribute_state_ok b a \<longleftrightarrow> int (length (as_previous a)) \<le> pb_attribute_history b"

definition attributes_ok :: "projection_bounds \<Rightarrow> (attribute_key, attribute_state) dict \<Rightarrow> bool" where
  "attributes_ok b attrs \<longleftrightarrow>
     wf_dict attrs \<and> (\<forall>(k, a) \<in> set attrs. as_key a = k \<and> attribute_state_ok b a)"

definition object_ok :: "projection_bounds \<Rightarrow> object_id \<Rightarrow> object_state \<Rightarrow> bool" where
  "object_ok b x st \<longleftrightarrow>
     os_id st = x \<and> x \<noteq> [] \<and> os_last_confirmed st \<le> os_last_seen st \<and> os_first_seen st \<le> os_last_seen st
     \<and> int (length (os_trajectory st)) \<le> pb_trajectory_points b
     \<and> int (length (os_class_history st)) \<le> pb_class_history b
     \<and> attributes_ok b (os_attributes st) \<and> os_regions st = []"

definition partition_ok :: "projection_bounds \<Rightarrow> camera_partition \<Rightarrow> bool" where
  "partition_ok b p \<longleftrightarrow>
     wf_dict (cp_objects p) \<and> (\<forall>(x, st) \<in> set (cp_objects p). object_ok b x st)
     \<and> int (length (cp_objects p)) \<le> pb_max_objects b \<and> cp_regions p = []"

definition bounds_ok :: "projection_bounds \<Rightarrow> bool" where
  "bounds_ok b \<longleftrightarrow> mk_projection_bounds b = Inr b"

definition observation_ok :: "observation \<Rightarrow> bool" where
  "observation_ok ob \<longleftrightarrow>
     mk_observation ob = Inr ob \<and> ob_object ob \<noteq> Some []
     \<and> (case ob_coverage ob of None \<Rightarrow> True | Some w \<Rightarrow> mk_coverage_window w = Inr w)"

lemma bounds_ok_positive:
  "bounds_ok b \<Longrightarrow> 1 \<le> pb_trajectory_points b \<and> 1 \<le> pb_attribute_history b \<and> 1 \<le> pb_class_history b \<and> 1 \<le> pb_max_objects b"
  by (auto simp: bounds_ok_def mk_projection_bounds_def split: if_splits)

lemma mk_object_state_yields:
  "object_ok b x st \<Longrightarrow> yields (object_ok b x) (mk_object_state st)"
  by (auto simp: mk_object_state_def object_ok_def less_eq_instant_def)

lemma bounded_ring_yields: "1 \<le> n \<Longrightarrow> yields (\<lambda>xs. int (length xs) \<le> n) (bounded_ring ys y n)"
  by (auto simp: bounded_ring_def)

lemma later_le [simp]: "a \<le> later a b" "b \<le> later a b"
  by (auto simp: later_def less_eq_instant_def)

lemma later_mono: "a \<le> a' \<Longrightarrow> later a b \<le> later a' b"
  by (auto simp: later_def less_eq_instant_def)

lemma apply_attribute_yields:
  assumes "bounds_ok b" and "attributes_ok b attrs"
  shows "yields (attributes_ok b) (apply_attribute b ob a attrs)"
proof -
  have set: "attributes_ok b (dict_set (at_key a) (attribute_state_of ob a prev) attrs)"
    if "int (length prev) \<le> pb_attribute_history b" for prev
    using assms(2) that in_dict_set [of _ _ "at_key a" "attribute_state_of ob a prev" attrs]
    unfolding attributes_ok_def attribute_state_ok_def
    by (fastforce simp: attribute_state_of_def)
  have pos: "1 \<le> pb_attribute_history b" using assms(1) by (simp add: bounds_ok_positive)
  show ?thesis
  proof (cases "dict_get attrs (at_key a)")
    case None
    with set [of "[]"] pos show ?thesis by (simp add: apply_attribute_def)
  next
    case (Some held)
    have "yields (attributes_ok b)
        (bind_result (bounded_ring (as_previous held) (as_value held, as_observed_at held) (pb_attribute_history b))
          (\<lambda>prev. Inr (dict_set (at_key a) (attribute_state_of ob a prev) attrs)))"
      using set by (intro yields_bind [OF bounded_ring_yields [OF pos]]) simp
    with Some assms(2) show ?thesis by (simp add: apply_attribute_def)
  qed
qed

lemma apply_attributes_yields:
  assumes "bounds_ok b" and "object_ok b x st"
  shows "yields (object_ok b x) (apply_attributes b ob st)"
proof (cases "ob_attributes ob = []")
  case False
  have "attributes_ok b (os_attributes st)" using assms(2) by (simp add: object_ok_def)
  then have "yields (attributes_ok b) (fold_result (apply_attribute b ob) (ob_attributes ob) (os_attributes st))"
    by (rule yields_fold_result) (rule apply_attribute_yields [OF assms(1)])
  then show ?thesis
    unfolding apply_attributes_def using False assms(2)
    by (auto intro!: yields_bind mk_object_state_yields simp: object_ok_def)
qed (use assms in \<open>simp add: apply_attributes_def\<close>)

lemma apply_spatial_yields:
  assumes "bounds_ok b" and "object_ok b x st"
  shows "yields (object_ok b x) (apply_spatial b ob st)"
proof (cases "ob_spatial ob")
  case (Some sp)
  let ?point = "case sp_bbox sp of Some bx \<Rightarrow> Some (bottom_centre bx) | None \<Rightarrow> sp_ground_point sp"
  have "yields (\<lambda>tr. int (length tr) \<le> pb_trajectory_points b)
      (case ?point of None \<Rightarrow> Inr (os_trajectory st)
       | Some pt \<Rightarrow> bounded_ring (os_trajectory st) (ob_t_capture ob, pt, ob_basis ob) (pb_trajectory_points b))"
    using assms bounded_ring_yields [of "pb_trajectory_points b"] bounds_ok_positive [OF assms(1)]
    by (auto simp: object_ok_def split: option.split)
  then have "yields (object_ok b x)
      (bind_result (case ?point of None \<Rightarrow> Inr (os_trajectory st)
         | Some pt \<Rightarrow> bounded_ring (os_trajectory st) (ob_t_capture ob, pt, ob_basis ob) (pb_trajectory_points b))
        (\<lambda>tr. mk_object_state (st\<lparr>os_spatial := Some sp, os_basis := ob_basis ob, os_trajectory := tr\<rparr>)))"
    using assms(2) by (intro yields_bind mk_object_state_yields) (auto simp: object_ok_def)
  with Some show ?thesis by (simp add: apply_spatial_def Let_def)
qed (use assms in \<open>simp add: apply_spatial_def\<close>)

lemma apply_class_yields:
  assumes "bounds_ok b" and "object_ok b x prev" and "object_ok b x base"
  shows "yields (object_ok b x) (apply_class b prev ob base)"
proof -
  let ?conf = "case ob_confidence ob of None \<Rightarrow> os_class_confidence prev | Some c \<Rightarrow> c"
  have "yields (object_ok b x) (apply_class_change b prev ob c base)" for c
    unfolding apply_class_change_def Let_def
    using assms(3) bounds_ok_positive [OF assms(1)]
    by (intro yields_bind [OF bounded_ring_yields] mk_object_state_yields) (auto simp: object_ok_def)
  then show ?thesis
    using assms(3) by (auto simp: apply_class_def object_ok_def intro!: mk_object_state_yields)
qed

lemma touch_object_yields:
  assumes "object_ok b x prev"
  shows "yields (object_ok b x) (touch_object ob prev)"
proof -
  let ?base = "prev\<lparr>os_last_seen := later (os_last_seen prev) (ob_t_capture ob),
    os_observation_count := os_observation_count prev + 1, os_last_observation := Some (ob_id ob),
    os_provenance := merge_provenance (Some prev) ob\<rparr>"
  have base: "object_ok b x ?base"
    using assms order_trans [OF _ later_le(1) [of "os_last_seen prev" "ob_t_capture ob"]] by (auto simp: object_ok_def)
  have conf: "object_ok b x (?base\<lparr>os_last_confirmed := later (os_last_confirmed prev) (ob_t_capture ob)\<rparr>)"
    using assms base by (auto simp: object_ok_def intro: later_mono)
  have "mk_object_state ?base = Inr ?base"
    using base by (auto simp: mk_object_state_def object_ok_def less_eq_instant_def)
  with base mk_object_state_yields [OF conf] show ?thesis by (simp add: touch_object_def)
qed

lemma apply_payload_yields:
  assumes "bounds_ok b" and "object_ok b x base"
  shows "yields (object_ok b x) (apply_payload b prev ob base)"
proof -
  have "yields (object_ok b x) (mk_object_state (base\<lparr>os_lifecycle := l\<rparr>))"
    "yields (object_ok b x) (mk_object_state (base\<lparr>os_identity := i\<rparr>))" for l i
    using assms(2) by (auto intro!: mk_object_state_yields simp: object_ok_def)
  with assms show ?thesis
    by (auto simp: apply_payload_def apply_spatial_yields apply_attributes_yields
        split: observation_type.split option.split)
qed

lemma apply_lifecycle_yields: "object_ok b x base \<Longrightarrow> yields (object_ok b x) (apply_lifecycle ob base)"
  by (auto simp: apply_lifecycle_def object_ok_def intro!: mk_object_state_yields split: option.split)

lemma create_object_yields:
  assumes "bounds_ok b" and "x \<noteq> []"
  shows "yields (object_ok b x) (create_object b x ob)"
  unfolding create_object_def Let_def
  using assms bounds_ok_positive [OF assms(1)]
  by (intro yields_bind [OF mk_object_state_yields])
    (auto simp: object_ok_def attributes_ok_def apply_attributes_yields)

lemma apply_observation_yields:
  assumes "bounds_ok b" and "x \<noteq> []" and "\<And>st. prev = Some st \<Longrightarrow> object_ok b x st"
  shows "yields (object_ok b x) (apply_observation b x prev ob)"
proof (cases prev)
  case None
  with assms show ?thesis by (simp add: apply_observation_def create_object_yields)
next
  case (Some st)
  with assms(3) have ok: "object_ok b x st" by simp
  show ?thesis
    unfolding apply_observation_def Some option.case
    by (intro yields_bind [OF touch_object_yields [OF ok]] yields_bind [OF apply_payload_yields [OF assms(1)]]
        yields_bind [OF apply_class_yields [OF assms(1) ok]] apply_lifecycle_yields)
qed

section \<open>Shedding\<close>

definition shed_result ::
  "int \<Rightarrow> object_id \<Rightarrow> (object_id, object_state) dict \<Rightarrow> (object_id, object_state) dict \<Rightarrow> bool" where
  "shed_result capacity keep objects kept \<longleftrightarrow>
     wf_dict kept \<and> set kept \<subseteq> set objects \<and> int (length kept) \<le> capacity
     \<and> dict_get kept keep = dict_get objects keep
     \<and> (\<forall>r \<in> set objects - set kept. fst r \<noteq> keep
          \<and> (\<forall>k \<in> set kept. fst k \<noteq> keep \<longrightarrow> shed_rank (snd r) \<le> shed_rank (snd k)))"

lemma only_key_length: "wf_dict d \<Longrightarrow> \<forall>p \<in> set d. fst p = k \<Longrightarrow> length d \<le> 1"
  by (cases d; cases "tl d") (auto simp: wf_dict_def)

lemma shed_result_step:
  assumes "shed_result capacity keep rest kept" and "set rest \<subseteq> set objects"
    and "dict_get rest keep = dict_get objects keep" and "\<And>q. q \<in> set objects - set rest \<Longrightarrow> q = doomed"
    and "fst doomed \<noteq> keep"
    and "\<And>q. q \<in> set objects \<Longrightarrow> fst q \<noteq> keep \<Longrightarrow> shed_rank (snd doomed) \<le> shed_rank (snd q)"
  shows "shed_result capacity keep objects kept"
proof -
  have "fst r \<noteq> keep \<and> (\<forall>k \<in> set kept. fst k \<noteq> keep \<longrightarrow> shed_rank (snd r) \<le> shed_rank (snd k))"
    if "r \<in> set objects - set kept" for r
  proof (cases "r \<in> set rest")
    case True
    with that assms(1) show ?thesis unfolding shed_result_def by blast
  next
    case False
    with that assms(4) have "r = doomed" by blast
    moreover have "set kept \<subseteq> set objects" using assms(1,2) unfolding shed_result_def by blast
    ultimately show ?thesis using assms(5,6) by blast
  qed
  with assms(1-3) show ?thesis unfolding shed_result_def by (intro conjI ballI) auto
qed

lemma shed_objects_result:
  assumes "wf_dict objects" and "1 \<le> capacity"
  shows "shed_result capacity keep objects (fst (shed_objects capacity keep objects evicted))"
  using assms
proof (induction capacity keep objects evicted rule: shed_objects.induct)
  case (1 capacity keep objects evicted)
  show ?case
  proof (cases "int (length objects) \<le> capacity")
    case True
    with 1(2) show ?thesis by (subst shed_objects.simps) (simp add: shed_result_def)
  next
    case big: False
    show ?thesis
    proof (cases "filter (\<lambda>p. fst p \<noteq> keep) objects")
      case Nil
      then have "length objects \<le> 1"
        using only_key_length [OF 1(2), of keep] by (auto simp: filter_empty_conv)
      with big 1(3) show ?thesis by simp
    next
      case (Cons p ps)
      let ?doomed = "min_key (shed_rank \<circ> snd) p ps"
      let ?rest = "dict_del (fst ?doomed) objects"
      have others: "insert p (set ps) = {q \<in> set objects. fst q \<noteq> keep}"
        using arg_cong [OF Cons, of set] by auto
      have doomed: "?doomed \<in> set objects" "fst ?doomed \<noteq> keep"
        using min_key_in [of "shed_rank \<circ> snd" p ps] others by auto
      have least: "shed_rank (snd ?doomed) \<le> shed_rank (snd q)" if "q \<in> set objects" "fst q \<noteq> keep" for q
        using min_key_le [of q p ps "shed_rank \<circ> snd"] that others by auto
      have gone: "q = ?doomed" if "q \<in> set objects - set ?rest" for q
        using that doomed(1) 1(2) by (cases q; cases ?doomed) (auto simp: dict_simps wf_dict_def dest: eq_key_imp_eq_value)
      have IH: "shed_result capacity keep ?rest (fst (shed_objects capacity keep ?rest (evicted + 1)))"
        using 1(1) [OF big Cons] 1(2,3) by simp
      have "shed_objects capacity keep objects evicted = shed_objects capacity keep ?rest (evicted + 1)"
        using big Cons by (subst shed_objects.simps) simp
      moreover have "set ?rest \<subseteq> set objects" by (auto simp: dict_simps)
      moreover have "dict_get ?rest keep = dict_get objects keep" using doomed(2) by (simp add: dict_simps)
      ultimately show ?thesis
        using shed_result_step [OF IH _ _ gone doomed(2) least] by simp
    qed
  qed
qed

section \<open>The projection is total and keeps the state well formed\<close>

lemma touched_regions_none:
  "os_regions st = [] \<Longrightarrow> (\<And>q. prev = Some q \<Longrightarrow> os_regions q = []) \<Longrightarrow> touched_regions st prev = []"
  by (cases prev) (simp_all add: touched_regions_def)

lemma object_of_partition: "partition_ok b p \<Longrightarrow> dict_get (cp_objects p) x = Some st \<Longrightarrow> object_ok b x st"
  using dict_get_Some_in [of "cp_objects p" x st] unfolding partition_ok_def by blast

lemma project_object:
  assumes "bounds_ok b" and "partition_ok b p" and "ob_camera ob = cp_camera p" and "ob_type ob \<noteq> COVERAGE"
    and "ob_object ob = Some x" and "x \<noteq> []"
  shows "yields (\<lambda>out. partition_ok b (po_partition out) \<and> dict_get (cp_objects (po_partition out)) x \<noteq> None
      \<and> (\<exists>st. apply_observation b x (dict_get (cp_objects p) x) ob = Inr st
           \<and> shed_result (pb_max_objects b) x (dict_set x st (cp_objects p)) (cp_objects (po_partition out))))
    (project_observation b p ob position)"
proof -
  obtain st where st: "apply_observation b x (dict_get (cp_objects p) x) ob = Inr st" and ok: "object_ok b x st"
    using apply_observation_yields [OF assms(1,6), of "dict_get (cp_objects p) x" ob]
      object_of_partition [OF assms(2)] by (auto elim: yieldsE)
  let ?objects = "dict_set x st (cp_objects p)"
  have wf: "wf_dict ?objects" using assms(2) by (simp add: partition_ok_def)
  obtain kept n where kept: "shed_objects (pb_max_objects b) x ?objects 0 = (kept, n)" by fastforce
  have shed: "shed_result (pb_max_objects b) x ?objects kept"
    using shed_objects_result [OF wf, of "pb_max_objects b" x 0] bounds_ok_positive [OF assms(1)] kept by simp
  have "object_ok b y t" if "(y, t) \<in> set kept" for y t
    using that shed ok assms(2) in_dict_set [of y t x st "cp_objects p"]
    unfolding shed_result_def partition_ok_def by blast
  moreover have "project_regions p st (dict_get (cp_objects p) x) = []"
    using ok assms(2) object_of_partition [OF assms(2)] touched_regions_none [of st "dict_get (cp_objects p) x"]
    by (simp add: project_regions_def object_ok_def partition_ok_def)
  ultimately show ?thesis
    using assms shed st kept
    by (auto simp: project_observation_def Let_def partition_ok_def shed_result_def dict_simps)
qed

lemma project_coverage_observation:
  assumes "observation_ok ob" and "partition_ok b p" and "ob_camera ob = cp_camera p" and "ob_type ob = COVERAGE"
  shows "yields (\<lambda>out. partition_ok b (po_partition out) \<and> cp_objects (po_partition out) = cp_objects p)
    (project_observation b p ob position)"
proof -
  obtain w where w: "ob_coverage ob = Some w" "mk_coverage_window w = Inr w"
    using assms(1,4) mk_observation_subject [of ob ob] by (auto simp: observation_ok_def split: option.splits)
  then have "0 \<le> cw_effective_rate w \<and> cw_effective_rate w \<le> 1"
    by (auto simp: mk_coverage_window_def split: if_splits)
  with w assms show ?thesis
    by (simp add: project_observation_def project_coverage_def mk_observability_state_def partition_ok_def)
qed

lemma project_frame:
  assumes "project_observation b p ob position = Inr out"
  shows "cp_camera (po_partition out) = cp_camera p \<and> cp_degraded_reason (po_partition out) = cp_degraded_reason p
    \<and> cp_version (po_partition out) = cp_version p + 1 \<and> cp_log_position (po_partition out) = position"
  using assms unfolding project_observation_def project_coverage_def
  by (auto simp: Let_def result_simps split: if_splits option.splits prod.splits)

lemma project_yields:
  assumes "bounds_ok b" and "partition_ok b p" and "observation_ok ob" and "ob_camera ob = cp_camera p"
  shows "yields (\<lambda>out. partition_ok b (po_partition out) \<and> cp_camera (po_partition out) = cp_camera p
      \<and> cp_degraded_reason (po_partition out) = cp_degraded_reason p) (project_observation b p ob position)"
proof -
  have "yields (\<lambda>out. partition_ok b (po_partition out)) (project_observation b p ob position)"
  proof (cases "ob_type ob = COVERAGE")
    case True
    from project_coverage_observation [OF assms(3,2,4) True] show ?thesis by (auto simp: yields_def)
  next
    case False
    then obtain x where x: "ob_object ob = Some x" "x \<noteq> []"
      using assms(3) mk_observation_subject [of ob ob] by (auto simp: observation_ok_def)
    from project_object [OF assms(1,2,4) False x] show ?thesis by (auto simp: yields_def)
  qed
  then show ?thesis
    using project_frame by (auto simp: yields_def)
qed

text \<open>
  C11: the projection keeps state bounded and well formed. For checked bounds, a well-formed
  partition and a constructed observation with a non-empty object id, \<open>project_observation\<close> raises exactly when
  the observation is of another camera, and then \<open>ProjectionError\<close>. Otherwise the new partition has
  at most \<open>max_objects\<close> objects with their histories within the rings' bounds, no object was last
  confirmed after it was last seen, the observed object is in it, and every object shed ranks no
  higher than every one kept beside it: provisional before confirmed, older before newer. No
  region is ever entered: the region map stays empty.
\<close>

theorem project_bounded_and_total:
  assumes "bounds_ok b" and "partition_ok b p" and "observation_ok ob"
  shows "(ob_camera ob \<noteq> cp_camera p \<longrightarrow> project_observation b p ob position = Inl ProjectionError)
    \<and> (ob_camera ob = cp_camera p \<longrightarrow>
        (\<exists>out. project_observation b p ob position = Inr out \<and> partition_ok b (po_partition out)
           \<and> (\<forall>x. ob_object ob = Some x \<longrightarrow> dict_get (cp_objects (po_partition out)) x \<noteq> None
               \<and> (\<forall>y st z t. dict_get (cp_objects p) y = Some st \<and> y \<noteq> x \<and> dict_get (cp_objects (po_partition out)) y = None
                    \<and> dict_get (cp_objects (po_partition out)) z = Some t \<and> z \<noteq> x \<longrightarrow> shed_rank st \<le> shed_rank t))))"
proof (intro conjI impI)
  assume cam: "ob_camera ob = cp_camera p"
  show "\<exists>out. project_observation b p ob position = Inr out \<and> partition_ok b (po_partition out)
           \<and> (\<forall>x. ob_object ob = Some x \<longrightarrow> dict_get (cp_objects (po_partition out)) x \<noteq> None
               \<and> (\<forall>y st z t. dict_get (cp_objects p) y = Some st \<and> y \<noteq> x \<and> dict_get (cp_objects (po_partition out)) y = None
                    \<and> dict_get (cp_objects (po_partition out)) z = Some t \<and> z \<noteq> x \<longrightarrow> shed_rank st \<le> shed_rank t))"
  proof (cases "ob_type ob = COVERAGE")
    case True
    with project_coverage_observation [OF assms(3,2) cam True] assms(3) mk_observation_subject [of ob ob]
    show ?thesis by (auto simp: yields_def observation_ok_def)
  next
    case False
    then obtain x where x: "ob_object ob = Some x" "x \<noteq> []"
      using assms(3) mk_observation_subject [of ob ob] by (auto simp: observation_ok_def)
    from project_object [OF assms(1,2) cam False x, of position] obtain out st'
      where out: "project_observation b p ob position = Inr out" "partition_ok b (po_partition out)"
        "dict_get (cp_objects (po_partition out)) x \<noteq> None"
        and shed: "shed_result (pb_max_objects b) x (dict_set x st' (cp_objects p)) (cp_objects (po_partition out))"
      by (auto elim!: yieldsE)
    have "shed_rank st \<le> shed_rank t"
      if "dict_get (cp_objects p) y = Some st" "y \<noteq> x" "dict_get (cp_objects (po_partition out)) y = None"
        "dict_get (cp_objects (po_partition out)) z = Some t" "z \<noteq> x" for y st z t
    proof -
      have "(y, st) \<in> set (dict_set x st' (cp_objects p))"
        using that(1,2) by (intro dict_get_Some_in) (simp add: dict_simps)
      moreover have "(y, st) \<notin> set (cp_objects (po_partition out))"
        using that(3) by (force simp: dict_get_None_iff)
      ultimately show ?thesis
        using shed dict_get_Some_in [OF that(4)] that(5) unfolding shed_result_def by force
    qed
    with out x show ?thesis by auto
  qed
qed (simp add: project_observation_def)

section \<open>Examples\<close>

definition example_bounds :: projection_bounds where
  "example_bounds = \<lparr>pb_trajectory_points = 4, pb_attribute_history = 2, pb_class_history = 2, pb_max_objects = 1\<rparr>"

lemma example_bounds_ok: "bounds_ok example_bounds"
  by (simp add: bounds_ok_def mk_projection_bounds_def example_bounds_def)

lemma new_partition_ok: "bounds_ok b \<Longrightarrow> partition_ok b (new_partition c)"
  using bounds_ok_positive [of b] by (simp add: partition_ok_def new_partition_def)

lemma example_observation_ok:
  "i \<noteq> [] \<Longrightarrow> x \<noteq> [] \<Longrightarrow> observation_ok (example_observation i ten cam x ns)"
  by (simp add: observation_ok_def mk_observation_def check_type_payload_def check_attributes_def
      concerns_an_object_def example_observation_def)

theorem project_bounded_and_total_witness:
  "\<exists>out out'. project_observation example_bounds (new_partition ''cam-1'')
        (example_observation ''a'' ''acme'' ''cam-1'' ''obj-1'' 5) 1 = Inr out
     \<and> project_observation example_bounds (po_partition out) (example_observation ''b'' ''acme'' ''cam-1'' ''obj-2'' 9) 2 = Inr out'
     \<and> dict_get (cp_objects (po_partition out')) ''obj-2'' \<noteq> None
     \<and> int (length (cp_objects (po_partition out'))) \<le> 1"
proof -
  note step = project_bounded_and_total [OF example_bounds_ok _ example_observation_ok]
  obtain out where 1: "project_observation example_bounds (new_partition ''cam-1'')
        (example_observation ''a'' ''acme'' ''cam-1'' ''obj-1'' 5) 1 = Inr out" "partition_ok example_bounds (po_partition out)"
    using step [OF new_partition_ok [OF example_bounds_ok], of "''a''" "''obj-1''" "''acme''" "''cam-1''" 5 "''cam-1''" 1]
    by (auto simp: example_observation_def new_partition_def)
  have "cp_camera (po_partition out) = ''cam-1''"
    using project_frame [OF 1(1)] by (simp add: new_partition_def)
  then obtain out' where "project_observation example_bounds (po_partition out)
        (example_observation ''b'' ''acme'' ''cam-1'' ''obj-2'' 9) 2 = Inr out'" "partition_ok example_bounds (po_partition out')"
      "dict_get (cp_objects (po_partition out')) ''obj-2'' \<noteq> None"
    using step [OF 1(2), of "''b''" "''obj-2''" "''acme''" "''cam-1''" 9 2]
    by (auto simp: example_observation_def)
  with 1 show ?thesis by (auto simp: partition_ok_def example_bounds_def)
qed

end
