(* ===== verification/Observation_Log.thy ===== *)
theory Observation_Log
  imports State_Projection
begin

text \<open>
  The observation log. \<open>log_port\<close> is the part of \<^verbatim>\<open>ObservationLogPort\<close>
  (\<^verbatim>\<open>vision_os/core/ports/synthesis.py\<close>) the state manager calls; an append that raises
  returns \<open>None\<close>. The locale \<open>observation_log\<close> states the port's obligations: append-only and
  idempotent by observation id (L1, L2), positions monotonic (L3), reads in append order (L4), a
  failed append changes nothing (L5), partitions independent (L6). It is interpreted on the
  in-memory log of \<^verbatim>\<open>vision_os/adapters/synthesis/stores.py\<close>.
\<close>

section \<open>The port\<close>

record append_result =
  ar_position :: int
  ar_appended :: int
  ar_duplicates :: "observation_id list"

record 'l log_port =
  lp_append :: "camera_id \<Rightarrow> observation list \<Rightarrow> 'l \<Rightarrow> (append_result \<times> 'l) option"
  lp_read :: "camera_id \<Rightarrow> int \<Rightarrow> int option \<Rightarrow> int \<Rightarrow> 'l \<Rightarrow> observation list"
  lp_truncate :: "camera_id \<Rightarrow> instant \<Rightarrow> 'l \<Rightarrow> (int \<times> 'l) option"

text \<open>Sequential deduplication by id: what is new in a batch, and what repeats.\<close>

fun fresh :: "observation_id set \<Rightarrow> observation list \<Rightarrow> observation list" where
  "fresh known [] = []"
| "fresh known (ob # obs) =
     (if ob_id ob \<in> known then fresh known obs else ob # fresh (insert (ob_id ob) known) obs)"

fun repeated :: "observation_id set \<Rightarrow> observation list \<Rightarrow> observation_id list" where
  "repeated known [] = []"
| "repeated known (ob # obs) =
     (if ob_id ob \<in> known then ob_id ob # repeated known obs else repeated (insert (ob_id ob) known) obs)"

abbreviation log_ids :: "observation list \<Rightarrow> observation_id set" where
  "log_ids rs \<equiv> ob_id ` set rs"

lemma fresh_ids: "log_ids (fresh known obs) = log_ids obs - known"
  by (induction known obs rule: fresh.induct) auto

lemma distinct_fresh: "distinct (map ob_id (fresh known obs))"
  by (induction known obs rule: fresh.induct) (auto simp: fresh_ids)

lemma set_fresh: "set (fresh known obs) \<subseteq> set obs"
  by (induction known obs rule: fresh.induct) auto

lemma set_repeated: "distinct (map ob_id obs) \<Longrightarrow> set (repeated known obs) = log_ids obs \<inter> known"
  by (induction known obs rule: repeated.induct) auto

lemma fresh_distinct: "distinct (map ob_id obs) \<Longrightarrow> fresh known obs = filter (\<lambda>ob. ob_id ob \<notin> known) obs"
proof (induction known obs rule: fresh.induct)
  case (2 known ob obs)
  have "filter (\<lambda>o'. ob_id o' \<notin> insert (ob_id ob) known) obs = filter (\<lambda>o'. ob_id o' \<notin> known) obs"
    using 2(3) by (intro filter_cong) (auto simp: rev_image_eqI)
  with 2 show ?case by simp
qed simp

locale observation_log =
  fixes port :: "'l log_port" and records :: "'l \<Rightarrow> camera_id \<Rightarrow> observation list" and valid :: "'l \<Rightarrow> bool"
  assumes ids_distinct: "valid l \<Longrightarrow> distinct (map ob_id (records l c))"
    and append_valid: "valid l \<Longrightarrow> lp_append port c obs l = Some (r, l') \<Longrightarrow> valid l'"
    and append_records:
      "valid l \<Longrightarrow> lp_append port c obs l = Some (r, l')
       \<Longrightarrow> records l' c = records l c @ fresh (log_ids (records l c)) obs"
    and append_others:
      "valid l \<Longrightarrow> lp_append port c obs l = Some (r, l') \<Longrightarrow> d \<noteq> c \<Longrightarrow> records l' d = records l d"
    and append_duplicates:
      "valid l \<Longrightarrow> lp_append port c obs l = Some (r, l')
       \<Longrightarrow> ar_duplicates r = repeated (log_ids (records l c)) obs"
    and append_position:
      "valid l \<Longrightarrow> lp_append port c obs l = Some (r, l') \<Longrightarrow> ar_position r = int (length (records l' c))"
    and read_from_start:
      "valid l \<Longrightarrow> 0 \<le> limit \<Longrightarrow> lp_read port c 0 None limit l = take (nat limit) (records l c)"
begin

lemma append_distinct:
  assumes "valid l" and "lp_append port c obs l = Some (r, l')" and "distinct (map ob_id obs)"
  shows "records l' c = records l c @ filter (\<lambda>ob. ob_id ob \<notin> log_ids (records l c)) obs
    \<and> set (ar_duplicates r) = log_ids obs \<inter> log_ids (records l c)"
  using append_records [OF assms(1,2)] append_duplicates [OF assms(1,2)] assms(3)
  by (simp add: fresh_distinct set_repeated)

text \<open>Appending a batch twice is appending it once.\<close>

lemma append_idempotent:
  assumes "valid l" and "lp_append port c obs l = Some (r, l')" and "lp_append port c obs l' = Some (r', l'')"
  shows "records l'' c = records l' c"
proof -
  have "log_ids obs \<subseteq> log_ids (records l' c)"
    using append_records [OF assms(1,2)] fresh_ids [of "log_ids (records l c)" obs] by auto
  then have "log_ids (fresh (log_ids (records l' c)) obs) = {}"
    unfolding fresh_ids by blast
  then have "fresh (log_ids (records l' c)) obs = []" by simp
  with append_records [OF append_valid [OF assms(1,2)] assms(3)] show ?thesis by simp
qed

end

section \<open>The in-memory log\<close>

record memory_log =
  ml_records :: "(camera_id, observation list) dict"
  ml_ids :: "(camera_id, observation_id set) dict"

definition empty_log :: memory_log where
  "empty_log = \<lparr>ml_records = [], ml_ids = []\<rparr>"

definition ml_of :: "memory_log \<Rightarrow> camera_id \<Rightarrow> observation list" where
  "ml_of l c = (case dict_get (ml_records l) c of None \<Rightarrow> [] | Some rs \<Rightarrow> rs)"

definition ml_seen :: "memory_log \<Rightarrow> camera_id \<Rightarrow> observation_id set" where
  "ml_seen l c = (case dict_get (ml_ids l) c of None \<Rightarrow> {} | Some ids \<Rightarrow> ids)"

fun memory_append_loop ::
  "observation list \<Rightarrow> observation list \<times> observation_id set \<times> int \<times> observation_id list
   \<Rightarrow> observation list \<times> observation_id set \<times> int \<times> observation_id list" where
  "memory_append_loop [] st = st"
| "memory_append_loop (ob # obs) (rs, seen, n, dups) =
     (if ob_id ob \<in> seen then memory_append_loop obs (rs, seen, n, dups @ [ob_id ob])
      else memory_append_loop obs (rs @ [ob], insert (ob_id ob) seen, n + 1, dups))"

definition memory_append ::
  "camera_id \<Rightarrow> observation list \<Rightarrow> memory_log \<Rightarrow> (append_result \<times> memory_log) option" where
  "memory_append c obs l =
     (case memory_append_loop obs (ml_of l c, ml_seen l c, 0, []) of
        (rs, seen, n, dups) \<Rightarrow>
          Some (\<lparr>ar_position = int (length rs), ar_appended = n, ar_duplicates = dups\<rparr>,
                \<lparr>ml_records = dict_set c rs (ml_records l), ml_ids = dict_set c seen (ml_ids l)\<rparr>))"

text \<open>Positions are never negative, so Python's slices here are plain prefixes and suffixes.\<close>

definition memory_read :: "camera_id \<Rightarrow> int \<Rightarrow> int option \<Rightarrow> int \<Rightarrow> memory_log \<Rightarrow> observation list" where
  "memory_read c start finish limit l =
     (let rs = ml_of l c;
          stop = (case finish of None \<Rightarrow> int (length rs) | Some e \<Rightarrow> e)
      in take (nat limit) (drop (nat start) (take (nat stop) rs)))"

definition memory_position :: "camera_id \<Rightarrow> memory_log \<Rightarrow> int" where
  "memory_position c l = int (length (ml_of l c))"

definition memory_truncate :: "camera_id \<Rightarrow> instant \<Rightarrow> memory_log \<Rightarrow> (int \<times> memory_log) option" where
  "memory_truncate c before l =
     (case dict_get (ml_records l) c of
        None \<Rightarrow> Some (0, l)
      | Some rs \<Rightarrow>
          if rs = [] then Some (0, l)
          else
            (let removed = takeWhile (\<lambda>ob. \<not> instant_ns (ob_t_capture ob) \<ge> instant_ns before) rs;
                 kept = drop (length removed) rs
             in Some (int (length removed),
                  \<lparr>ml_records = dict_set c kept (ml_records l),
                   ml_ids = (case dict_get (ml_ids l) c of None \<Rightarrow> ml_ids l
                             | Some ids \<Rightarrow> dict_set c (ids - log_ids removed) (ml_ids l))\<rparr>)))"

definition memory_port :: "memory_log log_port" where
  "memory_port = \<lparr>lp_append = memory_append, lp_read = memory_read, lp_truncate = memory_truncate\<rparr>"

definition memory_valid :: "memory_log \<Rightarrow> bool" where
  "memory_valid l \<longleftrightarrow> (\<forall>c. ml_seen l c = log_ids (ml_of l c) \<and> distinct (map ob_id (ml_of l c)))"

lemma memory_append_loop_result:
  "memory_append_loop obs (rs, seen, n, dups)
   = (rs @ fresh seen obs, seen \<union> log_ids obs, n + int (length (fresh seen obs)), dups @ repeated seen obs)"
  by (induction obs arbitrary: rs seen n dups) auto

lemma memory_append_result:
  assumes "memory_append c obs l = Some (r, l')"
  shows "ml_of l' c = ml_of l c @ fresh (ml_seen l c) obs" "ml_seen l' c = ml_seen l c \<union> log_ids obs"
    "d \<noteq> c \<Longrightarrow> ml_of l' d = ml_of l d \<and> ml_seen l' d = ml_seen l d"
    "ar_duplicates r = repeated (ml_seen l c) obs" "ar_position r = int (length (ml_of l' c))"
  using assms by (auto simp: memory_append_def memory_append_loop_result ml_of_def ml_seen_def dict_simps)

interpretation memory: observation_log memory_port ml_of memory_valid
proof
  fix l :: memory_log and c d :: camera_id and obs and r and l' and limit :: int
  assume valid: "memory_valid l"
  show "distinct (map ob_id (ml_of l c))" using valid by (simp add: memory_valid_def)
  show "lp_read memory_port c 0 None limit l = take (nat limit) (ml_of l c)"
    by (cases "nat limit \<le> length (ml_of l c)") (simp_all add: memory_port_def memory_read_def Let_def)
  assume "lp_append memory_port c obs l = Some (r, l')"
  then have app: "memory_append c obs l = Some (r, l')" by (simp add: memory_port_def)
  note res = memory_append_result [OF app]
  have seen: "ml_seen l c = log_ids (ml_of l c)" using valid by (simp add: memory_valid_def)
  show "ml_of l' c = ml_of l c @ fresh (log_ids (ml_of l c)) obs" using res(1) seen by simp
  show "ar_duplicates r = repeated (log_ids (ml_of l c)) obs" using res(4) seen by simp
  show "ar_position r = int (length (ml_of l' c))" by (rule res(5))
  show "d \<noteq> c \<Longrightarrow> ml_of l' d = ml_of l d" using res(3) by simp
  show "memory_valid l'"
    unfolding memory_valid_def
  proof
    fix e
    show "ml_seen l' e = log_ids (ml_of l' e) \<and> distinct (map ob_id (ml_of l' e))"
    proof (cases "e = c")
      case True
      have "log_ids (ml_of l' c) = ml_seen l' c"
        using res(1,2) seen fresh_ids [of "ml_seen l c" obs] by auto
      moreover have "distinct (map ob_id (ml_of l' c))"
        using res(1) seen valid distinct_fresh [of "ml_seen l c" obs] fresh_ids [of "ml_seen l c" obs]
        by (auto simp: memory_valid_def)
      ultimately show ?thesis using True by simp
    next
      case False
      with res(3) [OF False] valid show ?thesis by (simp add: memory_valid_def)
    qed
  qed
qed

lemma empty_log_valid: "memory_valid empty_log"
  by (simp add: memory_valid_def empty_log_def ml_seen_def ml_of_def)

lemma memory_append_total: "\<exists>r l'. lp_append memory_port c obs l = Some (r, l')"
  by (simp add: memory_port_def memory_append_def memory_append_loop_result)

end
