(* ===== verification/State_Manager.thy ===== *)
theory State_Manager
  imports Observation_Log
begin

text \<open>
  The vision state manager (\<^verbatim>\<open>vision_os/state/manager.py\<close>) and replay
  (\<^verbatim>\<open>vision_os/state/replay.py\<close>): appending to the log and projecting, buffering while the
  store is down, halting when the buffer is full, resuming, rebuilding from the log, snapshots and
  the other reads. An operation that raises may have changed the manager first, so operations
  return the outcome beside the new manager. The log is an argument, the port of
  \<open>Observation_Log\<close>. Metrics, events and the delivery of deltas to listeners are left out; the
  delta of a commit is part of its outcome.
\<close>

section \<open>State\<close>

record buffer =
  bf_pending :: "observation list"
  bf_degraded_since :: "instant option"

definition new_buffer :: buffer where
  "new_buffer = \<lparr>bf_pending = [], bf_degraded_since = None\<rparr>"

record 'l manager =
  sm_log :: 'l
  sm_partitions :: "(camera_id, camera_partition) dict"
  sm_buffers :: "(camera_id, buffer) dict"
  sm_seen :: "(camera_id, observation_id set) dict"
  sm_quarantined :: int

definition new_manager :: "'l \<Rightarrow> 'l manager" where
  "new_manager l = \<lparr>sm_log = l, sm_partitions = [], sm_buffers = [], sm_seen = [], sm_quarantined = 0\<rparr>"

text \<open>The collaborators: the log, the projection bounds, the limits, and Python's set iteration order.\<close>

record 'l state_env =
  se_port :: "'l log_port"
  se_bounds :: projection_bounds
  se_buffer_capacity :: int
  se_retention_ms :: int
  se_enum :: "observation_id set \<Rightarrow> observation_id list"

record commit_result =
  cr_accepted :: int
  cr_rejected :: "observation_id list"
  cr_quarantined :: "observation_id list"
  cr_log_position :: int
  cr_version :: int
  cr_degraded :: bool

definition empty_commit :: commit_result where
  "empty_commit =
     \<lparr>cr_accepted = 0, cr_rejected = [], cr_quarantined = [], cr_log_position = 0, cr_version = 0, cr_degraded = False\<rparr>"

definition committed :: "commit_result \<Rightarrow> bool" where
  "committed r \<longleftrightarrow> cr_accepted r > 0 \<and> \<not> cr_degraded r"

record manager_delta =
  md_camera :: camera_id
  md_version :: int
  md_log_position :: int
  md_changed_objects :: "object_id list"
  md_changed_regions :: "region_id list"
  md_coverage_changed :: bool
  md_at :: instant

section \<open>Appending\<close>

definition buffer_in :: "(camera_id, buffer) dict \<Rightarrow> camera_id \<Rightarrow> buffer" where
  "buffer_in bs c = (case dict_get bs c of None \<Rightarrow> new_buffer | Some b \<Rightarrow> b)"

definition seen_in :: "(camera_id, observation_id set) dict \<Rightarrow> camera_id \<Rightarrow> observation_id set" where
  "seen_in ss c = (case dict_get ss c of None \<Rightarrow> {} | Some s \<Rightarrow> s)"

text \<open>The partition of a camera, created with its status on first use.\<close>

definition partition_in :: "(camera_id, camera_partition) dict \<Rightarrow> camera_id \<Rightarrow> camera_partition" where
  "partition_in ps c =
     (case dict_get ps c of
        None \<Rightarrow> (new_partition c)\<lparr>cp_status := Some (new_camera_status c)\<rparr>
      | Some p \<Rightarrow> p)"

abbreviation buffer_of :: "camera_id \<Rightarrow> 'l manager \<Rightarrow> buffer" where
  "buffer_of c m \<equiv> buffer_in (sm_buffers m) c"

abbreviation seen_of :: "camera_id \<Rightarrow> 'l manager \<Rightarrow> observation_id set" where
  "seen_of c m \<equiv> seen_in (sm_seen m) c"

abbreviation partition_of :: "camera_id \<Rightarrow> 'l manager \<Rightarrow> camera_partition" where
  "partition_of c m \<equiv> partition_in (sm_partitions m) c"

lemma lookup_simps [simp]:
  "buffer_in (dict_set c b bs) d = (if d = c then b else buffer_in bs d)"
  "seen_in (dict_set c s ss) d = (if d = c then s else seen_in ss d)"
  "partition_in (dict_set c p ps) d = (if d = c then p else partition_in ps d)"
  "buffer_in [] d = new_buffer" "seen_in [] d = {}"
  "partition_in [] d = (new_partition d)\<lparr>cp_status := Some (new_camera_status d)\<rparr>"
  by (simp_all add: buffer_in_def seen_in_def partition_in_def dict_simps)

definition put_partition :: "camera_id \<Rightarrow> camera_partition \<Rightarrow> 'l manager \<Rightarrow> 'l manager" where
  "put_partition c p m = m\<lparr>sm_partitions := dict_set c p (sm_partitions m)\<rparr>"

lemma put_partition_simps [simp]:
  "sm_log (put_partition c p m) = sm_log m" "sm_buffers (put_partition c p m) = sm_buffers m"
  "sm_seen (put_partition c p m) = sm_seen m" "sm_quarantined (put_partition c p m) = sm_quarantined m"
  "sm_partitions (put_partition c p m) = dict_set c p (sm_partitions m)"
  by (simp_all add: put_partition_def)

record batch_state =
  bs_partition :: camera_partition
  bs_seen :: "observation_id set"
  bs_accepted :: int
  bs_quarantined :: "observation_id list"
  bs_objects :: "object_id list"
  bs_regions :: "region_id list"
  bs_coverage :: bool

text \<open>
  The loop of \<^verbatim>\<open>_project_batch\<close>. It catches \<^verbatim>\<open>ProjectionError\<close> only; any other exception
  ends it and is handed on.
\<close>

fun project_loop ::
  "projection_bounds \<Rightarrow> observation_id set \<Rightarrow> int \<Rightarrow> observation list \<Rightarrow> batch_state \<Rightarrow> batch_state \<times> py_error option" where
  "project_loop b dups position [] st = (st, None)"
| "project_loop b dups position (ob # obs) st =
     (if ob_id ob \<in> dups \<or> ob_id ob \<in> bs_seen st then project_loop b dups (position + 1) obs st
      else case project_observation b (bs_partition st) ob position of
             Inl ProjectionError \<Rightarrow>
               project_loop b dups (position + 1) obs (st\<lparr>bs_quarantined := bs_quarantined st @ [ob_id ob]\<rparr>)
           | Inl e \<Rightarrow> (st, Some e)
           | Inr out \<Rightarrow>
               project_loop b dups (position + 1) obs
                 (st\<lparr>bs_partition := po_partition out, bs_accepted := bs_accepted st + 1,
                     bs_seen := insert (ob_id ob) (bs_seen st),
                     bs_objects := bs_objects st @ po_changed_objects out,
                     bs_regions := bs_regions st @ po_changed_regions out,
                     bs_coverage := bs_coverage st \<or> po_coverage_changed out\<rparr>))"

definition trim_seen :: "'l state_env \<Rightarrow> observation_id set \<Rightarrow> observation_id set" where
  "trim_seen e seen =
     (let limit = se_buffer_capacity e * 4
      in if int (card seen) \<le> limit then seen
         else set (drop (length (se_enum e seen) - nat limit) (se_enum e seen)))"

definition unique :: "'a list \<Rightarrow> 'a list" where
  "unique xs = rev (remdups (rev xs))"

definition project_batch ::
  "'l state_env \<Rightarrow> instant \<Rightarrow> camera_id \<Rightarrow> observation list \<Rightarrow> append_result \<Rightarrow> 'l manager
   \<Rightarrow> (commit_result \<times> manager_delta option) result \<times> 'l manager" where
  "project_batch e now c obs appended m =
     (let start = \<lparr>bs_partition = partition_of c m, bs_seen = seen_of c m, bs_accepted = 0, bs_quarantined = [],
                   bs_objects = [], bs_regions = [], bs_coverage = False\<rparr>;
          (st, failure) = project_loop (se_bounds e) (set (ar_duplicates appended))
                            (ar_position appended - int (length obs) + 1) obs start;
          m1 = m\<lparr>sm_seen := dict_set c (bs_seen st) (sm_seen m),
                 sm_quarantined := sm_quarantined m + int (length (bs_quarantined st))\<rparr>
      in case failure of
           Some err \<Rightarrow> (Inl err, m1)
         | None \<Rightarrow>
             (let p = bs_partition st;
                  m2 = (put_partition c p m1)\<lparr>sm_seen := dict_set c (trim_seen e (bs_seen st)) (sm_seen m1)\<rparr>;
                  delta = \<lparr>md_camera = c, md_version = cp_version p, md_log_position = cp_log_position p,
                           md_changed_objects = unique (bs_objects st), md_changed_regions = unique (bs_regions st),
                           md_coverage_changed = bs_coverage st, md_at = now\<rparr>
              in (Inr (\<lparr>cr_accepted = bs_accepted st, cr_rejected = [], cr_quarantined = bs_quarantined st,
                        cr_log_position = cp_log_position p, cr_version = cp_version p, cr_degraded = False\<rparr>,
                       if bs_accepted st > 0 \<or> bs_coverage st then Some delta else None), m2)))"

definition buffer_or_halt ::
  "'l state_env \<Rightarrow> instant \<Rightarrow> camera_id \<Rightarrow> observation list \<Rightarrow> 'l manager \<Rightarrow> py_error \<times> 'l manager" where
  "buffer_or_halt e now c pending m =
     (if int (length pending) \<le> se_buffer_capacity e then
        (LogUnavailableError,
         m\<lparr>sm_buffers := dict_set c
             \<lparr>bf_pending = pending,
              bf_degraded_since = (case bf_degraded_since (buffer_of c m) of None \<Rightarrow> Some now | Some t \<Rightarrow> Some t)\<rparr>
             (sm_buffers m)\<rparr>)
      else
        (CommitFailedError,
         put_partition c ((partition_of c m)\<lparr>cp_degraded_reason := ''durability buffer full''\<rparr>) m))"

definition append_partition ::
  "'l state_env \<Rightarrow> instant \<Rightarrow> camera_id \<Rightarrow> observation list \<Rightarrow> 'l manager
   \<Rightarrow> (commit_result \<times> manager_delta option) result \<times> 'l manager" where
  "append_partition e now c obs m =
     (let m1 = put_partition c (partition_of c m) (m\<lparr>sm_buffers := dict_set c (buffer_of c m) (sm_buffers m)\<rparr>)
      in if is_degraded (partition_of c m) then (Inl PartitionDegradedError, m1)
         else
           (let pending = bf_pending (buffer_of c m) @ obs
            in case lp_append (se_port e) c pending (sm_log m1) of
                 None \<Rightarrow> (let (err, m2) = buffer_or_halt e now c pending m1 in (Inl err, m2))
               | Some (appended, l) \<Rightarrow>
                   project_batch e now c pending appended
                     (m1\<lparr>sm_log := l, sm_buffers := dict_set c new_buffer (sm_buffers m1)\<rparr>)))"

definition by_camera :: "observation list \<Rightarrow> (camera_id, observation list) dict" where
  "by_camera obs =
     fold (\<lambda>ob d. dict_set (ob_camera ob) ((case dict_get d (ob_camera ob) of None \<Rightarrow> [] | Some xs \<Rightarrow> xs) @ [ob]) d) obs []"

fun append_cameras ::
  "'l state_env \<Rightarrow> instant \<Rightarrow> (camera_id, observation list) dict \<Rightarrow> commit_result \<Rightarrow> manager_delta list \<Rightarrow> 'l manager
   \<Rightarrow> (commit_result \<times> manager_delta list) result \<times> 'l manager" where
  "append_cameras e now [] acc ds m = (Inr (acc, ds), m)"
| "append_cameras e now ((c, batch) # rest) acc ds m =
     (case append_partition e now c batch m of
        (Inl err, m1) \<Rightarrow>
          if err = CommitFailedError \<or> err = PartitionDegradedError
          then append_cameras e now rest
                 (acc\<lparr>cr_degraded := True, cr_rejected := cr_rejected acc @ map ob_id batch\<rparr>) ds m1
          else (Inl err, m1)
      | (Inr (r, d), m1) \<Rightarrow>
          append_cameras e now rest
            (acc\<lparr>cr_accepted := cr_accepted acc + cr_accepted r, cr_rejected := cr_rejected acc @ cr_rejected r,
                 cr_quarantined := cr_quarantined acc @ cr_quarantined r,
                 cr_log_position := cr_log_position r, cr_version := cr_version r\<rparr>)
            (case d of None \<Rightarrow> ds | Some d \<Rightarrow> ds @ [d]) m1)"

definition manager_append ::
  "'l state_env \<Rightarrow> instant \<Rightarrow> observation list \<Rightarrow> 'l manager \<Rightarrow> (commit_result \<times> manager_delta list) result \<times> 'l manager" where
  "manager_append e now obs m =
     (if obs = [] then (Inr (empty_commit, []), m)
      else if card (set (map ob_camera obs)) > 1 then append_cameras e now (by_camera obs) empty_commit [] m
      else
        (case append_partition e now (ob_camera (hd obs)) obs m of
           (Inl err, m1) \<Rightarrow> (Inl err, m1)
         | (Inr (r, d), m1) \<Rightarrow> (Inr (r, case d of None \<Rightarrow> [] | Some d \<Rightarrow> [d]), m1)))"

section \<open>Resuming, rebuilding, retention\<close>

definition resume :: "camera_id \<Rightarrow> 'l manager \<Rightarrow> 'l manager" where
  "resume c m =
     (let p = partition_of c m; m1 = put_partition c p m
      in if \<not> is_degraded p then m1 else put_partition c (p\<lparr>cp_degraded_reason := []\<rparr>) m1)"

record rebuild_handle =
  rh_camera :: camera_id
  rh_replayed :: int
  rh_from :: int
  rh_to :: int
  rh_quarantined :: int

text \<open>\<^verbatim>\<open>self._log.read(camera_id, start=from_position)\<close>: the limit is the port's default, 1000.\<close>

definition default_read_limit :: int where
  "default_read_limit = 1000"

fun rebuild_loop ::
  "projection_bounds \<Rightarrow> observation list \<Rightarrow> camera_partition \<times> int \<times> int \<times> int
   \<Rightarrow> (camera_partition \<times> int \<times> int \<times> int) result" where
  "rebuild_loop b [] st = Inr st"
| "rebuild_loop b (ob # obs) (shadow, position, replayed, quarantined) =
     (case project_observation b shadow ob (position + 1) of
        Inl ProjectionError \<Rightarrow> rebuild_loop b obs (shadow, position + 1, replayed, quarantined + 1)
      | Inl e \<Rightarrow> Inl e
      | Inr out \<Rightarrow> rebuild_loop b obs (po_partition out, position + 1, replayed + 1, quarantined))"

definition rebuild :: "'l state_env \<Rightarrow> camera_id \<Rightarrow> int \<Rightarrow> 'l manager \<Rightarrow> (rebuild_handle \<times> 'l manager) result" where
  "rebuild e c from_position m =
     bind_result
       (rebuild_loop (se_bounds e) (lp_read (se_port e) c from_position None default_read_limit (sm_log m))
          (new_partition c, from_position, 0, 0))
       (\<lambda>(shadow, position, replayed, quarantined).
          let live = dict_get (sm_partitions m) c;
              p = shadow\<lparr>cp_version := (case live of None \<Rightarrow> 0 | Some l \<Rightarrow> cp_version l) + 1,
                         cp_status := (case cp_status shadow of
                                         Some s \<Rightarrow> Some s
                                       | None \<Rightarrow> (case live of None \<Rightarrow> None | Some l \<Rightarrow> cp_status l))\<rparr>
          in Inr (\<lparr>rh_camera = c, rh_replayed = replayed, rh_from = from_position, rh_to = position,
                   rh_quarantined = quarantined\<rparr>,
                  (put_partition c p m)\<lparr>sm_seen := dict_set c {} (sm_seen m)\<rparr>))"

fun sweep_loop :: "'l log_port \<Rightarrow> instant \<Rightarrow> camera_id list \<Rightarrow> 'l \<times> int \<times> camera_id list \<Rightarrow> 'l \<times> int \<times> camera_id list" where
  "sweep_loop port cutoff [] st = st"
| "sweep_loop port cutoff (c # cs) (l, removed, failures) =
     (case lp_truncate port c cutoff l of
        None \<Rightarrow> sweep_loop port cutoff cs (l, removed, failures @ [c])
      | Some (n, l') \<Rightarrow> sweep_loop port cutoff cs (l', removed + n, failures))"

definition retention_sweep ::
  "'l state_env \<Rightarrow> instant \<Rightarrow> instant option \<Rightarrow> 'l manager \<Rightarrow> int \<times> camera_id list \<times> 'l manager" where
  "retention_sweep e now before m =
     (let cutoff = (case before of Some t \<Rightarrow> t | None \<Rightarrow> Instant (instant_ns now - se_retention_ms e * 1000000));
          (l, removed, failures) = sweep_loop (se_port e) cutoff (dict_keys (sm_partitions m)) (sm_log m, 0, [])
      in (removed, failures, m\<lparr>sm_log := l\<rparr>))"

definition forget :: "camera_id \<Rightarrow> 'l manager \<Rightarrow> 'l manager" where
  "forget c m =
     m\<lparr>sm_partitions := dict_del c (sm_partitions m), sm_buffers := dict_del c (sm_buffers m),
       sm_seen := dict_del c (sm_seen m)\<rparr>"

section \<open>Reading\<close>

datatype consistency_level = STRONG | SNAPSHOT_SET | EVENTUAL

record snapshot =
  sn_partitions :: "(camera_id, camera_partition) dict"
  sn_consistency :: consistency_level
  sn_max_lag :: duration
  sn_incomplete :: "(camera_id \<times> string) list"
  sn_taken_at :: instant

definition mk_snapshot :: "snapshot \<Rightarrow> snapshot result" where
  "mk_snapshot s =
     (if length (sn_partitions s) > 1 \<and> sn_consistency s = STRONG then Inl ValueError else Inr s)"

definition snapshot_camera ::
  "'l manager \<Rightarrow> camera_id \<Rightarrow> (camera_id, camera_partition) dict \<times> (camera_id \<times> string) list
   \<Rightarrow> (camera_id, camera_partition) dict \<times> (camera_id \<times> string) list" where
  "snapshot_camera m c st =
     (case st of (included, incomplete) \<Rightarrow>
        (case dict_get (sm_partitions m) c of
           None \<Rightarrow> (included, incomplete @ [(c, ''no state for this partition'')])
         | Some p \<Rightarrow>
             if is_degraded p then (included, incomplete @ [(c, cp_degraded_reason p)])
             else (dict_set c p included, incomplete)))"

definition max_lag :: "instant \<Rightarrow> (camera_id, camera_partition) dict \<Rightarrow> duration" where
  "max_lag now ps =
     (let lags = List.map_filter (\<lambda>(c, p). case cp_status p of None \<Rightarrow> None
            | Some s \<Rightarrow> map_option (\<lambda>t. instant_ns now - instant_ns t) (cs_last_observation_at s)) ps
      in Duration (if lags = [] then 0 else Max (set lags)))"

definition take_snapshot :: "instant \<Rightarrow> camera_id list option \<Rightarrow> 'l manager \<Rightarrow> snapshot result" where
  "take_snapshot now cameras m =
     (let cs = (case cameras of Some cs \<Rightarrow> cs | None \<Rightarrow> dict_keys (sm_partitions m));
          (included, incomplete) = fold (snapshot_camera m) cs ([], [])
      in mk_snapshot
           \<lparr>sn_partitions = included,
            sn_consistency = (if length included \<le> 1 then STRONG else SNAPSHOT_SET),
            sn_max_lag = max_lag now included, sn_incomplete = incomplete, sn_taken_at = now\<rparr>)"

fun first_object :: "object_id \<Rightarrow> camera_partition list \<Rightarrow> object_state option" where
  "first_object x [] = None"
| "first_object x (p # ps) = (case dict_get (cp_objects p) x of Some st \<Rightarrow> Some st | None \<Rightarrow> first_object x ps)"

definition manager_object_state :: "object_id \<Rightarrow> 'l manager \<Rightarrow> object_state result" where
  "manager_object_state x m =
     (case first_object x (map snd (sm_partitions m)) of
        Some st \<Rightarrow> Inr st | None \<Rightarrow> Inl (StateNotFoundError x))"

definition capture_key :: "observation \<Rightarrow> int \<times> string" where
  "capture_key ob = (instant_ns (ob_t_capture ob), ob_id ob)"

definition observations_in ::
  "'l state_env \<Rightarrow> camera_id \<Rightarrow> instant \<Rightarrow> instant \<Rightarrow> int \<Rightarrow> 'l manager \<Rightarrow> observation list" where
  "observations_in e c s u limit m =
     sort_key capture_key
       (filter (\<lambda>ob. instant_ns s \<le> instant_ns (ob_t_capture ob) \<and> instant_ns (ob_t_capture ob) \<le> instant_ns u)
          (lp_read (se_port e) c 0 None limit (sm_log m)))"

definition manager_history ::
  "'l state_env \<Rightarrow> instant \<Rightarrow> object_id \<Rightarrow> duration option \<Rightarrow> int \<Rightarrow> 'l manager \<Rightarrow> observation list" where
  "manager_history e now x window limit m =
     (let wanted = (\<lambda>ob. ob_object ob = Some x
            \<and> (case window of None \<Rightarrow> True | Some w \<Rightarrow> instant_ns (ob_t_capture ob) \<ge> instant_ns now - duration_ns w));
          found = sort_key (\<lambda>ob. instant_ns (ob_t_capture ob))
            (concat (map (\<lambda>c. filter wanted (lp_read (se_port e) c 0 None (limit * 4) (sm_log m)))
               (dict_keys (sm_partitions m))))
      in drop (length found - nat limit) found)"

definition default_observability :: "camera_id \<Rightarrow> observability_state" where
  "default_observability c =
     \<lparr>oy_camera = c, oy_status = OBSERVING, oy_since = Instant 0, oy_reason = NORMAL, oy_effective_rate = 1,
      oy_regions_affected = [], oy_capability_gaps = []\<rparr>"

definition manager_coverage :: "camera_id list option \<Rightarrow> 'l manager \<Rightarrow> (camera_id, observability_state) dict" where
  "manager_coverage cameras m =
     fold (\<lambda>c d. case dict_get (sm_partitions m) c of None \<Rightarrow> d
            | Some p \<Rightarrow> dict_set c (case cp_observability p of None \<Rightarrow> default_observability c | Some o1 \<Rightarrow> o1) d)
       (case cameras of Some cs \<Rightarrow> cs | None \<Rightarrow> dict_keys (sm_partitions m)) []"

definition manager_coverage_report ::
  "'l state_env \<Rightarrow> camera_id \<Rightarrow> instant \<Rightarrow> instant \<Rightarrow> 'l manager \<Rightarrow> rat \<times> (instant \<times> instant) list" where
  "manager_coverage_report e c s u m =
     (let windows = List.map_filter (\<lambda>ob. if ob_type ob = COVERAGE then ob_coverage ob else None)
                      (lp_read (se_port e) c 0 None 10000 (sm_log m))
      in (coverage_gap windows s u,
          map (\<lambda>w. (cw_since w, case cw_until w of None \<Rightarrow> u | Some t \<Rightarrow> t)) (filter is_gap windows)))"

definition partition_ids :: "'l manager \<Rightarrow> camera_id list" where
  "partition_ids m = sort (dict_keys (sm_partitions m))"

definition buffer_depth :: "camera_id \<Rightarrow> 'l manager \<Rightarrow> int" where
  "buffer_depth c m = int (length (bf_pending (buffer_of c m)))"

section \<open>Replay\<close>

fun replay_loop :: "projection_bounds \<Rightarrow> observation list \<Rightarrow> int \<Rightarrow> camera_partition \<Rightarrow> (camera_partition \<times> int) result" where
  "replay_loop b [] n p = Inr (p, n)"
| "replay_loop b (ob # obs) n p =
     bind_result (project_observation b p ob (n + 1)) (\<lambda>out. replay_loop b obs (n + 1) (po_partition out))"

definition replay_partition ::
  "'l log_port \<Rightarrow> projection_bounds \<Rightarrow> camera_id \<Rightarrow> int \<Rightarrow> 'l \<Rightarrow> (camera_partition \<times> int) result" where
  "replay_partition port b c start l = replay_loop b (lp_read port c start None 1000000 l) 0 (new_partition c)"

text \<open>A divergence is the scope and the field it was found in; the two values are not kept.\<close>

definition diff :: "string \<Rightarrow> string \<Rightarrow> bool \<Rightarrow> (string \<times> string) list" where
  "diff scope name same = (if same then [] else [(scope, name)])"

definition compare_object :: "object_id \<Rightarrow> object_state \<Rightarrow> object_state \<Rightarrow> (string \<times> string) list" where
  "compare_object x l r =
     diff x ''class_id'' (os_class l = os_class r) @ diff x ''lifecycle'' (os_lifecycle l = os_lifecycle r)
     @ diff x ''first_seen'' (os_first_seen l = os_first_seen r) @ diff x ''last_seen'' (os_last_seen l = os_last_seen r)
     @ diff x ''last_confirmed'' (os_last_confirmed l = os_last_confirmed r)
     @ diff x ''observation_count'' (os_observation_count l = os_observation_count r)
     @ diff x ''measurement_basis'' (os_basis l = os_basis r)
     @ (if set (dict_keys (os_attributes l)) \<noteq> set (dict_keys (os_attributes r)) then [(x, ''attributes'')]
        else concat (map (\<lambda>(k, a). case dict_get (os_attributes r) k of None \<Rightarrow> []
               | Some a' \<Rightarrow> diff x (''attributes['' @ k @ '']'') (py_eq (as_value a) (as_value a'))) (os_attributes l)))
     @ diff x ''regions'' (set (dict_keys (os_regions l)) = set (dict_keys (os_regions r)))"

definition compare_partitions :: "camera_partition \<Rightarrow> camera_partition \<Rightarrow> (string \<times> string) list" where
  "compare_partitions l r =
     diff (cp_camera l) ''objects'' (set (dict_keys (cp_objects l)) = set (dict_keys (cp_objects r)))
     @ concat (map (\<lambda>(x, st). case dict_get (cp_objects r) x of None \<Rightarrow> [] | Some st' \<Rightarrow> compare_object x st st')
         (sorted_items (cp_objects l)))
     @ diff (cp_camera l) ''observability.status''
         (map_option oy_status (cp_observability l) = map_option oy_status (cp_observability r))
     @ diff (cp_camera l) ''regions'' (set (dict_keys (cp_regions l)) = set (dict_keys (cp_regions r)))"

section \<open>What a partition shows\<close>

text \<open>
  Two partitions show the same if they differ at most in version, log position, the degraded mark,
  and a status that was never advanced.
\<close>

definition status_of :: "camera_partition \<Rightarrow> camera_status" where
  "status_of p = (case cp_status p of None \<Rightarrow> new_camera_status (cp_camera p) | Some s \<Rightarrow> s)"

definition same_view :: "camera_partition \<Rightarrow> camera_partition \<Rightarrow> bool" where
  "same_view p q \<longleftrightarrow>
     cp_camera p = cp_camera q \<and> cp_objects p = cp_objects q \<and> cp_regions p = cp_regions q
     \<and> cp_observability p = cp_observability q \<and> status_of p = status_of q"

lemma status_of_update [simp]:
  "status_of (p\<lparr>cp_degraded_reason := why\<rparr>) = status_of p" "status_of (p\<lparr>cp_version := n\<rparr>) = status_of p"
  "status_of (p\<lparr>cp_observability := oy\<rparr>) = status_of p" "status_of (p\<lparr>cp_log_position := n\<rparr>) = status_of p"
  by (simp_all add: status_of_def split: option.split)

lemma same_view_refl [simp]: "same_view p p"
  by (simp add: same_view_def)

lemma same_view_sym: "same_view p q \<Longrightarrow> same_view q p"
  by (simp add: same_view_def)

lemma same_view_trans: "same_view p q \<Longrightarrow> same_view q r \<Longrightarrow> same_view p r"
  by (simp add: same_view_def)

lemma same_view_partition_ok: "same_view p q \<Longrightarrow> partition_ok b p = partition_ok b q"
  by (simp add: same_view_def partition_ok_def)

lemma region_state_of_view:
  "cp_objects p = cp_objects q \<Longrightarrow> cp_regions p = cp_regions q \<Longrightarrow> region_state_of p = region_state_of q"
  by (intro ext) (simp add: region_state_of_def)

lemma project_same_view:
  assumes "same_view p q" and "project_observation b p ob i = Inr out"
  shows "\<exists>out'. project_observation b q ob j = Inr out' \<and> same_view (po_partition out) (po_partition out')"
proof -
  have view: "cp_camera p = cp_camera q" "cp_objects p = cp_objects q" "cp_regions p = cp_regions q"
    "cp_observability p = cp_observability q" "status_of p = status_of q"
    using assms(1) by (simp_all add: same_view_def)
  have status: "advance_status p = advance_status q"
    using view(5) unfolding advance_status_def status_of_def by simp
  have regions: "project_regions p = project_regions q"
    unfolding project_regions_def region_state_of_view [OF view(2,3)] view(3) by (rule refl)
  show ?thesis
  proof (cases "ob_type ob = COVERAGE")
    case True
    with assms(2) obtain w where w: "ob_coverage ob = Some w" "ob_camera ob = cp_camera p"
      by (auto simp: project_observation_def project_coverage_def split: if_splits option.splits)
    let ?oy = "\<lparr>oy_camera = cp_camera q, oy_status = cw_status w, oy_since = cw_since w, oy_reason = cw_reason w,
      oy_effective_rate = cw_effective_rate w, oy_regions_affected = cw_regions w,
      oy_capability_gaps = cw_capability_gaps w\<rparr>"
    have oy: "mk_observability_state ?oy = Inr ?oy"
      using assms(2) True w view(1)
      by (auto simp: project_observation_def project_coverage_def mk_observability_state_def split: if_splits)
    have "po_partition out = p\<lparr>cp_observability := Some ?oy, cp_log_position := i, cp_version := cp_version p + 1\<rparr>"
      using assms(2) True w view(1) oy by (auto simp: project_observation_def project_coverage_def)
    moreover have "\<exists>out'. project_observation b q ob j = Inr out'
        \<and> po_partition out' = q\<lparr>cp_observability := Some ?oy, cp_log_position := j, cp_version := cp_version q + 1\<rparr>"
      using True w view(1) oy by (simp add: project_observation_def project_coverage_def)
    moreover have "same_view (p\<lparr>cp_observability := Some ?oy, cp_log_position := i, cp_version := cp_version p + 1\<rparr>)
        (q\<lparr>cp_observability := Some ?oy, cp_log_position := j, cp_version := cp_version q + 1\<rparr>)"
      using view by (simp add: same_view_def)
    ultimately show ?thesis by metis
  next
    case False
    with assms(2) obtain x where x: "ob_object ob = Some x" "ob_camera ob = cp_camera p"
      by (auto simp: project_observation_def split: if_splits option.splits)
    with False assms(2) obtain st where st: "apply_observation b x (dict_get (cp_objects p) x) ob = Inr st"
      by (cases "apply_observation b x (dict_get (cp_objects p) x) ob") (auto simp: project_observation_def Let_def)
    obtain kept n where kept: "shed_objects (pb_max_objects b) x (dict_set x st (cp_objects p)) 0 = (kept, n)"
      by (metis surj_pair)
    have "\<exists>out'. project_observation b q ob j = Inr out' \<and> po_partition out' = q\<lparr>cp_objects := kept,
        cp_regions := project_regions q st (dict_get (cp_objects q) x), cp_status := Some (advance_status q ob),
        cp_log_position := j, cp_version := cp_version q + 1\<rparr>"
      using False x st kept view(1,2) by (simp add: project_observation_def Let_def)
    moreover have "po_partition out = p\<lparr>cp_objects := kept, cp_regions := project_regions p st (dict_get (cp_objects p) x),
        cp_status := Some (advance_status p ob), cp_log_position := i, cp_version := cp_version p + 1\<rparr>"
      using assms(2) False x st kept by (auto simp: project_observation_def Let_def)
    ultimately show ?thesis using view status regions by (auto simp: same_view_def status_of_def)
  qed
qed

lemma replay_same_view:
  assumes "same_view p q" and "replay_loop b obs i p = Inr (p', k)"
  shows "\<exists>q' k'. replay_loop b obs j q = Inr (q', k') \<and> same_view p' q'"
  using assms
proof (induction obs arbitrary: p q i j)
  case (Cons ob obs)
  then obtain out where out: "project_observation b p ob (i + 1) = Inr out" "replay_loop b obs (i + 1) (po_partition out) = Inr (p', k)"
    by (auto simp: result_simps)
  from project_same_view [OF Cons.prems(1) out(1), of "j + 1"] obtain out' where
    out': "project_observation b q ob (j + 1) = Inr out'" "same_view (po_partition out) (po_partition out')" by auto
  from Cons.IH [OF out'(2) out(2), of "j + 1"] out'(1) show ?case by auto
qed simp

lemma replay_append:
  "replay_loop b (xs @ ys) i p = bind_result (replay_loop b xs i p) (\<lambda>(q, j). replay_loop b ys j q)"
proof (induction xs arbitrary: i p)
  case (Cons x xs)
  then show ?case by (cases "project_observation b p x (i + 1)") auto
qed simp

definition of_camera :: "camera_id \<Rightarrow> observation list \<Rightarrow> bool" where
  "of_camera c obs \<longleftrightarrow> (\<forall>ob \<in> set obs. observation_ok ob \<and> ob_camera ob = c)"

lemma of_camera_simps [simp]:
  "of_camera c []" "of_camera c (ob # obs) \<longleftrightarrow> observation_ok ob \<and> ob_camera ob = c \<and> of_camera c obs"
  "of_camera c (xs @ ys) \<longleftrightarrow> of_camera c xs \<and> of_camera c ys"
  by (auto simp: of_camera_def)

lemma of_camera_filter: "of_camera c obs \<Longrightarrow> of_camera c (filter P obs)"
  by (auto simp: of_camera_def)

lemma replay_total:
  assumes "bounds_ok b" and "partition_ok b p" and "cp_camera p = c" and "of_camera c obs"
  shows "\<exists>q. replay_loop b obs i p = Inr (q, i + int (length obs)) \<and> partition_ok b q \<and> cp_camera q = c
    \<and> cp_degraded_reason q = cp_degraded_reason p"
  using assms(2-4)
proof (induction obs arbitrary: p i)
  case (Cons ob obs)
  from project_yields [OF assms(1) Cons.prems(1), of ob "i + 1"] Cons.prems obtain out where
    out: "project_observation b p ob (i + 1) = Inr out" "partition_ok b (po_partition out)" "cp_camera (po_partition out) = c"
      "cp_degraded_reason (po_partition out) = cp_degraded_reason p"
    by (auto elim!: yieldsE)
  from Cons.IH [OF out(2,3), of "i + 1"] Cons.prems(3) out(1,4) show ?case by (auto simp: algebra_simps)
qed simp

text \<open>The live loop over a batch, read as a replay of what it does not skip.\<close>

lemma project_loop_replay:
  assumes "bounds_ok b" and "partition_ok b (bs_partition st)" and "cp_camera (bs_partition st) = c"
    and "of_camera c obs" and "distinct (map ob_id obs)"
  shows "\<exists>st' q k. project_loop b dups pos obs st = (st', None)
    \<and> replay_loop b (filter (\<lambda>ob. ob_id ob \<notin> dups \<and> ob_id ob \<notin> bs_seen st) obs) 0 (bs_partition st) = Inr (q, k)
    \<and> same_view (bs_partition st') q \<and> bs_quarantined st' = bs_quarantined st
    \<and> bs_seen st' = bs_seen st \<union> log_ids (filter (\<lambda>ob. ob_id ob \<notin> dups) obs)
    \<and> cp_degraded_reason (bs_partition st') = cp_degraded_reason (bs_partition st)
    \<and> bs_accepted st' = bs_accepted st + int (length (filter (\<lambda>ob. ob_id ob \<notin> dups \<and> ob_id ob \<notin> bs_seen st) obs))"
  using assms(2-5)
proof (induction obs arbitrary: st pos)
  case (Cons ob obs)
  let ?keep = "\<lambda>st ob. ob_id ob \<notin> dups \<and> ob_id ob \<notin> bs_seen st"
  show ?case
  proof (cases "?keep st ob")
    case False
    with Cons.IH [OF Cons.prems(1,2), of "pos + 1"] Cons.prems(3,4) show ?thesis by auto
  next
    case True
    from project_yields [OF assms(1) Cons.prems(1), of ob pos] Cons.prems obtain out where
      out: "project_observation b (bs_partition st) ob pos = Inr out" "partition_ok b (po_partition out)"
        "cp_camera (po_partition out) = c" "cp_degraded_reason (po_partition out) = cp_degraded_reason (bs_partition st)"
      by (auto elim!: yieldsE)
    let ?st = "st\<lparr>bs_partition := po_partition out, bs_accepted := bs_accepted st + 1,
                  bs_seen := insert (ob_id ob) (bs_seen st), bs_objects := bs_objects st @ po_changed_objects out,
                  bs_regions := bs_regions st @ po_changed_regions out,
                  bs_coverage := bs_coverage st \<or> po_coverage_changed out\<rparr>"
    have same: "filter (?keep ?st) obs = filter (?keep st) obs"
      using Cons.prems(4) by (intro filter_cong) (auto simp: rev_image_eqI)
    obtain st' q k where IH: "project_loop b dups (pos + 1) obs ?st = (st', None)"
      "replay_loop b (filter (?keep st) obs) 0 (po_partition out) = Inr (q, k)" "same_view (bs_partition st') q"
      "bs_quarantined st' = bs_quarantined st"
      "bs_seen st' = insert (ob_id ob) (bs_seen st) \<union> log_ids (filter (\<lambda>ob. ob_id ob \<notin> dups) obs)"
      "cp_degraded_reason (bs_partition st') = cp_degraded_reason (bs_partition st)"
      "bs_accepted st' = bs_accepted st + 1 + int (length (filter (?keep st) obs))"
      using Cons.IH [of ?st "pos + 1"] out Cons.prems(3,4) same by auto
    obtain out' where out': "project_observation b (bs_partition st) ob 1 = Inr out'" "same_view (po_partition out) (po_partition out')"
      using project_same_view [OF same_view_refl out(1), of 1] by auto
    obtain q' k' where "replay_loop b (filter (?keep st) obs) 1 (po_partition out') = Inr (q', k')" "same_view q q'"
      using replay_same_view [OF out'(2) IH(2), of 1] by auto
    with True out(1) out'(1) IH same_view_trans [of "bs_partition st'" q q'] show ?thesis by auto
  qed
qed simp

end
