(* ===== verification/State_Refinement.thy ===== *)
theory State_Refinement
  imports State_Manager
begin

text \<open>
  The live state refines the log: for every log that meets the port's contract, after any history
  of appends, store failures, recoveries and rebuilds in which no observation is sent again while
  it is still buffered, every partition shows what a replay of its log shows. The section on
  rebuilding says what \<^verbatim>\<open>rebuild\<close> restores for logs of any length, and the last one what
  happens to an observation that is sent again while buffered.
\<close>

section \<open>The invariant of one camera\<close>

definition camera_inv ::
  "projection_bounds \<Rightarrow> camera_id \<Rightarrow> observation list \<Rightarrow> observation list \<Rightarrow> observation_id set \<Rightarrow> camera_partition \<Rightarrow> bool" where
  "camera_inv b c rs pending seen p \<longleftrightarrow>
     of_camera c rs \<and> of_camera c pending \<and> seen \<subseteq> log_ids rs \<and> partition_ok b p \<and> cp_camera p = c
     \<and> (\<exists>q k. replay_loop b rs 0 (new_partition c) = Inr (q, k) \<and> same_view p q)"

lemma camera_inv_degraded:
  "camera_inv b c rs pending seen p \<Longrightarrow> camera_inv b c rs pending seen (p\<lparr>cp_degraded_reason := why\<rparr>)"
  by (auto simp: camera_inv_def partition_ok_def same_view_def)

lemma camera_inv_new:
  "bounds_ok b \<Longrightarrow> camera_inv b c [] [] {} ((new_partition c)\<lparr>cp_status := Some (new_camera_status c)\<rparr>)"
  using bounds_ok_positive [of b]
  by (simp add: camera_inv_def partition_ok_def same_view_def status_of_def new_partition_def)

text \<open>Appending a batch of distinct ids and projecting it keeps the invariant.\<close>

lemma camera_inv_append:
  assumes inv: "camera_inv b c rs pending seen p" and b: "bounds_ok b" and obs: "of_camera c obs"
    and "distinct (map ob_id obs)" and "dups = log_ids obs \<inter> log_ids rs"
    and st: "bs_partition st = p" "bs_seen st = seen"
  shows "\<exists>st'. project_loop b dups pos obs st = (st', None) \<and> bs_quarantined st' = bs_quarantined st
    \<and> camera_inv b c (rs @ filter (\<lambda>ob. ob_id ob \<notin> log_ids rs) obs) [] (bs_seen st') (bs_partition st')
    \<and> cp_degraded_reason (bs_partition st') = cp_degraded_reason p
    \<and> bs_accepted st' = bs_accepted st + int (length (filter (\<lambda>ob. ob_id ob \<notin> log_ids rs) obs))"
proof -
  let ?new = "filter (\<lambda>ob. ob_id ob \<notin> log_ids rs) obs"
  have p: "partition_ok b p" "cp_camera p = c" "seen \<subseteq> log_ids rs" "of_camera c rs"
    using inv by (simp_all add: camera_inv_def)
  obtain q k where q: "replay_loop b rs 0 (new_partition c) = Inr (q, k)" "same_view p q"
    using inv by (auto simp: camera_inv_def)
  have skip: "filter (\<lambda>ob. ob_id ob \<notin> dups \<and> ob_id ob \<notin> bs_seen st) obs = ?new"
    "filter (\<lambda>ob. ob_id ob \<notin> dups) obs = ?new"
    using p(3) assms(5) st by (auto intro!: filter_cong)
  obtain st' r j where st': "project_loop b dups pos obs st = (st', None)"
    "replay_loop b ?new 0 p = Inr (r, j)" "same_view (bs_partition st') r" "bs_quarantined st' = bs_quarantined st"
    "bs_seen st' = seen \<union> log_ids ?new" "cp_degraded_reason (bs_partition st') = cp_degraded_reason p"
    "bs_accepted st' = bs_accepted st + int (length ?new)"
    using project_loop_replay [OF b, of st c obs dups pos] p(1,2) obs assms(4) unfolding skip unfolding st by blast
  obtain r' j' where r': "replay_loop b ?new k q = Inr (r', j')" "same_view r r'"
    using replay_same_view [OF q(2) st'(2), of k] by auto
  have "replay_loop b (rs @ ?new) 0 (new_partition c) = Inr (r', j')"
    using q(1) r'(1) by (simp add: replay_append)
  moreover have view: "same_view (bs_partition st') r'" using st'(3) r'(2) by (rule same_view_trans)
  moreover obtain r'' where "replay_loop b ?new 0 p = Inr (r'', int (length ?new))" "partition_ok b r''" "cp_camera r'' = c"
    using replay_total [OF b p(1,2), of ?new 0] of_camera_filter [OF obs] by auto
  then have "partition_ok b (bs_partition st')" "cp_camera (bs_partition st') = c"
    using st'(2,3) same_view_partition_ok [OF st'(3)] by (auto simp: same_view_def)
  moreover have "bs_seen st' \<subseteq> log_ids (rs @ ?new)" using st'(5) p(3) by auto
  ultimately have "camera_inv b c (rs @ ?new) [] (bs_seen st') (bs_partition st')"
    using p(4) of_camera_filter [OF obs] unfolding camera_inv_def by auto
  with st' show ?thesis by auto
qed

section \<open>The invariant of the manager\<close>

definition env_ok :: "'l state_env \<Rightarrow> bool" where
  "env_ok e \<longleftrightarrow> bounds_ok (se_bounds e) \<and> enumerates (se_enum e)"

definition manager_inv :: "'l state_env \<Rightarrow> ('l \<Rightarrow> camera_id \<Rightarrow> observation list) \<Rightarrow> ('l \<Rightarrow> bool) \<Rightarrow> 'l manager \<Rightarrow> bool" where
  "manager_inv e records valid m \<longleftrightarrow>
     valid (sm_log m)
     \<and> (\<forall>c. camera_inv (se_bounds e) c (records (sm_log m) c) (bf_pending (buffer_of c m)) (seen_of c m) (partition_of c m))"

lemma trim_seen_subset: "enumerates (se_enum e) \<Longrightarrow> finite seen \<Longrightarrow> trim_seen e seen \<subseteq> seen"
  by (auto simp: trim_seen_def Let_def enumerates_def dest: in_set_dropD)

text \<open>Only the named camera may change: enough to show its part of the invariant again.\<close>

lemma manager_inv_update:
  assumes "manager_inv e records valid m" and "valid (sm_log m')"
    and "\<And>d. d \<noteq> c \<Longrightarrow> records (sm_log m') d = records (sm_log m) d \<and> buffer_of d m' = buffer_of d m
      \<and> seen_of d m' = seen_of d m \<and> partition_of d m' = partition_of d m"
    and "camera_inv (se_bounds e) c (records (sm_log m') c) (bf_pending (buffer_of c m')) (seen_of c m') (partition_of c m')"
  shows "manager_inv e records valid m'"
  unfolding manager_inv_def
proof (intro conjI allI)
  fix d
  show "camera_inv (se_bounds e) d (records (sm_log m') d) (bf_pending (buffer_of d m')) (seen_of d m') (partition_of d m')"
    using assms(1) assms(3) [of d] assms(4) by (cases "d = c") (auto simp: manager_inv_def)
qed (rule assms(2))

context observation_log
begin

definition keeps :: "'l state_env \<Rightarrow> camera_id \<Rightarrow> 'l manager \<Rightarrow> 'l manager \<Rightarrow> bool" where
  "keeps e c m m' \<longleftrightarrow>
     manager_inv e records valid m' \<and> (\<forall>d. d \<noteq> c \<longrightarrow> bf_pending (buffer_of d m') = bf_pending (buffer_of d m))"

lemma keepsI:
  assumes "manager_inv e records valid m" and "valid (sm_log m')"
    and "\<And>d. d \<noteq> c \<Longrightarrow> records (sm_log m') d = records (sm_log m) d \<and> buffer_of d m' = buffer_of d m
      \<and> seen_of d m' = seen_of d m \<and> partition_of d m' = partition_of d m"
    and "camera_inv (se_bounds e) c (records (sm_log m') c) (bf_pending (buffer_of c m')) (seen_of c m') (partition_of c m')"
  shows "keeps e c m m'"
  using manager_inv_update [OF assms] assms(3) by (simp add: keeps_def)

lemma append_partition_failed:
  assumes "manager_inv e records valid m" and "of_camera c obs" and "se_port e = port"
    and "is_degraded (partition_of c m) \<or> lp_append port c (bf_pending (buffer_of c m) @ obs) (sm_log m) = None"
  shows "keeps e c m (snd (append_partition e now c obs m))"
proof -
  have inv: "camera_inv (se_bounds e) c (records (sm_log m) c) (bf_pending (buffer_of c m)) (seen_of c m) (partition_of c m)"
    using assms(1) by (simp add: manager_inv_def)
  then have pending: "camera_inv (se_bounds e) c (records (sm_log m) c) (bf_pending (buffer_of c m) @ obs) (seen_of c m) (partition_of c m)"
    using assms(2) by (simp add: camera_inv_def)
  show ?thesis
    using assms inv pending camera_inv_degraded [OF inv]
    by (intro keepsI [OF assms(1)])
      (auto simp: append_partition_def buffer_or_halt_def manager_inv_def Let_def split: option.split)
qed

lemma append_partition_done:
  assumes "manager_inv e records valid m" and "env_ok e" and "of_camera c obs" and "se_port e = port"
    and "distinct (map ob_id (bf_pending (buffer_of c m) @ obs))" and "\<not> is_degraded (partition_of c m)"
    and app: "lp_append port c (bf_pending (buffer_of c m) @ obs) (sm_log m) = Some (r, l)"
  shows "keeps e c m (snd (append_partition e now c obs m))"
proof -
  let ?pending = "bf_pending (buffer_of c m) @ obs" and ?rs = "records (sm_log m) c"
  have valid: "valid (sm_log m)" using assms(1) by (simp add: manager_inv_def)
  have inv: "camera_inv (se_bounds e) c ?rs (bf_pending (buffer_of c m)) (seen_of c m) (partition_of c m)"
    using assms(1) by (simp add: manager_inv_def)
  have pending: "of_camera c ?pending" using inv assms(3) by (simp add: camera_inv_def)
  have log: "records l c = ?rs @ filter (\<lambda>ob. ob_id ob \<notin> log_ids ?rs) ?pending"
    and dups: "set (ar_duplicates r) = log_ids ?pending \<inter> log_ids ?rs"
    using append_distinct [OF valid app assms(5)] by blast+
  define st where "st = \<lparr>bs_partition = partition_of c m, bs_seen = seen_of c m, bs_accepted = 0, bs_quarantined = [],
                   bs_objects = [], bs_regions = [], bs_coverage = False\<rparr>"
  have b: "bounds_ok (se_bounds e)" using assms(2) by (simp add: env_ok_def)
  obtain st' where st': "project_loop (se_bounds e) (set (ar_duplicates r)) (ar_position r - int (length ?pending) + 1) ?pending st = (st', None)"
    "camera_inv (se_bounds e) c (records l c) [] (bs_seen st') (bs_partition st')"
    using camera_inv_append [OF inv b pending assms(5) dups, of st "ar_position r - int (length ?pending) + 1"] log
    by (auto simp: st_def)
  have "finite (bs_seen st')" using st'(2) finite_subset [of "bs_seen st'" "log_ids (records l c)"] by (simp add: camera_inv_def)
  then have "trim_seen e (bs_seen st') \<subseteq> bs_seen st'"
    using assms(2) trim_seen_subset by (auto simp: env_ok_def)
  then have trimmed: "camera_inv (se_bounds e) c (records l c) [] (trim_seen e (bs_seen st')) (bs_partition st')"
    using st'(2) by (auto simp: camera_inv_def)
  let ?m = "snd (append_partition e now c obs m)"
  have m: "sm_log ?m = l" "buffer_of d ?m = (if d = c then new_buffer else buffer_of d m)"
    "seen_of d ?m = (if d = c then trim_seen e (bs_seen st') else seen_of d m)"
    "partition_of d ?m = (if d = c then bs_partition st' else partition_of d m)" for d
    using assms(4,6) app st'(1)
    by (auto simp: append_partition_def project_batch_def Let_def st_def)
  show ?thesis
    using append_valid [OF valid app] append_others [OF valid app] trimmed
    by (intro keepsI [OF assms(1)]) (auto simp: m new_buffer_def)
qed

lemma append_partition_keeps:
  assumes "manager_inv e records valid m" and "env_ok e" and "of_camera c obs" and "se_port e = port"
    and "distinct (map ob_id (bf_pending (buffer_of c m) @ obs))"
  shows "keeps e c m (snd (append_partition e now c obs m))"
proof (cases "is_degraded (partition_of c m) \<or> lp_append port c (bf_pending (buffer_of c m) @ obs) (sm_log m) = None")
  case True
  from append_partition_failed [OF assms(1,3,4) True] show ?thesis .
next
  case False
  then obtain r l where "lp_append port c (bf_pending (buffer_of c m) @ obs) (sm_log m) = Some (r, l)" by auto
  from append_partition_done [OF assms(1-4) assms(5) _ this] False show ?thesis by blast
qed

lemma append_cameras_inv:
  assumes "manager_inv e records valid m" and "env_ok e" and "se_port e = port" and "wf_dict batches"
    and "\<forall>(c, batch) \<in> set batches. of_camera c batch \<and> distinct (map ob_id (bf_pending (buffer_of c m) @ batch))"
  shows "manager_inv e records valid (snd (append_cameras e now batches acc ds m))"
  using assms(1,4,5)
proof (induction batches arbitrary: acc ds m)
  case (Cons p batches)
  obtain c batch where p: "p = (c, batch)" by (cases p)
  let ?m = "snd (append_partition e now c batch m)"
  have keep: "keeps e c m ?m"
    using append_partition_keeps [OF Cons.prems(1) assms(2) _ assms(3)] Cons.prems(3) p by simp
  have "wf_dict batches" using Cons.prems(2) by (simp add: wf_dict_def)
  moreover have "of_camera d bt \<and> distinct (map ob_id (bf_pending (buffer_of d ?m) @ bt))" if "(d, bt) \<in> set batches" for d bt
  proof -
    have "d \<noteq> c" using that Cons.prems(2) p by (force simp: wf_dict_def)
    moreover have "of_camera d bt \<and> distinct (map ob_id (bf_pending (buffer_of d m) @ bt))"
      using bspec [OF Cons.prems(3), of "(d, bt)"] that by simp
    ultimately show ?thesis using keep by (simp add: keeps_def)
  qed
  ultimately have IH: "manager_inv e records valid (snd (append_cameras e now batches acc' ds' ?m))" for acc' ds'
    using keep by (intro Cons.IH) (auto simp: keeps_def)
  obtain r m' where r: "append_partition e now c batch m = (r, m')" by (metis surj_pair)
  show ?case
    using IH keep p r by (cases r) (auto simp: keeps_def split: option.splits prod.splits)
qed simp

lemma resume_inv:
  assumes "manager_inv e records valid m"
  shows "manager_inv e records valid (resume c m)"
proof -
  have "camera_inv (se_bounds e) c (records (sm_log m) c) (bf_pending (buffer_of c m)) (seen_of c m) (partition_of c m)"
    and "valid (sm_log m)" using assms by (simp_all add: manager_inv_def)
  with camera_inv_degraded [OF this(1), of "[]"] show ?thesis
    by (intro manager_inv_update [OF assms, of _ c]) (auto simp: resume_def Let_def)
qed

end

section \<open>Batches by camera\<close>

lemma by_camera_get:
  "dict_get (by_camera obs) c
   = (if c \<in> ob_camera ` set obs then Some (filter (\<lambda>ob. ob_camera ob = c) obs) else None)"
  "wf_dict (by_camera obs)"
proof (induction obs rule: rev_induct)
  case (snoc ob obs)
  { case 1
    have "ob_camera ob \<notin> ob_camera ` set obs \<Longrightarrow> filter (\<lambda>x. ob_camera x = ob_camera ob) obs = []"
      by (auto simp: filter_empty_conv rev_image_eqI)
    with snoc show ?case by (auto simp: by_camera_def dict_simps) }
  { case 2 with snoc show ?case by (simp add: by_camera_def) }
qed (simp_all add: by_camera_def)

definition resend_free :: "observation list \<Rightarrow> 'l manager \<Rightarrow> bool" where
  "resend_free obs m \<longleftrightarrow>
     (\<forall>c. distinct (map ob_id (bf_pending (buffer_of c m) @ filter (\<lambda>ob. ob_camera ob = c) obs)))"

lemma single_camera:
  assumes "\<not> card (set (map ob_camera obs)) > 1" and "obs \<noteq> []"
  shows "\<forall>ob \<in> set obs. ob_camera ob = ob_camera (hd obs)"
proof
  fix ob
  assume "ob \<in> set obs"
  then have "ob_camera ob \<in> set (map ob_camera obs)" "ob_camera (hd obs) \<in> set (map ob_camera obs)"
    using assms(2) by auto
  moreover have "card (set (map ob_camera obs)) \<le> Suc 0" using assms(1) by simp
  ultimately show "ob_camera ob = ob_camera (hd obs)" by (metis card_le_Suc0_iff_eq List.finite_set)
qed

context observation_log
begin

lemma manager_append_inv:
  assumes "manager_inv e records valid m" and "env_ok e" and "se_port e = port"
    and "\<forall>ob \<in> set obs. observation_ok ob" and "resend_free obs m"
  shows "manager_inv e records valid (snd (manager_append e now obs m))"
proof (cases "obs = []")
  case True
  with assms(1) show ?thesis by (simp add: manager_append_def)
next
  case nonempty: False
  show ?thesis
  proof (cases "card (set (map ob_camera obs)) > 1")
    case True
    have "of_camera c batch \<and> distinct (map ob_id (bf_pending (buffer_of c m) @ batch))"
      if "(c, batch) \<in> set (by_camera obs)" for c batch
    proof -
      have "batch = filter (\<lambda>ob. ob_camera ob = c) obs"
        using in_dict_get [OF by_camera_get(2) that] by (simp add: by_camera_get split: if_splits)
      with assms(4,5) show ?thesis by (auto simp: of_camera_def resend_free_def)
    qed
    then have "\<forall>(c, batch) \<in> set (by_camera obs).
        of_camera c batch \<and> distinct (map ob_id (bf_pending (buffer_of c m) @ batch))" by blast
    from append_cameras_inv [OF assms(1-3) by_camera_get(2) this] True nonempty show ?thesis
      by (simp add: manager_append_def)
  next
    case False
    let ?c = "ob_camera (hd obs)"
    have one: "\<forall>ob \<in> set obs. ob_camera ob = ?c" using single_camera [OF False nonempty] .
    then have all: "filter (\<lambda>ob. ob_camera ob = ?c) obs = obs" by simp
    have "of_camera ?c obs" using one assms(4) by (auto simp: of_camera_def)
    moreover have "distinct (map ob_id (bf_pending (buffer_of ?c m) @ obs))"
      using assms(5) all unfolding resend_free_def by metis
    ultimately have "keeps e ?c m (snd (append_partition e now ?c obs m))"
      using append_partition_keeps [OF assms(1,2) _ assms(3)] by blast
    with False nonempty show ?thesis
      by (auto simp: manager_append_def keeps_def split: prod.split sum.split)
  qed
qed

end

section \<open>Rebuilding\<close>

lemma rebuild_loop_replay:
  assumes "bounds_ok b" and "partition_ok b p" and "cp_camera p = c" and "of_camera c obs"
  shows "\<exists>q. rebuild_loop b obs (p, i, r, k) = Inr (q, i + int (length obs), r + int (length obs), k)
    \<and> replay_loop b obs i p = Inr (q, i + int (length obs)) \<and> partition_ok b q \<and> cp_camera q = c"
  using assms(2-4)
proof (induction obs arbitrary: p i r)
  case (Cons ob obs)
  from project_yields [OF assms(1) Cons.prems(1), of ob "i + 1"] Cons.prems obtain out where
    out: "project_observation b p ob (i + 1) = Inr out" "partition_ok b (po_partition out)" "cp_camera (po_partition out) = c"
    by (auto elim!: yieldsE)
  from Cons.IH [OF out(2,3), of "i + 1" "r + 1"] Cons.prems(3) out(1) show ?case by (auto simp: algebra_simps)
qed simp

definition rebuilt :: "camera_partition option \<Rightarrow> camera_partition \<Rightarrow> camera_partition" where
  "rebuilt old q =
     q\<lparr>cp_version := (case old of None \<Rightarrow> 0 | Some l \<Rightarrow> cp_version l) + 1,
       cp_status := (case cp_status q of Some s \<Rightarrow> Some s
                     | None \<Rightarrow> (case old of None \<Rightarrow> None | Some l \<Rightarrow> cp_status l))\<rparr>"

lemma rebuilt_simps [simp]:
  "cp_objects (rebuilt old q) = cp_objects q" "cp_regions (rebuilt old q) = cp_regions q"
  "cp_observability (rebuilt old q) = cp_observability q" "cp_camera (rebuilt old q) = cp_camera q"
  "partition_ok b (rebuilt old q) = partition_ok b q"
  by (simp_all add: rebuilt_def partition_ok_def)

lemma rebuilt_view:
  assumes "\<And>l. old = Some l \<Longrightarrow> same_view l q"
  shows "same_view (rebuilt old q) q"
proof (cases "cp_status q")
  case None
  then have "status_of (rebuilt old q) = (case old of None \<Rightarrow> new_camera_status (cp_camera q)
      | Some l \<Rightarrow> (case cp_status l of None \<Rightarrow> new_camera_status (cp_camera q) | Some s \<Rightarrow> s))"
    by (simp add: status_of_def rebuilt_def split: option.split)
  also have "\<dots> = status_of q"
    using assms None by (cases old) (auto simp: same_view_def status_of_def split: option.splits)
  finally show ?thesis by (simp add: same_view_def)
next
  case (Some s)
  then show ?thesis by (simp add: same_view_def status_of_def rebuilt_def)
qed

context observation_log
begin

lemma rebuild_result:
  assumes "manager_inv e records valid m" and "env_ok e" and "se_port e = port"
  shows "\<exists>q. replay_loop (se_bounds e) (take 1000 (records (sm_log m) c)) 0 (new_partition c)
      = Inr (q, int (min 1000 (length (records (sm_log m) c)))) \<and> partition_ok (se_bounds e) q \<and> cp_camera q = c
    \<and> rebuild e c 0 m = Inr (\<lparr>rh_camera = c, rh_replayed = int (min 1000 (length (records (sm_log m) c))), rh_from = 0,
         rh_to = int (min 1000 (length (records (sm_log m) c))), rh_quarantined = 0\<rparr>,
       (put_partition c (rebuilt (dict_get (sm_partitions m) c) q) m)\<lparr>sm_seen := dict_set c {} (sm_seen m)\<rparr>)"
proof -
  let ?obs = "take 1000 (records (sm_log m) c)"
  have valid: "valid (sm_log m)" and rs: "of_camera c (records (sm_log m) c)"
    using assms(1) by (auto simp: manager_inv_def camera_inv_def)
  have read: "lp_read port c 0 None default_read_limit (sm_log m) = ?obs"
    using read_from_start [OF valid, of default_read_limit c] by (simp add: default_read_limit_def)
  have "of_camera c ?obs" using rs by (auto simp: of_camera_def dest: in_set_takeD)
  moreover have b: "bounds_ok (se_bounds e)" using assms(2) by (simp add: env_ok_def)
  moreover have "cp_camera (new_partition c) = c" by (simp add: new_partition_def)
  ultimately obtain q where q: "rebuild_loop (se_bounds e) ?obs (new_partition c, 0, 0, 0)
      = Inr (q, int (length ?obs), int (length ?obs), 0)"
    "replay_loop (se_bounds e) ?obs 0 (new_partition c) = Inr (q, int (length ?obs))"
    "partition_ok (se_bounds e) q" "cp_camera q = c"
    using rebuild_loop_replay [of "se_bounds e" "new_partition c" c ?obs 0 0 0] new_partition_ok by auto
  then show ?thesis
    unfolding rebuild_def assms(3) read
    by (intro exI [of _ q]) (simp add: rebuilt_def Let_def min.commute)
qed

lemma rebuild_inv:
  assumes "manager_inv e records valid m" and "env_ok e" and "se_port e = port"
    and "length (records (sm_log m) c) \<le> 1000" and "rebuild e c 0 m = Inr (h, m')"
  shows "manager_inv e records valid m'"
proof -
  let ?rs = "records (sm_log m) c"
  obtain q where q: "replay_loop (se_bounds e) ?rs 0 (new_partition c) = Inr (q, int (length ?rs))"
    "partition_ok (se_bounds e) q" "cp_camera q = c"
    and m': "m' = (put_partition c (rebuilt (dict_get (sm_partitions m) c) q) m)\<lparr>sm_seen := dict_set c {} (sm_seen m)\<rparr>"
    using rebuild_result [OF assms(1-3), of c] assms(4,5) by auto
  have inv: "camera_inv (se_bounds e) c ?rs (bf_pending (buffer_of c m)) (seen_of c m) (partition_of c m)"
    and valid: "valid (sm_log m)" using assms(1) by (simp_all add: manager_inv_def)
  have "same_view (rebuilt (dict_get (sm_partitions m) c) q) q"
    using inv q(1) by (intro rebuilt_view) (auto simp: camera_inv_def partition_in_def)
  with inv q have "camera_inv (se_bounds e) c ?rs (bf_pending (buffer_of c m)) {} (rebuilt (dict_get (sm_partitions m) c) q)"
    by (auto simp: camera_inv_def)
  with valid show ?thesis
    by (intro manager_inv_update [OF assms(1), of _ c]) (auto simp: m')
qed

end

section \<open>Every reachable manager\<close>

inductive manager_step ::
  "'l state_env \<Rightarrow> ('l \<Rightarrow> camera_id \<Rightarrow> observation list) \<Rightarrow> 'l manager \<Rightarrow> 'l manager \<Rightarrow> bool" for e records where
  append: "\<forall>ob \<in> set obs. observation_ok ob \<Longrightarrow> resend_free obs m
           \<Longrightarrow> manager_step e records m (snd (manager_append e now obs m))"
| resume: "manager_step e records m (resume c m)"
| rebuild: "length (records (sm_log m) c) \<le> 1000 \<Longrightarrow> rebuild e c 0 m = Inr (h, m')
            \<Longrightarrow> manager_step e records m m'"

context observation_log
begin

lemma new_manager_inv:
  assumes "valid l" and "\<And>c. records l c = []" and "env_ok e"
  shows "manager_inv e records valid (new_manager l)"
  using assms camera_inv_new [of "se_bounds e"]
  by (simp add: manager_inv_def new_manager_def new_buffer_def env_ok_def)

lemma reachable_inv:
  assumes "(manager_step e records)\<^sup>*\<^sup>* (new_manager l) m" and "valid l" and "\<And>c. records l c = []"
    and "env_ok e" and "se_port e = port"
  shows "manager_inv e records valid m"
  using assms(1)
proof (induction rule: rtranclp_induct)
  case base
  from assms(2-4) show ?case by (rule new_manager_inv)
next
  case (step m m')
  from step(2) show ?case
  proof cases
    case (append obs now)
    with manager_append_inv [OF step(3) assms(4,5)] show ?thesis by blast
  next
    case (resume c)
    with resume_inv [OF step(3)] show ?thesis by blast
  next
    case (rebuild c h)
    with rebuild_inv [OF step(3) assms(4,5)] show ?thesis by blast
  qed
qed

end

lemma compare_object_same:
  assumes "wf_dict (os_attributes st)"
  shows "compare_object x st st = []"
  using in_dict_get [OF assms] by (auto simp: compare_object_def diff_def)

lemma compare_same_view:
  assumes "same_view p q" and "partition_ok b p"
  shows "compare_partitions p q = []"
proof -
  have obj: "cp_objects p = cp_objects q" "cp_regions p = cp_regions q" "cp_observability p = cp_observability q"
    using assms(1) by (simp_all add: same_view_def)
  have wf: "wf_dict (cp_objects q)" using assms(2) obj(1) by (simp add: partition_ok_def)
  have "wf_dict (os_attributes st)" if "(x, st) \<in> set (cp_objects q)" for x st
  proof -
    have "object_ok b x st" using assms(2) that unfolding partition_ok_def obj(1) by blast
    then show ?thesis by (simp add: object_ok_def attributes_ok_def)
  qed
  then show ?thesis
    using in_dict_get [OF wf]
    by (auto simp: compare_partitions_def diff_def obj sorted_items_def compare_object_same)
qed


text \<open>
  C38: a rebuild restores the state of the first thousand records only. In every reachable manager,
  for a log of any length, \<open>rebuild\<close> succeeds and puts in place the objects, regions and
  observability that a replay of the first 1000 records gives, having replayed that many.
\<close>

theorem rebuild_stops_at_thousand:
  assumes "observation_log port records valid" and "valid l" and "\<And>c. records l c = []"
    and "env_ok e" and "se_port e = port" and "(manager_step e records)\<^sup>*\<^sup>* (new_manager l) m"
  shows "\<exists>h m' p q. rebuild e c 0 m = Inr (h, m') \<and> rh_replayed h = int (min 1000 (length (records (sm_log m) c)))
    \<and> dict_get (sm_partitions m') c = Some p
    \<and> replay_loop (se_bounds e) (take 1000 (records (sm_log m) c)) 0 (new_partition c) = Inr (q, rh_replayed h)
    \<and> cp_objects p = cp_objects q \<and> cp_regions p = cp_regions q \<and> cp_observability p = cp_observability q"
proof -
  have "manager_inv e records valid m"
    using observation_log.reachable_inv [OF assms(1,6,2,3,4,5)] .
  from observation_log.rebuild_result [OF assms(1) this assms(4,5), of c] show ?thesis
    by (auto simp: dict_simps)
qed

section \<open>Sending a buffered observation again\<close>

lemma resent_batch_skipped:
  "project_loop b {ob_id ob} pos [ob, ob] st = (st, None)"
  by simp

text \<open>
  C39: an observation sent again while it is buffered is lost to the live state. If the store was
  down when \<open>ob\<close> was appended, so that \<open>ob\<close> is the buffered batch of its camera, and the caller
  sends it again when the store is back, the log receives \<open>ob\<close> once and reports its second copy
  as a duplicate; the projection then skips both copies: nothing is accepted, and the live
  partition does not change although its log has grown.
\<close>

theorem resent_buffered_observation_is_lost:
  assumes "observation_log port records valid" and "valid (sm_log m)" and "se_port e = port"
    and "bf_pending (buffer_of c m) = [ob]" and "ob_camera ob = c" and "ob_id ob \<notin> log_ids (records (sm_log m) c)"
    and "\<not> is_degraded (partition_of c m)" and "lp_append port c [ob, ob] (sm_log m) \<noteq> None"
  shows "\<exists>r m'. manager_append e now [ob] m = (Inr (r, []), m') \<and> cr_accepted r = 0
    \<and> records (sm_log m') c = records (sm_log m) c @ [ob] \<and> partition_of c m' = partition_of c m"
proof -
  obtain r l where app: "lp_append port c [ob, ob] (sm_log m) = Some (r, l)" using assms(8) by auto
  have log: "records l c = records (sm_log m) c @ [ob]" and dups: "ar_duplicates r = [ob_id ob]"
    using observation_log.append_records [OF assms(1,2) app] observation_log.append_duplicates [OF assms(1,2) app] assms(6)
    by simp_all
  show ?thesis
    using assms(3-5,7) app log dups
    by (auto simp: manager_append_def append_partition_def project_batch_def Let_def simp del: project_loop.simps
        intro!: exI simp: resent_batch_skipped)
qed

section \<open>Examples\<close>

definition example_state_env :: "memory_log state_env" where
  "example_state_env =
     \<lparr>se_port = memory_port, se_bounds = example_bounds, se_buffer_capacity = 4, se_retention_ms = 1000,
      se_enum = sorted_list_of_set\<rparr>"

lemma example_state_env_ok: "env_ok example_state_env" "se_port example_state_env = memory_port"
  by (simp_all add: env_ok_def example_state_env_def example_bounds_ok sorted_list_enumerates)

definition example_obs :: observation where
  "example_obs = example_observation ''a'' ''acme'' ''cam-1'' ''obj-1'' 5"

definition example_manager :: "memory_log manager" where
  "example_manager = snd (manager_append example_state_env (Instant 6) [example_obs] (new_manager empty_log))"

lemma example_manager_reachable: "(manager_step example_state_env ml_of)\<^sup>*\<^sup>* (new_manager empty_log) example_manager"
proof -
  have "observation_ok example_obs" unfolding example_obs_def by (rule example_observation_ok) simp_all
  then show ?thesis
    unfolding example_manager_def
    by (intro r_into_rtranclp manager_step.append)
      (auto simp: resend_free_def new_manager_def new_buffer_def)
qed

lemma empty_log_records: "ml_of empty_log c = []"
  by (simp add: ml_of_def empty_log_def)

lemma example_manager_log: "ml_of (sm_log example_manager) ''cam-1'' = [example_obs]"
  "\<exists>p. dict_get (sm_partitions example_manager) ''cam-1'' = Some p"
proof -
  let ?m = "new_manager empty_log"
  have ok: "observation_ok example_obs" "ob_camera example_obs = ''cam-1''"
    unfolding example_obs_def using example_observation_ok by (simp_all add: example_observation_def)
  have inv: "manager_inv example_state_env ml_of memory_valid ?m"
    using memory.new_manager_inv [OF empty_log_valid empty_log_records example_state_env_ok(1)] .
  obtain r l where app: "memory_append ''cam-1'' [example_obs] empty_log = Some (r, l)"
    using memory_append_total [of "''cam-1''" "[example_obs]" empty_log] by (auto simp: memory_port_def)
  have l: "ml_of l ''cam-1'' = [example_obs]"
    using memory_append_result(1) [OF app] by (simp add: ml_of_def ml_seen_def empty_log_def)
  obtain st' where "project_loop example_bounds (set (ar_duplicates r)) (ar_position r) [example_obs]
      \<lparr>bs_partition = partition_of ''cam-1'' ?m, bs_seen = {}, bs_accepted = 0, bs_quarantined = [],
       bs_objects = [], bs_regions = [], bs_coverage = False\<rparr> = (st', None)"
    using camera_inv_append [OF camera_inv_new [OF example_bounds_ok] example_bounds_ok, where obs = "[example_obs]"
        and c = "''cam-1''" and dups = "set (ar_duplicates r)" and pos = "ar_position r"
        and st = "\<lparr>bs_partition = partition_of ''cam-1'' ?m, bs_seen = {}, bs_accepted = 0, bs_quarantined = [],
          bs_objects = [], bs_regions = [], bs_coverage = False\<rparr>"]
      ok memory_append_result(4) [OF app]
    by (auto simp: new_manager_def ml_seen_def empty_log_def)
  then have "sm_log example_manager = l" "dict_get (sm_partitions example_manager) ''cam-1'' = Some (bs_partition st')"
    using app ok
    by (auto simp: example_manager_def manager_append_def append_partition_def project_batch_def Let_def
        example_state_env_def memory_port_def new_manager_def new_buffer_def is_degraded_def new_partition_def dict_simps
        simp del: project_loop.simps)
  with l show "ml_of (sm_log example_manager) ''cam-1'' = [example_obs]"
    "\<exists>p. dict_get (sm_partitions example_manager) ''cam-1'' = Some p" by auto
qed


theorem rebuild_stops_at_thousand_witness:
  "\<exists>h m. rebuild example_state_env ''cam-1'' 0 example_manager = Inr (h, m) \<and> rh_replayed h = 1"
  using rebuild_stops_at_thousand [OF memory.observation_log_axioms empty_log_valid empty_log_records example_state_env_ok
      example_manager_reachable, of "''cam-1''"] example_manager_log(1) by auto

definition buffered_manager :: "memory_log manager" where
  "buffered_manager = (new_manager empty_log)\<lparr>sm_buffers := [(''cam-1'', \<lparr>bf_pending = [example_obs],
     bf_degraded_since = Some (Instant 5)\<rparr>)]\<rparr>"

theorem resent_buffered_observation_is_lost_witness:
  "\<exists>r m. manager_append example_state_env (Instant 7) [example_obs] buffered_manager = (Inr (r, []), m)
     \<and> ml_of (sm_log m) ''cam-1'' = [example_obs] \<and> cp_objects (partition_of ''cam-1'' m) = []"
proof -
  have m: "sm_log buffered_manager = empty_log" "bf_pending (buffer_of ''cam-1'' buffered_manager) = [example_obs]"
    "ob_camera example_obs = ''cam-1''"
    "partition_of ''cam-1'' buffered_manager = (new_partition ''cam-1'')\<lparr>cp_status := Some (new_camera_status ''cam-1'')\<rparr>"
    by (simp_all add: buffered_manager_def new_manager_def buffer_in_def dict_get_def example_obs_def example_observation_def)
  have "\<exists>r m'. manager_append example_state_env (Instant 7) [example_obs] buffered_manager = (Inr (r, []), m') \<and> cr_accepted r = 0
    \<and> ml_of (sm_log m') ''cam-1'' = ml_of (sm_log buffered_manager) ''cam-1'' @ [example_obs]
    \<and> partition_of ''cam-1'' m' = partition_of ''cam-1'' buffered_manager"
    using memory_append_total
    by (intro resent_buffered_observation_is_lost [OF memory.observation_log_axioms _ example_state_env_ok(2)])
      (auto simp: m empty_log_valid empty_log_records is_degraded_def new_partition_def)
  then show ?thesis by (auto simp: m empty_log_records new_partition_def)
qed

end
