(* ===== verification/Observation_Api.thy ===== *)
theory Observation_Api
  imports Authorization Subscription_Hub State_Manager
begin

text \<open>
  The observation API (\<^verbatim>\<open>vision_os/exposure/api.py\<close>) with its limits
  (\<^verbatim>\<open>core/ports/exposure.py\<close>) and the audit sink (\<^verbatim>\<open>exposure/audit.py\<close>): authorization
  with auditing, rate limiting, the cameras a scope reaches, state queries, paged observation
  queries, single objects, coverage, subscriptions. The API's own state is its rate-limit buckets,
  the subscription counter, the hub and the audit sink; it survives an operation that raises, so
  operations return outcome and state side by side. The authorizer, the camera manager and the log
  are arguments. The audit trail has one counting sink, which does not fail. Times for rate limiting
  are exact rational seconds. Metrics, the detail texts of audit records and the capability summary
  are left out.
\<close>

section \<open>Limits, audit, state\<close>

record rate_limit =
  rl_requests_per_minute :: int
  rl_burst :: int

definition mk_rate_limit :: "rate_limit \<Rightarrow> rate_limit result" where
  "mk_rate_limit r = (if rl_requests_per_minute r < 1 \<or> rl_burst r < 1 then Inl ValueError else Inr r)"

record api_limits =
  al_query :: rate_limit
  al_evidence :: rate_limit
  al_subscribe :: rate_limit
  al_max_page_size :: int
  al_max_window_ms :: int
  al_max_subscriptions :: int

definition mk_api_limits :: "api_limits \<Rightarrow> api_limits result" where
  "mk_api_limits l =
     (if al_max_page_size l < 1 then Inl ValueError
      else if al_max_window_ms l < 1 then Inl ValueError else Inr l)"

record audit_record =
  au_at :: instant
  au_principal :: string
  au_tenant :: tenant_id
  au_action :: action
  au_resource :: string
  au_granted :: bool
  au_purpose :: string

record audit_sink =
  ak_capacity :: int
  ak_records :: "audit_record list"
  ak_total :: int

definition mk_audit_sink :: "int \<Rightarrow> audit_sink result" where
  "mk_audit_sink n = (if n < 1 then Inl ValueError else Inr \<lparr>ak_capacity = n, ak_records = [], ak_total = 0\<rparr>)"

definition sink_record :: "audit_record \<Rightarrow> audit_sink \<Rightarrow> audit_sink" where
  "sink_record r k =
     (let rs = ak_records k @ [r]
      in k\<lparr>ak_records := drop (length rs - nat (ak_capacity k)) rs, ak_total := ak_total k + 1\<rparr>)"

definition records_for_principal :: "string \<Rightarrow> audit_sink \<Rightarrow> audit_record list" where
  "records_for_principal u k = filter (\<lambda>r. au_principal r = u) (ak_records k)"

definition denials :: "audit_sink \<Rightarrow> audit_record list" where
  "denials k = filter (\<lambda>r. \<not> au_granted r) (ak_records k)"

record observation_api =
  oa_buckets :: "(string \<times> string, rat list) dict"
  oa_next_subscription :: int
  oa_hub :: hub
  oa_audit :: audit_sink

datatype evidence_status = STORED | EVIDENCE_NOT_FOUND | EXPIRED_EVIDENCE | ERASED_EVIDENCE

record evidence_fetch =
  ef_status :: evidence_status
  ef_payload :: "int list option"
  ef_observation :: "string option"

definition mk_evidence_fetch :: "evidence_fetch \<Rightarrow> evidence_fetch result" where
  "mk_evidence_fetch f =
     (if ef_status f = STORED \<and> ef_payload f = None then Inl ValueError
      else if ef_status f \<noteq> STORED \<and> ef_payload f \<noteq> None then Inl ValueError else Inr f)"

definition evidence_available :: "evidence_fetch \<Rightarrow> bool" where
  "evidence_available f \<longleftrightarrow> ef_status f = STORED \<and> ef_payload f \<noteq> None"

definition api_init :: "audit_sink \<Rightarrow> observation_api" where
  "api_init k = \<lparr>oa_buckets = [], oa_next_subscription = 0, oa_hub = empty_hub, oa_audit = k\<rparr>"

text \<open>
  The collaborators. \<open>ae_cameras\<close> is the camera manager's list of a tenant's cameras, if one is
  bound; \<open>ae_read_error\<close> gives the name of the exception where reading a camera's log raises;
  \<open>ae_evidence\<close> is the evidence store's \<^verbatim>\<open>get\<close>, if a store is configured.
\<close>

record 'l api_env =
  ae_authorize :: "principal \<Rightarrow> action \<Rightarrow> scope \<Rightarrow> decision result"
  ae_cameras :: "(tenant_id \<Rightarrow> camera_id list) option"
  ae_limits :: api_limits
  ae_state :: "'l state_env"
  ae_read_error :: "camera_id \<Rightarrow> string option"
  ae_evidence :: "(string \<Rightarrow> tenant_id \<Rightarrow> evidence_fetch) option"

definition audit_write ::
  "instant \<Rightarrow> principal \<Rightarrow> action \<Rightarrow> bool \<Rightarrow> string \<Rightarrow> string \<Rightarrow> observation_api \<Rightarrow> observation_api" where
  "audit_write now p a granted resource purpose api =
     api\<lparr>oa_audit := sink_record
       \<lparr>au_at = now, au_principal = pr_subject p, au_tenant = pr_tenant p, au_action = a,
        au_resource = resource, au_granted = granted, au_purpose = purpose\<rparr> (oa_audit api)\<rparr>"

fun decimal :: "nat \<Rightarrow> string" where
  "decimal n = (if n < 10 then [char_of (48 + n)] else decimal (n div 10) @ [char_of (48 + n mod 10)])"

declare decimal.simps [simp del]

section \<open>Guards\<close>

definition api_authorize ::
  "'l api_env \<Rightarrow> instant \<Rightarrow> principal \<Rightarrow> action \<Rightarrow> scope \<Rightarrow> observation_api \<Rightarrow> scope result \<times> observation_api" where
  "api_authorize e now p a s api =
     (if sc_tenant s \<noteq> pr_tenant p
      then (Inl (TenantScopeViolationError (pr_subject p)), audit_write now p a False [] [] api)
      else case ae_authorize e p a s of
             Inl err \<Rightarrow> (Inl err, api)
           | Inr d \<Rightarrow>
               if denied d then (Inl (ForbiddenError (pr_subject p)), audit_write now p a False [] [] api)
               else (Inr (de_scope d), api))"

definition check_version :: "int \<Rightarrow> unit result" where
  "check_version major = (if major \<notin> {1} then Inl UnsupportedVersionError else Inr ())"

definition check_window :: "api_limits \<Rightarrow> time_window \<Rightarrow> unit result" where
  "check_window l w =
     (if (of_int (duration_ns (window_span w)) / 1000000 :: rat) > of_int (al_max_window_ms l)
      then Inl WindowTooLargeError else Inr ())"

definition charge_window :: "rate_limit \<Rightarrow> rat \<Rightarrow> rat list \<Rightarrow> bool \<times> rat list" where
  "charge_window l now window =
     (let live = filter (\<lambda>t. t > now - 60) window
      in if int (length live) \<ge> rl_requests_per_minute l then (False, live) else (True, live @ [now]))"

definition charge ::
  "rate_limit \<Rightarrow> instant \<Rightarrow> principal \<Rightarrow> string \<Rightarrow> observation_api \<Rightarrow> unit result \<times> observation_api" where
  "charge l now p bucket api =
     (let key = (pr_subject p, bucket);
          (ok, window) = charge_window l (of_int (instant_ns now) / 1000000000)
            (case dict_get (oa_buckets api) key of None \<Rightarrow> [] | Some w \<Rightarrow> w)
      in (if ok then Inr () else Inl OverloadedError, api\<lparr>oa_buckets := dict_set key window (oa_buckets api)\<rparr>))"

definition cameras_in :: "'l api_env \<Rightarrow> 'l manager \<Rightarrow> scope \<Rightarrow> camera_id list" where
  "cameras_in e m s =
     (if sc_cameras s \<noteq> [] then sc_cameras s
      else case ae_cameras e of Some f \<Rightarrow> f (sc_tenant s) | None \<Rightarrow> partition_ids m)"

section \<open>State queries\<close>

record state_filter =
  stf_classes :: "class_id list"
  stf_lifecycle :: "lifecycle_state list"
  stf_min_confidence :: "rat option"
  stf_attributes :: "attribute_predicate list"
  stf_max_staleness :: "duration option"
  stf_objects :: "object_id list"

definition predicate_holds :: "object_state \<Rightarrow> attribute_predicate \<Rightarrow> bool" where
  "predicate_holds st p =
     (case dict_get (os_attributes st) (ap_key p) of
        None \<Rightarrow> \<not> ap_present p
      | Some held \<Rightarrow> (case ap_equals p of None \<Rightarrow> True | Some v \<Rightarrow> py_eq (as_value held) v))"

definition state_matches :: "state_filter \<Rightarrow> object_state \<Rightarrow> bool" where
  "state_matches f st =
     (if \<not> matches_class (stf_classes f) (Some (os_class st)) then False
      else if stf_lifecycle f \<noteq> [] \<and> os_lifecycle st \<notin> set (stf_lifecycle f) then False
      else if stf_objects f \<noteq> [] \<and> os_id st \<notin> set (stf_objects f) then False
      else if (case stf_min_confidence f of None \<Rightarrow> False
                 | Some lowest \<Rightarrow> \<not> cf_calibrated (os_class_confidence st) \<or> cf_value (os_class_confidence st) < lowest)
      then False
      else list_all (predicate_holds st) (stf_attributes f))"

record exposed_view = object_view +
  xv_spatial :: "spatial_info option"
  xv_trajectory :: "(instant \<times> (rat \<times> rat) \<times> measurement_basis) list"
  xv_provenance :: "(string, string) dict option"

definition attribute_view_of :: "attribute_key \<Rightarrow> attribute_state \<Rightarrow> attribute_view" where
  "attribute_view_of k a =
     \<lparr>av_key = k, av_value = as_value a, av_confidence = as_confidence a, av_observed_at = as_observed_at a,
      av_valid_until = as_valid_until a, av_evidence_ref = map_option er_evidence_id (as_evidence_ref a)\<rparr>"

definition object_view_of :: "object_state \<Rightarrow> camera_id \<Rightarrow> query_options \<Rightarrow> exposed_view" where
  "object_view_of st c q =
     \<lparr>ov_object_id = os_id st, ov_class_id = os_class st, ov_class_confidence = os_class_confidence st,
      ov_lifecycle = os_lifecycle st, ov_camera_id = c, ov_first_seen = os_first_seen st,
      ov_last_seen = os_last_seen st, ov_last_confirmed = os_last_confirmed st,
      ov_attributes = map (\<lambda>(k, a). (k, attribute_view_of k a))
        (filter (\<lambda>(k, a). case qo_include_attributes q of None \<Rightarrow> True | Some ks \<Rightarrow> k \<in> set ks) (os_attributes st)),
      ov_observation_count = os_observation_count st,
      xv_spatial = (if qo_include_spatial q then os_spatial st else None),
      xv_trajectory = (if qo_include_trajectory q then os_trajectory st else []),
      xv_provenance = (if qo_include_provenance q then Some (os_provenance st) else None)\<rparr>"

text \<open>The inner loop; its \<^verbatim>\<open>break\<close> leaves one partition, and the next one is entered.\<close>

fun collect_objects ::
  "state_filter \<Rightarrow> query_options \<Rightarrow> camera_id \<Rightarrow> object_state list \<Rightarrow> exposed_view list \<Rightarrow> exposed_view list" where
  "collect_objects f q c [] acc = acc"
| "collect_objects f q c (st # sts) acc =
     (if \<not> state_matches f st then collect_objects f q c sts acc
      else (let acc' = acc @ [object_view_of st c q]
            in if int (length acc') \<ge> qo_limit q then acc' else collect_objects f q c sts acc'))"

definition collect_partition ::
  "state_filter \<Rightarrow> query_options \<Rightarrow> camera_id set \<Rightarrow> camera_id \<times> camera_partition \<Rightarrow> exposed_view list \<Rightarrow> exposed_view list" where
  "collect_partition f q permitted cp acc =
     (if fst cp \<notin> permitted then acc else collect_objects f q (fst cp) (map snd (cp_objects (snd cp))) acc)"

record state_result =
  sr_objects :: "exposed_view list"
  sr_partitions :: "camera_id list"
  sr_consistency :: consistency_level
  sr_incomplete :: "(camera_id \<times> string) list"
  sr_coverage :: coverage_summary

definition api_coverage_summary :: "camera_id list \<Rightarrow> snapshot \<Rightarrow> 'l manager \<Rightarrow> coverage_summary" where
  "api_coverage_summary cameras sn m =
     (let states = map (oy_status \<circ> snd) (manager_coverage (if cameras = [] then None else Some cameras) m);
          observing = int (length (filter (\<lambda>s. s = OBSERVING) states));
          blind = int (length (filter (\<lambda>s. s \<in> {BLIND, DISCONNECTED}) states));
          degraded = int (length (filter (\<lambda>s. s \<notin> {OBSERVING, BLIND, DISCONNECTED}) states));
          total = observing + blind + degraded
      in \<lparr>cv_observable_fraction = (if total \<noteq> 0 then of_int observing / of_int total else 0),
          cv_observing = observing, cv_blind = blind, cv_degraded = degraded, cv_unavailable = sn_incomplete sn\<rparr>)"

definition query_state ::
  "'l api_env \<Rightarrow> instant \<Rightarrow> principal \<Rightarrow> scope \<Rightarrow> state_filter \<Rightarrow> query_options \<Rightarrow> int \<Rightarrow> 'l manager \<Rightarrow> observation_api
   \<Rightarrow> state_result result \<times> observation_api" where
  "query_state e now p s f q major m api =
     (case check_version major of
        Inl err \<Rightarrow> (Inl err, api)
      | Inr _ \<Rightarrow>
          (case api_authorize e now p READ_STATE s api of
             (Inl err, api1) \<Rightarrow> (Inl err, api1)
           | (Inr narrowed, api1) \<Rightarrow>
               (case charge (al_query (ae_limits e)) now p ''query'' api1 of
                  (Inl err, api2) \<Rightarrow> (Inl err, api2)
                | (Inr _, api2) \<Rightarrow>
                    (let cameras = cameras_in e m narrowed
                     in case take_snapshot now (if cameras = [] then None else Some cameras) m of
                          Inl err \<Rightarrow> (Inl err, api2)
                        | Inr sn \<Rightarrow>
                            (let objects = fold (collect_partition f q (set cameras)) (sn_partitions sn) []
                             in (Inr \<lparr>sr_objects = objects, sr_partitions = dict_keys (sn_partitions sn),
                                      sr_consistency = sn_consistency sn, sr_incomplete = sn_incomplete sn,
                                      sr_coverage = api_coverage_summary cameras sn m\<rparr>,
                                 audit_write now p READ_STATE True (decimal (length objects) @ '' objects'') [] api2))))))"

section \<open>Paged observation queries\<close>

fun cursor_position :: "observation list \<Rightarrow> string \<Rightarrow> int \<Rightarrow> int" where
  "cursor_position [] cursor i = 0"
| "cursor_position (ob # obs) cursor i = (if ob_id ob = cursor then i + 1 else cursor_position obs cursor (i + 1))"

definition cursor_index :: "observation list \<Rightarrow> string option \<Rightarrow> int" where
  "cursor_index obs cursor = (case cursor of None \<Rightarrow> 0 | Some k \<Rightarrow> cursor_position obs k 0)"

record page =
  pg_observations :: "observation list"
  pg_cursor :: "string option"
  pg_fully_observable :: bool
  pg_coverage :: coverage_summary

text \<open>\<^verbatim>\<open>page[-1]\<close> of an empty page raises.\<close>

definition page_of :: "observation list \<Rightarrow> string option \<Rightarrow> int \<Rightarrow> (observation list \<times> string option) result" where
  "page_of matched cursor bounded =
     (let start = cursor_index matched cursor;
          slice = py_slice matched start (start + bounded)
      in if int (length matched) > start + bounded
         then (if slice = [] then Inl IndexError else Inr (slice, Some (ob_id (last slice))))
         else Inr (slice, None))"

definition wanted_observation :: "principal \<Rightarrow> observation_filter \<Rightarrow> observation \<Rightarrow> bool" where
  "wanted_observation p f ob =
     (if ob_tenant ob \<noteq> pr_tenant p then False
      else if \<not> of_include_superseded f \<and> ob_supersedes ob \<noteq> None then False
      else observation_filter_matches f ob)"

definition matched_observations ::
  "'l api_env \<Rightarrow> principal \<Rightarrow> time_window \<Rightarrow> observation_filter \<Rightarrow> camera_id list \<Rightarrow> 'l manager \<Rightarrow> observation list" where
  "matched_observations e p w f cameras m =
     sort_key capture_key
       (concat (map (\<lambda>c. if ae_read_error e c \<noteq> None then []
            else filter (wanted_observation p f) (observations_in (ae_state e) c (tw_start w) (tw_end w) 10000 m)) cameras))"

definition unavailable_cameras :: "'l api_env \<Rightarrow> camera_id list \<Rightarrow> (camera_id \<times> string) list" where
  "unavailable_cameras e cameras =
     concat (map (\<lambda>c. case ae_read_error e c of None \<Rightarrow> [] | Some name \<Rightarrow> [(c, name)]) cameras)"

definition query_observations ::
  "'l api_env \<Rightarrow> instant \<Rightarrow> principal \<Rightarrow> scope \<Rightarrow> time_window \<Rightarrow> observation_filter \<Rightarrow> string option \<Rightarrow> int \<Rightarrow> int
   \<Rightarrow> 'l manager \<Rightarrow> observation_api \<Rightarrow> page result \<times> observation_api" where
  "query_observations e now p s w f cursor limit major m api =
     (case bind_result (check_version major) (\<lambda>_. check_window (ae_limits e) w) of
        Inl err \<Rightarrow> (Inl err, api)
      | Inr _ \<Rightarrow>
          (case api_authorize e now p READ_OBSERVATIONS s api of
             (Inl err, api1) \<Rightarrow> (Inl err, api1)
           | (Inr narrowed, api1) \<Rightarrow>
               (case charge (al_query (ae_limits e)) now p ''query'' api1 of
                  (Inl err, api2) \<Rightarrow> (Inl err, api2)
                | (Inr _, api2) \<Rightarrow>
                    (let cameras = cameras_in e m narrowed;
                         unavailable = unavailable_cameras e cameras
                     in case page_of (matched_observations e p w f cameras m) cursor
                               (min limit (al_max_page_size (ae_limits e))) of
                          Inl err \<Rightarrow> (Inl err, api2)
                        | Inr (obs, next) \<Rightarrow>
                            (Inr \<lparr>pg_observations = obs, pg_cursor = next, pg_fully_observable = (unavailable = []),
                                  pg_coverage = \<lparr>cv_observable_fraction = (if unavailable = [] then 1 else 0), cv_observing = 0,
                                    cv_blind = 0, cv_degraded = 0, cv_unavailable = unavailable\<rparr>\<rparr>,
                             audit_write now p READ_OBSERVATIONS True (decimal (length obs) @ '' observations'') [] api2)))))"

section \<open>One object, coverage, subscriptions\<close>

fun camera_holding :: "instant \<Rightarrow> object_id \<Rightarrow> 'l manager \<Rightarrow> camera_id list \<Rightarrow> camera_id option result" where
  "camera_holding now x m [] = Inr None"
| "camera_holding now x m (c # cs) =
     bind_result (take_snapshot now (Some [c]) m) (\<lambda>sn.
       case dict_get (sn_partitions sn) c of
         Some p \<Rightarrow> if x \<in> set (dict_keys (cp_objects p)) then Inr (Some c) else camera_holding now x m cs
       | None \<Rightarrow> camera_holding now x m cs)"

definition camera_of_object :: "instant \<Rightarrow> object_id \<Rightarrow> 'l manager \<Rightarrow> camera_id option result" where
  "camera_of_object now x m = camera_holding now x m (partition_ids m)"

definition get_object ::
  "'l api_env \<Rightarrow> instant \<Rightarrow> principal \<Rightarrow> object_id \<Rightarrow> scope option \<Rightarrow> query_options \<Rightarrow> int \<Rightarrow> 'l manager \<Rightarrow> observation_api
   \<Rightarrow> exposed_view result \<times> observation_api" where
  "get_object e now p x s q major m api =
     (case check_version major of
        Inl err \<Rightarrow> (Inl err, api)
      | Inr _ \<Rightarrow>
          (case api_authorize e now p READ_STATE (case s of Some s \<Rightarrow> s | None \<Rightarrow> tenant_scope (pr_tenant p)) api of
             (Inl err, api1) \<Rightarrow> (Inl err, api1)
           | (Inr narrowed, api1) \<Rightarrow>
               (case manager_object_state x m of
                  Inl err \<Rightarrow> (Inl err, api1)
                | Inr st \<Rightarrow>
                    (case camera_of_object now x m of
                       Inl err \<Rightarrow> (Inl err, api1)
                     | Inr None \<Rightarrow> (Inl (StateNotFoundError x), api1)
                     | Inr (Some c) \<Rightarrow>
                         if \<not> scope_covers_camera narrowed c then (Inl (StateNotFoundError x), api1)
                         else (Inr (object_view_of st c q), audit_write now p READ_STATE True x [] api1)))))"

definition api_coverage ::
  "'l api_env \<Rightarrow> instant \<Rightarrow> principal \<Rightarrow> scope \<Rightarrow> time_window option \<Rightarrow> 'l manager \<Rightarrow> observation_api
   \<Rightarrow> (rat \<times> (instant \<times> instant) list) result \<times> observation_api" where
  "api_coverage e now p s w m api =
     (case api_authorize e now p READ_COVERAGE s api of
        (Inl err, api1) \<Rightarrow> (Inl err, api1)
      | (Inr narrowed, api1) \<Rightarrow>
          (let cameras = cameras_in e m narrowed
           in if cameras = [] then (Inr (0, []), api1)
              else case w of
                     None \<Rightarrow>
                       (let observing = length (filter (\<lambda>(c, o1). oy_status o1 = OBSERVING) (manager_coverage (Some cameras) m))
                        in (Inr (of_int (int observing) / of_int (int (length cameras)), []), api1))
                   | Some w \<Rightarrow>
                       (let reports = map (\<lambda>c. manager_coverage_report (ae_state e) c (tw_start w) (tw_end w) m) cameras
                        in (Inr (sum_list (map fst reports) / of_int (int (length reports)), concat (map snd reports)),
                            audit_write now p READ_COVERAGE True [] [] api1))))"

text \<open>\<^verbatim>\<open>f"sub-{n:06d}"\<close>.\<close>

definition subscription_name :: "int \<Rightarrow> string" where
  "subscription_name n = (let d = decimal (nat n) in ''sub-'' @ replicate (6 - length d) (CHR ''0'') @ d)"

definition subscribe ::
  "'l api_env \<Rightarrow> instant \<Rightarrow> principal \<Rightarrow> scope \<Rightarrow> subscription_filter \<Rightarrow> delivery_policy \<Rightarrow> int \<Rightarrow> observation_api
   \<Rightarrow> subscription result \<times> observation_api" where
  "subscribe e now p s f pol major api =
     (case check_version major of
        Inl err \<Rightarrow> (Inl err, api)
      | Inr _ \<Rightarrow>
          (case api_authorize e now p SUBSCRIBE s api of
             (Inl err, api1) \<Rightarrow> (Inl err, api1)
           | (Inr narrowed, api1) \<Rightarrow>
               if int (length (hub_for_principal (pr_subject p) (oa_hub api1))) \<ge> al_max_subscriptions (ae_limits e)
               then (Inl OverloadedError, api1)
               else
                 (let n = oa_next_subscription api1 + 1;
                      i = subscription_name n;
                      sub = subscription_init i p narrowed f pol now
                  in (Inr sub, audit_write now p SUBSCRIBE True i []
                        (api1\<lparr>oa_next_subscription := n, oa_hub := hub_add sub (oa_hub api1)\<rparr>)))))"

text \<open>Imagery: the access is audited as granted before the outcome of the fetch is looked at.\<close>

definition get_evidence ::
  "'l api_env \<Rightarrow> instant \<Rightarrow> principal \<Rightarrow> string \<Rightarrow> string \<Rightarrow> observation_api
   \<Rightarrow> (string option \<times> int list option) result \<times> observation_api" where
  "get_evidence e now p blob purpose api =
     (if purpose = [] then (Inl (ForbiddenError (pr_subject p)), api)
      else
        (case api_authorize e now p READ_EVIDENCE (tenant_scope (pr_tenant p)) api of
           (Inl err, api1) \<Rightarrow> (Inl err, api1)
         | (Inr narrowed, api1) \<Rightarrow>
             (case charge (al_evidence (ae_limits e)) now p ''evidence'' api1 of
                (Inl err, api2) \<Rightarrow> (Inl err, api2)
              | (Inr _, api2) \<Rightarrow>
                  (case ae_evidence e of
                     None \<Rightarrow> (Inl NotFoundError, api2)
                   | Some get \<Rightarrow>
                       (let f = get blob (pr_tenant p);
                            api3 = audit_write now p READ_EVIDENCE True blob purpose api2
                        in if ef_status f = EXPIRED_EVIDENCE then (Inl EvidenceExpiredError, api3)
                           else if ef_status f = ERASED_EVIDENCE then (Inl EvidenceExpiredError, api3)
                           else if \<not> evidence_available f then (Inl NotFoundError, api3)
                           else (Inr (ef_observation f, ef_payload f), api3))))))"

definition unsubscribe :: "principal \<Rightarrow> string \<Rightarrow> observation_api \<Rightarrow> unit result \<times> observation_api" where
  "unsubscribe p i api =
     (if \<not> list_ex (\<lambda>s. sb_id s = i) (hub_for_principal (pr_subject p) (oa_hub api))
      then (Inl (ForbiddenError i), api)
      else (Inr (), api\<lparr>oa_hub := snd (hub_remove i (oa_hub api))\<rparr>))"


section \<open>Rate limiting is a sliding window\<close>

text \<open>
  A run of charges: requests of any principals and buckets in the order they arrive, with the
  outcome of each. The bucket list is trimmed on every charge; the reference below looks at the
  whole history instead.
\<close>

type_synonym request = "instant \<times> principal \<times> string"

definition seconds :: "instant \<Rightarrow> rat" where
  "seconds t = of_int (instant_ns t) / 1000000000"

definition charge_step ::
  "(string \<Rightarrow> rate_limit) \<Rightarrow> request \<Rightarrow> unit result list \<times> observation_api \<Rightarrow> unit result list \<times> observation_api" where
  "charge_step limits r oa =
     (case r of (now, p, b) \<Rightarrow>
        (case charge (limits b) now p b (snd oa) of (o1, api) \<Rightarrow> (fst oa @ [o1], api)))"

definition run_charges ::
  "(string \<Rightarrow> rate_limit) \<Rightarrow> request list \<Rightarrow> observation_api \<Rightarrow> unit result list \<times> observation_api" where
  "run_charges limits rs api = fold (charge_step limits) rs ([], api)"

definition request_key :: "request \<Rightarrow> string \<times> string" where
  "request_key r = (pr_subject (fst (snd r)), snd (snd r))"

definition accepted_times :: "string \<times> string \<Rightarrow> request list \<Rightarrow> unit result list \<Rightarrow> rat list" where
  "accepted_times k rs os = map (seconds \<circ> fst \<circ> fst) (filter (\<lambda>(r, o1). request_key r = k \<and> o1 = Inr ()) (zip rs os))"

definition bucket_of :: "string \<times> string \<Rightarrow> observation_api \<Rightarrow> rat list" where
  "bucket_of k api = (case dict_get (oa_buckets api) k of None \<Rightarrow> [] | Some w \<Rightarrow> w)"

definition in_order :: "request list \<Rightarrow> bool" where
  "in_order rs \<longleftrightarrow> sorted (map (instant_ns \<circ> fst) rs)"

lemma run_charges_snoc:
  "run_charges limits (rs @ [r]) api = charge_step limits r (run_charges limits rs api)"
  by (simp add: run_charges_def)

lemma run_charges_length [simp]: "length (fst (run_charges limits rs api)) = length rs"
  by (induction rs rule: rev_induct)
    (auto simp: run_charges_def charge_step_def split: prod.splits)

lemma run_charges_Nil [simp]: "run_charges limits [] api = ([], api)"
  by (simp add: run_charges_def)

lemma accepted_times_snoc:
  "length os = length rs \<Longrightarrow>
   accepted_times k (rs @ [r]) (os @ [o1]) =
     accepted_times k rs os @ (if request_key r = k \<and> o1 = Inr () then [seconds (fst r)] else [])"
  by (simp add: accepted_times_def)

lemma charge_eq:
  "charge l now p b api =
     (let live = filter (\<lambda>t. t > seconds now - 60) (bucket_of (pr_subject p, b) api);
          ok = int (length live) < rl_requests_per_minute l
      in (if ok then Inr () else Inl OverloadedError,
          api\<lparr>oa_buckets := dict_set (pr_subject p, b) (if ok then live @ [seconds now] else live) (oa_buckets api)\<rparr>))"
  by (simp add: charge_def charge_window_def seconds_def bucket_of_def Let_def)

lemma bucket_of_set [simp]:
  "bucket_of k (api\<lparr>oa_buckets := dict_set k' w (oa_buckets api)\<rparr>) = (if k = k' then w else bucket_of k api)"
  by (simp add: bucket_of_def dict_simps)

text \<open>A trimmed bucket and the whole history agree on every window that ends now or later.\<close>

lemma seconds_mono: "instant_ns a \<le> instant_ns b \<Longrightarrow> seconds a \<le> seconds b"
  by (simp add: seconds_def divide_right_mono)

lemma filter_later [simp]: "a \<le> b \<Longrightarrow> filter (\<lambda>t. a < t \<and> b < t) xs = filter ((<) (b::rat)) xs"
  by (induction xs) auto

lemma bucket_is_recent_history:
  assumes "in_order rs" and "oa_buckets api = []"
    and "\<forall>r\<in>set rs. instant_ns (fst r) \<le> instant_ns now"
  shows "filter (\<lambda>t. t > seconds now - 60) (bucket_of k (snd (run_charges limits rs api)))
       = filter (\<lambda>t. t > seconds now - 60) (accepted_times k rs (fst (run_charges limits rs api)))"
  using assms(1,3)
proof (induction rs arbitrary: now rule: rev_induct)
  case Nil
  then show ?case using assms(2) by (simp add: bucket_of_def accepted_times_def)
next
  case (snoc r rs)
  obtain t p b where r: "r = (t, p, b)" by (cases r)
  let ?run = "run_charges limits rs api"
  have "in_order rs" "\<forall>q\<in>set rs. instant_ns (fst q) \<le> instant_ns now"
    using snoc.prems by (auto simp: in_order_def sorted_append)
  note IH = snoc.IH [OF this]
  have "seconds t - 60 \<le> seconds now - 60"
    using snoc.prems(2) by (simp add: r seconds_mono)
  with IH show ?case
    by (cases "k = (pr_subject p, b)")
      (auto simp: run_charges_snoc charge_step_def r charge_eq Let_def accepted_times_snoc request_key_def)
qed

lemma length_filter_mono:
  "(\<And>x. P x \<Longrightarrow> Q x) \<Longrightarrow> length (filter P xs) \<le> length (filter Q xs)"
  by (induction xs) (auto intro: le_SucI)

lemma charge_admits_iff:
  assumes "in_order (rs @ [(now, p, b)])" and "oa_buckets api = []"
  shows "fst (run_charges limits (rs @ [(now, p, b)]) api) = fst (run_charges limits rs api) @
    [if int (length (filter (\<lambda>t. t > seconds now - 60)
           (accepted_times (pr_subject p, b) rs (fst (run_charges limits rs api)))))
        < rl_requests_per_minute (limits b)
     then Inr () else Inl OverloadedError]"
proof -
  have "in_order rs" "\<forall>r\<in>set rs. instant_ns (fst r) \<le> instant_ns now"
    using assms(1) by (auto simp: in_order_def sorted_append)
  then show ?thesis
    using bucket_is_recent_history [OF _ assms(2)] by (simp add: run_charges_snoc charge_step_def charge_eq Let_def)
qed

lemma accepted_times_bounded:
  assumes "\<forall>r\<in>set rs. instant_ns (fst r) \<le> instant_ns now"
  shows "\<forall>t\<in>set (accepted_times k rs os). t \<le> seconds now"
  using assms by (fastforce simp: accepted_times_def dest: set_zip_leftD intro: seconds_mono)

lemma window_never_overfull:
  assumes "in_order rs" and "oa_buckets api = []" and "\<forall>b. 1 \<le> rl_requests_per_minute (limits b)"
  shows "int (length (filter (\<lambda>t. x - 60 < t \<and> t \<le> x) (accepted_times (u, b) rs (fst (run_charges limits rs api)))))
         \<le> rl_requests_per_minute (limits b)"
  using assms(1)
proof (induction rs rule: rev_induct)
  case Nil
  then show ?case using assms(3) [rule_format, of b] by (simp add: accepted_times_def)
next
  case (snoc r rs)
  obtain now p b' where r: "r = (now, p, b')" by (cases r)
  let ?A = "accepted_times (u, b) rs (fst (run_charges limits rs api))"
  have order: "in_order rs" "\<forall>q\<in>set rs. instant_ns (fst q) \<le> instant_ns now"
    using snoc.prems by (auto simp: in_order_def sorted_append r)
  note IH = snoc.IH [OF order(1)]
  show ?case
  proof (cases "seconds now \<le> x")
    case False
    with IH show ?thesis
      by (auto simp: r charge_admits_iff [OF snoc.prems [unfolded r] assms(2)] accepted_times_snoc)
  next
    case True
    then have "\<And>t. x - 60 < t \<and> t \<le> x \<Longrightarrow> t > seconds now - 60" by simp
    then have "length (filter (\<lambda>t. x - 60 < t \<and> t \<le> x) ?A) \<le> length (filter (\<lambda>t. t > seconds now - 60) ?A)"
      by (rule length_filter_mono)
    with IH show ?thesis
      by (auto simp: r charge_admits_iff [OF snoc.prems [unfolded r] assms(2)] accepted_times_snoc request_key_def)
  qed
qed


text \<open>
  C18: Rate limiting is a sliding window over the whole history. For requests of any principals and
  buckets arriving in time order, a request is refused exactly if as many requests of the same
  subject and bucket as the limit allows were accepted in the preceding 60 seconds, although the
  bucket only keeps what the last charge left in it; and in no span of 60 seconds, wherever it
  starts, is more accepted than the limit.
\<close>

theorem rate_limit_is_sliding_window:
  assumes "in_order (rs @ [(now, p, b)])" and "oa_buckets api = []"
    and "\<forall>b. 1 \<le> rl_requests_per_minute (limits b)"
  shows "fst (run_charges limits (rs @ [(now, p, b)]) api) = fst (run_charges limits rs api) @
      [if int (length (filter (\<lambda>t. t > seconds now - 60)
             (accepted_times (pr_subject p, b) rs (fst (run_charges limits rs api)))))
          < rl_requests_per_minute (limits b)
       then Inr () else Inl OverloadedError]
    \<and> int (length (filter (\<lambda>t. x - 60 < t \<and> t \<le> x)
           (accepted_times (u, c) (rs @ [(now, p, b)]) (fst (run_charges limits (rs @ [(now, p, b)]) api)))))
         \<le> rl_requests_per_minute (limits c)"
  using charge_admits_iff [OF assms(1,2)] window_never_overfull [OF assms] by auto

definition sample_principal :: "string \<Rightarrow> tenant_id \<Rightarrow> principal" where
  "sample_principal u t = \<lparr>pr_subject = u, pr_tenant = t, pr_scopes = [], pr_display_name = u\<rparr>"

definition sample_sink :: audit_sink where
  "sample_sink = \<lparr>ak_capacity = 1000, ak_records = [], ak_total = 0\<rparr>"

lemma rate_limit_is_sliding_window_witness:
  "let ann = sample_principal ''ann'' ''acme''; bob = sample_principal ''bob'' ''acme'';
       limits = (\<lambda>b. \<lparr>rl_requests_per_minute = 2, rl_burst = 1\<rparr>);
       rs = [(Instant 0, ann, ''query''), (Instant 10000000000, ann, ''query''),
             (Instant 20000000000, ann, ''query''), (Instant 20000000000, bob, ''query'')]
   in fst (run_charges limits (rs @ [(Instant 60000000000, ann, ''query'')]) (api_init sample_sink))
      = [Inr (), Inr (), Inl OverloadedError, Inr (), Inr ()]"
proof -
  define limits :: "string \<Rightarrow> rate_limit" where "limits = (\<lambda>b. \<lparr>rl_requests_per_minute = 2, rl_burst = 1\<rparr>)"
  define ann where "ann = sample_principal ''ann'' ''acme''"
  define rs where "rs = [(Instant 0, ann, ''query''), (Instant 10000000000, ann, ''query''),
             (Instant 20000000000, ann, ''query''), (Instant 20000000000, sample_principal ''bob'' ''acme'', ''query'')]"
  have prefix: "fst (run_charges limits rs (api_init sample_sink)) = [Inr (), Inr (), Inl OverloadedError, Inr ()]"
    unfolding rs_def limits_def ann_def sample_principal_def by code_simp
  have "in_order (rs @ [(Instant 60000000000, ann, ''query'')])" "oa_buckets (api_init sample_sink) = []"
    "\<forall>b. 1 \<le> rl_requests_per_minute (limits b)"
    by (simp_all add: in_order_def rs_def api_init_def limits_def)
  from rate_limit_is_sliding_window [OF this, of 0 "[]" "[]"] show ?thesis
    unfolding prefix by (simp add: accepted_times_def rs_def ann_def limits_def request_key_def sample_principal_def seconds_def prefix [unfolded rs_def limits_def ann_def sample_principal_def, simplified])
qed


section \<open>Walking the pages\<close>

text \<open>A consumer that asks again with the cursor it was given, until it is given none.\<close>

fun walk_pages :: "nat \<Rightarrow> observation list \<Rightarrow> string option \<Rightarrow> int \<Rightarrow> observation list list option" where
  "walk_pages 0 matched cursor n = None"
| "walk_pages (Suc fuel) matched cursor n =
     (case page_of matched cursor n of
        Inl e \<Rightarrow> None
      | Inr (pg, None) \<Rightarrow> Some [pg]
      | Inr (pg, Some next) \<Rightarrow> map_option ((#) pg) (walk_pages fuel matched (Some next) n))"

lemma cursor_position_nth:
  "distinct (map ob_id obs) \<Longrightarrow> k < length obs \<Longrightarrow> cursor_position obs (ob_id (obs ! k)) i = i + int k + 1"
proof (induction obs arbitrary: i k)
  case (Cons ob obs)
  then show ?case by (cases k) (auto simp: image_iff)
qed simp

lemma page_of_at:
  assumes "cursor_index obs cursor = int s" and "1 \<le> n"
  shows "page_of obs cursor n =
    Inr (take (nat n) (drop s obs),
         if s + nat n < length obs then Some (ob_id (obs ! (s + nat n - 1))) else None)"
proof -
  have slice: "py_slice obs (int s) (int s + n) = take (nat n) (drop s obs)"
    using assms(2) by (simp add: py_slice_nat)
  have "last (take (nat n) (drop s obs)) = obs ! (s + nat n - 1)" if "s + nat n < length obs"
    using that assms(2) by (simp add: last_conv_nth)
  then show ?thesis
    using assms by (auto simp: page_of_def slice Let_def)
qed

lemma walk_pages_from:
  assumes "distinct (map ob_id obs)" and "1 \<le> n" and "s \<le> length obs"
    and "cursor_index obs cursor = int s" and "length obs - s < fuel"
  shows "\<exists>ps. walk_pages fuel obs cursor n = Some ps \<and> concat ps = drop s obs
    \<and> (\<forall>pg\<in>set (butlast ps). int (length pg) = n) \<and> int (length (last ps)) \<le> n
    \<and> length ps \<le> (length obs - s) div nat n + 1"
  using assms(3-)
proof (induction fuel arbitrary: s cursor)
  case (Suc fuel)
  note page = page_of_at [OF Suc.prems(2) assms(2)]
  show ?case
  proof (cases "s + nat n < length obs")
    case False
    then show ?thesis
      using assms(2) by (simp add: page)
  next
    case True
    let ?s = "s + nat n"
    have index: "cursor_index obs (Some (ob_id (obs ! (?s - 1)))) = int ?s"
      using assms(1,2) True by (simp add: cursor_index_def cursor_position_nth)
    from Suc.IH [OF _ index] obtain ps where
      ps: "walk_pages fuel obs (Some (ob_id (obs ! (?s - 1)))) n = Some ps" "concat ps = drop ?s obs"
        "\<forall>pg\<in>set (butlast ps). int (length pg) = n" "int (length (last ps)) \<le> n"
        "length ps \<le> (length obs - ?s) div nat n + 1"
      using True assms(2) Suc.prems(3) by fastforce
    have "(length obs - s) div nat n = Suc ((length obs - ?s) div nat n)"
      using True assms(2) by (subst le_div_geq) (auto simp: diff_diff_left)
    moreover have "take (nat n) (drop s obs) @ drop ?s obs = drop s obs"
      by (metis append_take_drop_id drop_drop add.commute)
    moreover have "ps \<noteq> []"
      using ps(2) True by auto
    moreover have "int (length (take (nat n) (drop s obs))) = n"
      using True assms(2) by simp
    ultimately show ?thesis
      using ps True assms(2) by (simp add: page)
  qed
qed simp

end
