(* ===== verification/Api_Reads.thy ===== *)
theory Api_Reads
  imports Observation_Api State_Refinement "HOL-Library.Multiset"
begin

text \<open>
  What the read operations of the observation API return: which objects a state query finds and how
  many, which observations a page holds, and that reading one object does not look at whose camera
  it is on.
\<close>

section \<open>Snapshots\<close>

lemma snapshot_fold_get:
  "dict_get (fst (fold (snapshot_camera m) cs acc)) c =
     (case dict_get (sm_partitions m) c of
        Some p \<Rightarrow> if c \<in> set cs \<and> \<not> is_degraded p then Some p else dict_get (fst acc) c
      | None \<Rightarrow> dict_get (fst acc) c)"
proof (induction cs arbitrary: acc)
  case (Cons d cs)
  then show ?case
    by (cases acc) (auto simp: snapshot_camera_def dict_simps split: option.splits)
qed (auto split: option.splits)

lemma snapshot_fold_distinct:
  "distinct (dict_keys (fst acc)) \<Longrightarrow> distinct (dict_keys (fst (fold (snapshot_camera m) cs acc)))"
proof (induction cs arbitrary: acc)
  case (Cons d cs)
  have "distinct (dict_keys (fst (snapshot_camera m d acc)))"
    using Cons.prems by (cases acc) (auto simp: snapshot_camera_def dict_simps split: option.splits)
  then show ?case using Cons.IH by simp
qed simp

lemma take_snapshot_total:
  "\<exists>sn. take_snapshot now cs m = Inr sn
     \<and> sn_partitions sn = fst (fold (snapshot_camera m) (case cs of Some cs \<Rightarrow> cs | None \<Rightarrow> dict_keys (sm_partitions m)) ([], []))"
  by (auto simp: take_snapshot_def mk_snapshot_def Let_def split: prod.splits)

lemma take_snapshot_entries:
  assumes "take_snapshot now cs m = Inr sn"
  shows "(c, p) \<in> set (sn_partitions sn) \<longleftrightarrow>
     dict_get (sm_partitions m) c = Some p \<and> \<not> is_degraded p \<and> (case cs of Some cs \<Rightarrow> c \<in> set cs | None \<Rightarrow> True)"
proof -
  let ?cs = "case cs of Some cs \<Rightarrow> cs | None \<Rightarrow> dict_keys (sm_partitions m)"
  have sn: "sn_partitions sn = fst (fold (snapshot_camera m) ?cs ([], []))"
    using take_snapshot_total [of now cs m] assms by auto
  have "distinct (dict_keys (sn_partitions sn))"
    unfolding sn by (rule snapshot_fold_distinct) simp
  then have "(c, p) \<in> set (sn_partitions sn) \<longleftrightarrow> dict_get (sn_partitions sn) c = Some p"
    by (simp add: in_dict_iff wf_dict_def)
  also have "\<dots> \<longleftrightarrow> dict_get (sm_partitions m) c = Some p \<and> \<not> is_degraded p \<and> c \<in> set ?cs"
    unfolding sn snapshot_fold_get by (auto split: option.splits)
  finally show ?thesis
    by (auto split: option.splits dest: dict_get_Some_in intro: rev_image_eqI)
qed

section \<open>State queries\<close>

lemma collect_objects_eq:
  assumes "1 \<le> qo_limit q"
  shows "collect_objects f q c sts acc =
     acc @ take (nat (max 1 (qo_limit q - int (length acc))))
       (map (\<lambda>st. object_view_of st c q) (filter (state_matches f) sts))"
proof (induction sts arbitrary: acc)
  case (Cons st sts)
  have "nat (max 1 (qo_limit q - int (length acc))) = Suc (nat (qo_limit q - int (length acc) - 1))" by simp
  moreover have "nat (max 1 (qo_limit q - (int (length acc) + 1))) = nat (qo_limit q - int (length acc) - 1)"
    if "int (length acc) + 1 < qo_limit q" using that by simp
  ultimately show ?case
    using Cons.IH by (auto simp: Let_def algebra_simps)
qed simp

definition matching_views :: "state_filter \<Rightarrow> query_options \<Rightarrow> camera_id set \<Rightarrow> camera_id \<times> camera_partition \<Rightarrow> exposed_view list" where
  "matching_views f q permitted cp =
     (if fst cp \<in> permitted
      then map (\<lambda>st. object_view_of st (fst cp) q) (filter (state_matches f) (map snd (cp_objects (snd cp)))) else [])"

lemma collect_partition_eq:
  "1 \<le> qo_limit q \<Longrightarrow>
   collect_partition f q permitted cp acc =
     acc @ take (nat (max 1 (qo_limit q - int (length acc)))) (matching_views f q permitted cp)"
  by (simp add: collect_partition_def matching_views_def collect_objects_eq)

lemma collect_fold_subset:
  "1 \<le> qo_limit q \<Longrightarrow>
   set (fold (collect_partition f q permitted) cps acc) \<subseteq> set acc \<union> (\<Union>cp\<in>set cps. set (matching_views f q permitted cp))"
proof (induction cps arbitrary: acc)
  case (Cons cp cps)
  show ?case
    using Cons.IH [OF Cons.prems, of "collect_partition f q permitted cp acc"]
      set_take_subset [of _ "matching_views f q permitted cp"]
    by (fastforce simp: collect_partition_eq [OF Cons.prems])
qed simp

lemma collect_fold_length:
  "1 \<le> qo_limit q \<Longrightarrow> int (length acc) \<le> b \<Longrightarrow> qo_limit q - 1 \<le> b \<Longrightarrow>
   int (length (fold (collect_partition f q permitted) cps acc)) \<le> b + int (length cps)"
proof (induction cps arbitrary: acc b)
  case (Cons cp cps)
  have "int (length (collect_partition f q permitted cp acc)) \<le> b + 1"
    using Cons.prems(2,3) by (simp add: collect_partition_eq [OF Cons.prems(1)])
  from Cons.IH [OF Cons.prems(1) this] Cons.prems(3) show ?case by simp
qed simp

lemma collect_fold_grows:
  "1 \<le> qo_limit q \<Longrightarrow> length acc \<le> length (fold (collect_partition f q permitted) cps acc)"
proof (induction cps arbitrary: acc)
  case (Cons cp cps)
  show ?case
    using Cons.IH [OF Cons.prems, of "collect_partition f q permitted cp acc"]
    by (simp add: collect_partition_eq [OF Cons.prems])
qed simp

lemma collect_fold_complete:
  assumes "1 \<le> qo_limit q" and "int (length (fold (collect_partition f q permitted) cps acc)) < qo_limit q"
  shows "fold (collect_partition f q permitted) cps acc = acc @ concat (map (matching_views f q permitted) cps)"
  using assms(2)
proof (induction cps arbitrary: acc)
  case (Cons cp cps)
  let ?acc = "collect_partition f q permitted cp acc"
  have "int (length ?acc) < qo_limit q"
    using collect_fold_grows [OF assms(1), of ?acc f permitted cps] Cons.prems by simp
  then have "?acc = acc @ matching_views f q permitted cp"
    by (auto simp: collect_partition_eq [OF assms(1)] min_def split: if_splits)
  with Cons.IH [of ?acc] Cons.prems show ?case by simp
qed simp


lemma query_state_Inr:
  assumes "query_state e now p s f q major m api = (Inr r, api')"
  obtains narrowed api1 api2 sn where
    "major = 1" "api_authorize e now p READ_STATE s api = (Inr narrowed, api1)"
    "charge (al_query (ae_limits e)) now p ''query'' api1 = (Inr (), api2)"
    "take_snapshot now (if cameras_in e m narrowed = [] then None else Some (cameras_in e m narrowed)) m = Inr sn"
    "sr_objects r = fold (collect_partition f q (set (cameras_in e m narrowed))) (sn_partitions sn) []"
    "sr_partitions r = dict_keys (sn_partitions sn)"
    "api' = audit_write now p READ_STATE True (decimal (length (sr_objects r)) @ '' objects'') [] api2"
proof -
  have major: "major = 1"
    using assms by (cases "major = 1") (simp_all add: query_state_def check_version_def)
  obtain out1 api1 where a1: "api_authorize e now p READ_STATE s api = (out1, api1)" by (cases "api_authorize e now p READ_STATE s api")
  with assms major obtain narrowed where out1: "out1 = Inr narrowed"
    by (cases out1) (simp_all add: query_state_def check_version_def)
  obtain out2 api2 where a2: "charge (al_query (ae_limits e)) now p ''query'' api1 = (out2, api2)"
    by (cases "charge (al_query (ae_limits e)) now p ''query'' api1")
  with assms major a1 out1 have out2: "out2 = Inr ()"
    by (cases out2) (simp_all add: query_state_def check_version_def)
  obtain sn where sn: "take_snapshot now (if cameras_in e m narrowed = [] then None else Some (cameras_in e m narrowed)) m = Inr sn"
    using take_snapshot_total by blast
  have "Inr r = Inr \<lparr>sr_objects = fold (collect_partition f q (set (cameras_in e m narrowed))) (sn_partitions sn) [],
      sr_partitions = dict_keys (sn_partitions sn), sr_consistency = sn_consistency sn, sr_incomplete = sn_incomplete sn,
      sr_coverage = api_coverage_summary (cameras_in e m narrowed) sn m\<rparr>
    \<and> api' = audit_write now p READ_STATE True (decimal (length (fold (collect_partition f q (set (cameras_in e m narrowed)))
        (sn_partitions sn) [])) @ '' objects'') [] api2"
    using assms unfolding query_state_def check_version_def major a1 out1 a2 out2 Let_def prod.case sum.case sn
    by simp
  then show thesis
    by (intro that [OF major a1 [unfolded out1] a2 [unfolded out2] sn]) simp_all
qed

text \<open>
  C12: A state query that succeeds returns only objects that a healthy partition of a camera in the
  granted scope holds and that match the filter, each shown as the options ask. It may return
  more than the limit, one object more for every partition after the first, because reaching
  the limit leaves the loop over one partition only; and if it returns fewer than the limit then
  every matching object of those partitions is there.
\<close>

theorem query_state_scoped_and_bounded:
  assumes "query_state e now p s f q major m api = (Inr r, api')" and "1 \<le> qo_limit q"
  shows "\<exists>narrowed. fst (api_authorize e now p READ_STATE s api) = Inr narrowed
    \<and> (\<forall>v\<in>set (sr_objects r). \<exists>c cp st. c \<in> set (cameras_in e m narrowed)
         \<and> dict_get (sm_partitions m) c = Some cp \<and> \<not> is_degraded cp \<and> st \<in> set (map snd (cp_objects cp))
         \<and> state_matches f st \<and> v = object_view_of st c q)
    \<and> int (length (sr_objects r)) \<le> qo_limit q - 1 + int (length (sr_partitions r))
    \<and> (int (length (sr_objects r)) < qo_limit q \<longrightarrow>
         (\<forall>c\<in>set (cameras_in e m narrowed). \<forall>cp. dict_get (sm_partitions m) c = Some cp \<and> \<not> is_degraded cp \<longrightarrow>
            (\<forall>st\<in>set (map snd (cp_objects cp)). state_matches f st \<longrightarrow> object_view_of st c q \<in> set (sr_objects r))))"
proof -
  from assms(1) obtain narrowed api1 api2 sn where
    auth: "api_authorize e now p READ_STATE s api = (Inr narrowed, api1)"
    and sn: "take_snapshot now (if cameras_in e m narrowed = [] then None else Some (cameras_in e m narrowed)) m = Inr sn"
    and r: "sr_objects r = fold (collect_partition f q (set (cameras_in e m narrowed))) (sn_partitions sn) []"
      "sr_partitions r = dict_keys (sn_partitions sn)"
    using query_state_Inr [OF assms(1)] by metis
  let ?cs = "cameras_in e m narrowed"
  note entries = take_snapshot_entries [OF sn]
  have views: "v \<in> set (matching_views f q (set ?cs) (c, cp)) \<longleftrightarrow>
      c \<in> set ?cs \<and> (\<exists>st\<in>set (map snd (cp_objects cp)). state_matches f st \<and> v = object_view_of st c q)" for v c cp
    by (auto simp: matching_views_def)
  have "\<forall>v\<in>set (sr_objects r). \<exists>c cp st. c \<in> set ?cs
         \<and> dict_get (sm_partitions m) c = Some cp \<and> \<not> is_degraded cp \<and> st \<in> set (map snd (cp_objects cp))
         \<and> state_matches f st \<and> v = object_view_of st c q"
  proof
    fix v
    assume "v \<in> set (sr_objects r)"
    then obtain c cp where "(c, cp) \<in> set (sn_partitions sn)" "v \<in> set (matching_views f q (set ?cs) (c, cp))"
      using collect_fold_subset [OF assms(2), of f "set ?cs" "sn_partitions sn" "[]"] unfolding r by auto
    then show "\<exists>c cp st. c \<in> set ?cs \<and> dict_get (sm_partitions m) c = Some cp \<and> \<not> is_degraded cp
        \<and> st \<in> set (map snd (cp_objects cp)) \<and> state_matches f st \<and> v = object_view_of st c q"
      unfolding views entries by blast
  qed
  moreover have "int (length (sr_objects r)) \<le> qo_limit q - 1 + int (length (sr_partitions r))"
    using collect_fold_length [OF assms(2), of "[]" "qo_limit q - 1"] assms(2) unfolding r by simp
  moreover have "object_view_of st c q \<in> set (sr_objects r)"
    if "int (length (sr_objects r)) < qo_limit q" "c \<in> set ?cs" "dict_get (sm_partitions m) c = Some cp" "\<not> is_degraded cp"
      "st \<in> set (map snd (cp_objects cp))" "state_matches f st" for c cp st
  proof -
    have "(c, cp) \<in> set (sn_partitions sn)" using that entries by (auto split: if_splits)
    moreover have "object_view_of st c q \<in> set (matching_views f q (set ?cs) (c, cp))"
      using that unfolding views by blast
    ultimately have "object_view_of st c q \<in> set (concat (map (matching_views f q (set ?cs)) (sn_partitions sn)))"
      by auto
    then show ?thesis
      using collect_fold_complete [OF assms(2), of f "set ?cs" "sn_partitions sn" "[]"] that(1) unfolding r by simp
  qed
  ultimately show ?thesis using auth by auto
qed


section \<open>Observation queries\<close>

definition served :: "principal \<Rightarrow> time_window \<Rightarrow> observation_filter \<Rightarrow> observation \<Rightarrow> bool" where
  "served p w f ob \<longleftrightarrow> ob_tenant ob = pr_tenant p \<and> (of_include_superseded f \<or> ob_supersedes ob = None)
     \<and> observation_filter_matches f ob
     \<and> instant_ns (tw_start w) \<le> instant_ns (ob_t_capture ob) \<and> instant_ns (ob_t_capture ob) \<le> instant_ns (tw_end w)"

lemma query_observations_Inr:
  assumes "query_observations e now p s w f cursor limit major m api = (Inr pg, api')"
  shows "\<exists>narrowed. fst (api_authorize e now p READ_OBSERVATIONS s api) = Inr narrowed
    \<and> page_of (matched_observations e p w f (cameras_in e m narrowed) m) cursor (min limit (al_max_page_size (ae_limits e)))
        = Inr (pg_observations pg, pg_cursor pg)"
proof -
  have checks: "bind_result (check_version major) (\<lambda>_. check_window (ae_limits e) w) = Inr ()"
    using assms by (cases "bind_result (check_version major) (\<lambda>_. check_window (ae_limits e) w)") (simp_all add: query_observations_def)
  obtain out1 api1 where a1: "api_authorize e now p READ_OBSERVATIONS s api = (out1, api1)"
    by (cases "api_authorize e now p READ_OBSERVATIONS s api")
  with assms checks obtain narrowed where out1: "out1 = Inr narrowed"
    by (cases out1) (simp_all add: query_observations_def)
  obtain out2 api2 where a2: "charge (al_query (ae_limits e)) now p ''query'' api1 = (out2, api2)"
    by (cases "charge (al_query (ae_limits e)) now p ''query'' api1")
  with assms checks a1 out1 have out2: "out2 = Inr ()"
    by (cases out2) (simp_all add: query_observations_def)
  let ?pg = "page_of (matched_observations e p w f (cameras_in e m narrowed) m) cursor (min limit (al_max_page_size (ae_limits e)))"
  show ?thesis
    using assms by (cases ?pg) (auto simp: query_observations_def checks a1 out1 a2 out2 Let_def)
qed

lemma mset_concat_mono:
  "(\<And>c. mset (f c) \<subseteq># mset (g c)) \<Longrightarrow> mset (concat (map f cs)) \<subseteq># mset (concat (map g cs))"
  by (induction cs) (simp_all add: subset_mset.add_mono)

lemma distinct_if_submultiset: "mset xs \<subseteq># mset ys \<Longrightarrow> distinct ys \<Longrightarrow> distinct xs"
  by (metis distinct_append ex_mset mset_append mset_eq_imp_distinct_iff mset_subset_eq_exists_conv)

context observation_log begin

lemma matched_set:
  assumes "valid (sm_log m)" and "se_port (ae_state e) = port"
  shows "ob \<in> set (matched_observations e p w f cameras m) \<longleftrightarrow>
     (\<exists>c\<in>set cameras. ae_read_error e c = None \<and> ob \<in> set (take 10000 (records (sm_log m) c)) \<and> served p w f ob)"
  using read_from_start [OF assms(1), of 10000]
  by (auto simp: matched_observations_def observations_in_def assms(2) wanted_observation_def served_def split: if_splits)

lemma matched_ids_distinct:
  assumes "valid (sm_log m)" and "se_port (ae_state e) = port"
    and "distinct (map ob_id (concat (map (records (sm_log m)) cameras)))"
  shows "distinct (map ob_id (matched_observations e p w f cameras m))"
proof -
  let ?part = "\<lambda>c. if ae_read_error e c \<noteq> None then []
     else filter (wanted_observation p f) (observations_in (ae_state e) c (tw_start w) (tw_end w) 10000 m)"
  have sub: "mset (?part c) \<subseteq># mset (records (sm_log m) c)" for c
  proof -
    have "mset (take 10000 (records (sm_log m) c)) \<subseteq># mset (records (sm_log m) c)"
      by (metis append_take_drop_id mset_append mset_subset_eq_add_left)
    moreover have "mset (observations_in (ae_state e) c (tw_start w) (tw_end w) 10000 m) \<subseteq># mset (take 10000 (records (sm_log m) c))"
      using read_from_start [OF assms(1), of 10000 c] by (simp add: observations_in_def assms(2) multiset_filter_subset)
    ultimately show ?thesis
      by (auto simp: mset_filter intro: subset_mset.order_trans multiset_filter_subset)
  qed
  have "mset (concat (map ?part cameras)) \<subseteq># mset (concat (map (records (sm_log m)) cameras))"
    by (rule mset_concat_mono) (rule sub)
  then have "image_mset ob_id (mset (matched_observations e p w f cameras m))
      \<subseteq># mset (map ob_id (concat (map (records (sm_log m)) cameras)))"
    unfolding matched_observations_def by (simp add: image_mset_subseteq_mono)
  with assms(3) show ?thesis
    by (metis distinct_if_submultiset mset_map)
qed

end



section \<open>One object\<close>

lemma camera_holding_finds:
  assumes "c \<in> set cs" and "dict_get (sm_partitions m) c = Some cp" and "\<not> is_degraded cp" and "x \<in> set (dict_keys (cp_objects cp))"
    and "\<And>d dp. dict_get (sm_partitions m) d = Some dp \<Longrightarrow> x \<in> set (dict_keys (cp_objects dp)) \<Longrightarrow> d = c"
  shows "camera_holding now x m cs = Inr (Some c)"
  using assms(1)
proof (induction cs)
  case (Cons d cs)
  obtain sn where sn: "take_snapshot now (Some [d]) m = Inr sn"
    "sn_partitions sn = fst (fold (snapshot_camera m) [d] ([], []))"
    using take_snapshot_total [of now "Some [d]" m] by auto
  show ?case
  proof (cases "d = c")
    case True
    with sn assms(2-4) show ?thesis by (simp add: snapshot_camera_def dict_simps)
  next
    case False
    with Cons have "camera_holding now x m cs = Inr (Some c)" by simp
    with False sn assms(5) [of d] show ?thesis
      by (auto simp: snapshot_camera_def dict_simps split: option.splits)
  qed
qed simp

lemma first_object_unique:
  assumes "(c, cp) \<in> set ps" and "wf_dict ps" and "dict_get (cp_objects cp) x = Some st"
    and "\<And>d dp. (d, dp) \<in> set ps \<Longrightarrow> x \<in> set (dict_keys (cp_objects dp)) \<Longrightarrow> d = c"
  shows "first_object x (map snd ps) = Some st"
  using assms
proof (induction ps)
  case (Cons dp ps)
  obtain d p where dp: "dp = (d, p)" by (cases dp)
  show ?case
  proof (cases "d = c")
    case True
    with Cons.prems(1,2) have "p = cp" by (auto simp: dp wf_dict_def image_iff)
    with Cons.prems(3) show ?thesis by (simp add: dp)
  next
    case False
    with Cons.prems(4) [of d p] have "dict_get (cp_objects p) x = None"
      by (auto simp: dp dict_get_None_iff)
    moreover have "first_object x (map snd ps) = Some st"
      using Cons False by (auto simp: dp wf_dict_def)
    ultimately show ?thesis by (simp add: dp)
  qed
qed simp

lemma tenant_scope_covers: "scope_covers_camera (tenant_scope t) c"
  by (simp add: scope_covers_camera_def tenant_scope_def)

text \<open>
  C15: Reading one object by id does not look at tenants. With the authorizer that lets every principal
  read within its own tenant, and no scope given, any principal of any tenant obtains the state of
  any object that a healthy partition holds, on whatever tenant's camera it was seen, and the read is
  audited as granted: the default scope names no camera, and a scope without cameras covers all.
\<close>

theorem get_object_crosses_tenants:
  assumes "ae_authorize e = tenant_reads_authorize" and "wf_dict (sm_partitions m)"
    and "dict_get (sm_partitions m) c = Some cp" and "\<not> is_degraded cp" and "dict_get (cp_objects cp) x = Some st"
    and "\<And>d dp. dict_get (sm_partitions m) d = Some dp \<Longrightarrow> x \<in> set (dict_keys (cp_objects dp)) \<Longrightarrow> d = c"
  shows "get_object e now p x None q 1 m api =
    (Inr (object_view_of st c q), audit_write now p READ_STATE True x [] api)"
proof -
  have auth: "api_authorize e now p READ_STATE (tenant_scope (pr_tenant p)) api = (Inr (tenant_scope (pr_tenant p)), api)"
    by (simp add: api_authorize_def tenant_scope_def assms(1) tenant_reads_authorize_def read_actions_def mk_decision_def denied_def)
  have x: "x \<in> set (dict_keys (cp_objects cp))"
    using assms(5) by (metis dict_get_None_iff option.distinct(1))
  have c: "(c, cp) \<in> set (sm_partitions m)"
    using assms(2,3) by (simp add: in_dict_iff)
  have "first_object x (map snd (sm_partitions m)) = Some st"
    using first_object_unique [OF c assms(2,5)] assms(2,6) by (auto simp: in_dict_iff)
  moreover have "c \<in> set (partition_ids m)"
    using c by (auto simp: partition_ids_def intro: rev_image_eqI)
  then have "camera_of_object now x m = Inr (Some c)"
    unfolding camera_of_object_def using assms(3,4) x assms(6) by (rule camera_holding_finds)
  ultimately show ?thesis
    by (simp add: get_object_def check_version_def auth manager_object_state_def tenant_scope_covers)
qed


section \<open>Examples\<close>

definition example_state :: "object_id \<Rightarrow> object_state" where
  "example_state x =
     \<lparr>os_id = x, os_class = ''person'',
      os_class_confidence = \<lparr>cf_value = 1/2, cf_semantics = CLASSIFICATION, cf_calibrated = False,
        cf_calibration_id = None, cf_raw_score = None\<rparr>,
      os_lifecycle = ACTIVE, os_first_seen = Instant 1, os_last_seen = Instant 2, os_last_confirmed = Instant 2,
      os_spatial = None, os_basis = MEASURED, os_trajectory = [], os_class_history = [], os_regions = [],
      os_attributes = [],
      os_identity = \<lparr>is_binding_count = 0, is_assertion_confidence = None, is_method = [], is_ambiguous = False\<rparr>,
      os_provenance = [], os_observation_count = 1, os_last_observation = None\<rparr>"

definition example_partition :: "camera_id \<Rightarrow> object_id \<Rightarrow> camera_partition" where
  "example_partition c x = (new_partition c)\<lparr>cp_objects := [(x, example_state x)]\<rparr>"

definition two_cameras :: "memory_log manager" where
  "two_cameras = (new_manager empty_log)\<lparr>sm_partitions :=
     [(''cam-1'', example_partition ''cam-1'' ''obj-1''), (''cam-2'', example_partition ''cam-2'' ''obj-2'')]\<rparr>"

definition example_env :: "memory_log api_env" where
  "example_env =
     \<lparr>ae_authorize = tenant_reads_authorize, ae_cameras = Some (\<lambda>t. if t = ''acme'' then [''cam-1'', ''cam-2''] else []),
      ae_limits = \<lparr>al_query = \<lparr>rl_requests_per_minute = 600, rl_burst = 60\<rparr>,
        al_evidence = \<lparr>rl_requests_per_minute = 60, rl_burst = 10\<rparr>,
        al_subscribe = \<lparr>rl_requests_per_minute = 60, rl_burst = 10\<rparr>,
        al_max_page_size = 1000, al_max_window_ms = 86400000, al_max_subscriptions = 32\<rparr>,
      ae_state = example_state_env, ae_read_error = Map.empty, ae_evidence = None\<rparr>"

definition any_object :: state_filter where
  "any_object = \<lparr>stf_classes = [], stf_lifecycle = [], stf_min_confidence = None, stf_attributes = [],
     stf_max_staleness = None, stf_objects = []\<rparr>"

definition one_object :: query_options where
  "one_object = \<lparr>qo_include_attributes = None, qo_include_spatial = True, qo_include_trajectory = False,
     qo_include_provenance = False, qo_limit = 1, qo_cursor = None\<rparr>"

lemma two_cameras_get:
  "dict_get (sm_partitions two_cameras) c = Some cp \<longleftrightarrow>
     (c = ''cam-1'' \<and> cp = example_partition ''cam-1'' ''obj-1'') \<or> (c = ''cam-2'' \<and> cp = example_partition ''cam-2'' ''obj-2'')"
  by (auto simp: two_cameras_def dict_get_def)

lemma two_cameras_wf: "wf_dict (sm_partitions two_cameras)"
  by (simp add: two_cameras_def wf_dict_def)

lemma example_partition_simps [simp]:
  "cp_objects (example_partition c x) = [(x, example_state x)]" "\<not> is_degraded (example_partition c x)"
  "dict_get [(x, st)] x = Some st"
  by (simp_all add: example_partition_def new_partition_def is_degraded_def dict_get_def)

lemma example_view [simp]: "ov_object_id (object_view_of (example_state x) c q) = x"
  by (simp add: object_view_of_def example_state_def)

lemmas api_example_defs = example_env_def any_object_def one_object_def two_cameras_def example_partition_def
  new_partition_def new_manager_def sample_principal_def

lemma example_authorize:
  "api_authorize example_env now (sample_principal u t) READ_STATE (camera_scope t cs) api = (Inr (camera_scope t cs), api)"
  by (simp add: api_authorize_def example_env_def tenant_reads_authorize_def read_actions_def mk_decision_def denied_def
      camera_scope_def sample_principal_def)

text \<open>A limit of one, two cameras of tenant acme, and a principal of another tenant: two objects.\<close>

lemma example_query:
  "\<exists>r api'. query_state example_env (Instant 5) (sample_principal ''eve'' ''other'')
       (camera_scope ''other'' [''cam-1'', ''cam-2'']) any_object one_object 1 two_cameras (api_init sample_sink) = (Inr r, api')
     \<and> length (sr_objects r) = 2 \<and> sr_partitions r = [''cam-1'', ''cam-2'']"
proof -
  let ?s = "camera_scope ''other'' [''cam-1'', ''cam-2'']"
  have cs: "cameras_in example_env two_cameras ?s = [''cam-1'', ''cam-2'']"
    by (simp add: cameras_in_def camera_scope_def)
  obtain sn where sn: "take_snapshot (Instant 5) (Some [''cam-1'', ''cam-2'']) two_cameras = Inr sn"
    "sn_partitions sn = sm_partitions two_cameras"
    using take_snapshot_total [of "Instant 5" "Some [''cam-1'', ''cam-2'']" two_cameras]
    by (auto simp: two_cameras_def snapshot_camera_def example_partition_def new_partition_def is_degraded_def
        dict_get_def dict_set_def)
  show ?thesis
    by (simp add: query_state_def check_version_def example_authorize charge_eq cs sn Let_def)
      (simp add: api_example_defs collect_partition_def state_matches_def matches_class_def bucket_of_def api_init_def)
qed

theorem query_state_scoped_and_bounded_witness:
  "\<exists>r api'. query_state example_env (Instant 5) (sample_principal ''eve'' ''other'')
       (camera_scope ''other'' [''cam-1'', ''cam-2'']) any_object one_object 1 two_cameras (api_init sample_sink) = (Inr r, api')
     \<and> int (length (sr_objects r)) = qo_limit one_object - 1 + int (length (sr_partitions r))
     \<and> (\<forall>v\<in>set (sr_objects r). ov_object_id v \<in> {''obj-1'', ''obj-2''})"
proof -
  obtain r api' where r: "query_state example_env (Instant 5) (sample_principal ''eve'' ''other'')
       (camera_scope ''other'' [''cam-1'', ''cam-2'']) any_object one_object 1 two_cameras (api_init sample_sink) = (Inr r, api')"
     "length (sr_objects r) = 2" "sr_partitions r = [''cam-1'', ''cam-2'']"
    using example_query by blast
  have "\<forall>v\<in>set (sr_objects r). \<exists>c cp st. dict_get (sm_partitions two_cameras) c = Some cp
         \<and> st \<in> set (map snd (cp_objects cp)) \<and> v = object_view_of st c one_object"
    using query_state_scoped_and_bounded [OF r(1)] by (fastforce simp: one_object_def)
  then have "\<forall>v\<in>set (sr_objects r). ov_object_id v \<in> {''obj-1'', ''obj-2''}"
    unfolding two_cameras_get by fastforce
  with r show ?thesis by (auto simp: one_object_def)
qed

theorem get_object_crosses_tenants_witness:
  "fst (get_object example_env (Instant 5) (sample_principal ''eve'' ''other'') ''obj-2'' None one_object 1 two_cameras
      (api_init sample_sink)) = Inr (object_view_of (example_state ''obj-2'') ''cam-2'' one_object)"
proof -
  have "get_object example_env (Instant 5) (sample_principal ''eve'' ''other'') ''obj-2'' None one_object 1 two_cameras
      (api_init sample_sink) = (Inr (object_view_of (example_state ''obj-2'') ''cam-2'' one_object),
        audit_write (Instant 5) (sample_principal ''eve'' ''other'') READ_STATE True ''obj-2'' [] (api_init sample_sink))"
    by (rule get_object_crosses_tenants [where cp = "example_partition ''cam-2'' ''obj-2''"])
      (auto simp: two_cameras_get two_cameras_wf example_env_def)
  then show ?thesis by simp
qed

definition any_observation :: observation_filter where
  "any_observation = \<lparr>of_types = [], of_objects = [], of_classes = [], of_attribute_keys = [], of_min_confidence = None,
     of_producer = None, of_include_superseded = False\<rparr>"


end
