(* ===== verification/Demand_Registry.thy ===== *)
theory Demand_Registry
  imports Timebase Closed_Machine Api_Model
begin

text \<open>
  Demands (\<^verbatim>\<open>vision_os/core/model/demand.py\<close>) and the demand registry
  (\<^verbatim>\<open>vision_os/perception/cropping/demands.py\<close>): registration against the capabilities, the
  closed lifecycle, throttling, expiry, and the aggregated requirements of a camera and class. The
  detail text of an acknowledgement is a constructor with the two durations it names; the factory of
  new demand ids (a ULID generator) is a parameter.
\<close>

section \<open>Demands\<close>

datatype trigger_hint = ON_FIRST_SIGHT | ON_CHANGE | ON_REGION_ENTRY | PERIODIC

datatype demand_status =
    DEMAND_VALIDATED | DEMAND_ACTIVE | DEMAND_THROTTLED | DEMAND_UNSATISFIABLE
  | DEMAND_EXPIRED | DEMAND_REVOKED | DEMAND_REJECTED

definition demand_is_serving :: "demand_status \<Rightarrow> bool" where
  "demand_is_serving s \<longleftrightarrow> s \<in> {DEMAND_ACTIVE, DEMAND_THROTTLED}"

definition demand_is_terminal :: "demand_status \<Rightarrow> bool" where
  "demand_is_terminal s \<longleftrightarrow> s \<in> {DEMAND_EXPIRED, DEMAND_REVOKED, DEMAND_REJECTED}"

primrec demand_status_value :: "demand_status \<Rightarrow> string" where
  "demand_status_value DEMAND_VALIDATED = ''validated''"
| "demand_status_value DEMAND_ACTIVE = ''active''"
| "demand_status_value DEMAND_THROTTLED = ''throttled''"
| "demand_status_value DEMAND_UNSATISFIABLE = ''unsatisfiable''"
| "demand_status_value DEMAND_EXPIRED = ''expired''"
| "demand_status_value DEMAND_REVOKED = ''revoked''"
| "demand_status_value DEMAND_REJECTED = ''rejected''"

datatype acknowledgement_status = ACK_ACCEPTED | ACK_PARTIALLY_ACCEPTED | ACK_REJECTED

datatype unsatisfiable_reason =
    ATTRIBUTE_NOT_REGISTERED | NO_CAPABLE_MODEL | CLASS_NOT_PRODUCIBLE | SCOPE_NOT_OBSERVABLE
  | BUDGET_INSUFFICIENT

record demand_scope =
  dc_sites :: "site_id list"
  dc_cameras :: "camera_id list"
  dc_regions :: "region_id list"

definition demand_covers_camera :: "demand_scope \<Rightarrow> camera_id \<Rightarrow> bool" where
  "demand_covers_camera s c \<longleftrightarrow> dc_cameras s = [] \<or> c \<in> set (dc_cameras s)"

definition demand_covers_region :: "demand_scope \<Rightarrow> region_id list \<Rightarrow> bool" where
  "demand_covers_region s rs = (if dc_regions s = [] then True else list_ex (\<lambda>r. r \<in> set (dc_regions s)) rs)"

record subject_filter =
  sx_classes :: "class_id list"
  sx_lifecycle :: "string list"
  sx_min_confidence :: "rat option"

definition mk_subject_filter :: "subject_filter \<Rightarrow> subject_filter result" where
  "mk_subject_filter f =
     (case sx_min_confidence f of
        None \<Rightarrow> Inr f | Some x \<Rightarrow> if \<not> (0 \<le> x \<and> x \<le> 1) then Inl ValueError else Inr f)"

definition subject_matches_class :: "subject_filter \<Rightarrow> class_id \<Rightarrow> bool" where
  "subject_matches_class f c = (if sx_classes f = [] then True else list_ex (is_a c) (sx_classes f))"

record demand_budget =
  db_max_calls_per_hour :: "int option"
  db_max_cost_per_hour :: "rat option"

definition mk_demand_budget :: "demand_budget \<Rightarrow> demand_budget result" where
  "mk_demand_budget b =
     (if (case db_max_calls_per_hour b of None \<Rightarrow> False | Some n \<Rightarrow> n < 0) then Inl ValueError
      else if (case db_max_cost_per_hour b of None \<Rightarrow> False | Some x \<Rightarrow> x < 0) then Inl ValueError
      else Inr b)"

record demand =
  dd_id :: demand_id
  dd_subscriber :: string
  dd_scope :: demand_scope
  dd_subject :: subject_filter
  dd_required :: "attribute_key list"
  dd_freshness :: duration
  dd_hints :: "trigger_hint list"
  dd_priority :: string
  dd_budget :: demand_budget
  dd_expires_at :: "instant option"
  dd_registered_at :: instant
  dd_labels :: "(string, string) dict"

definition mk_demand :: "demand \<Rightarrow> demand result" where
  "mk_demand d =
     (if dd_required d = [] then Inl ValueError
      else if duration_ns (dd_freshness d) \<le> 0 then Inl ValueError else Inr d)"

definition demand_is_expired :: "demand \<Rightarrow> instant \<Rightarrow> bool" where
  "demand_is_expired d now = (case dd_expires_at d of None \<Rightarrow> False | Some t \<Rightarrow> instant_ns now \<ge> instant_ns t)"

datatype ack_detail = NoDetail | BudgetSustains duration duration | Detail string

record acknowledgement =
  da_demand_id :: demand_id
  da_status :: acknowledgement_status
  da_satisfiable :: "attribute_key list"
  da_unsatisfiable :: "(attribute_key \<times> unsatisfiable_reason) list"
  da_effective :: duration
  da_estimated_calls :: rat
  da_detail :: ack_detail

definition ack_accepted :: "acknowledgement \<Rightarrow> bool" where
  "ack_accepted a \<longleftrightarrow> da_status a \<noteq> ACK_REJECTED"

definition ack_fully_satisfiable :: "acknowledgement \<Rightarrow> bool" where
  "ack_fully_satisfiable a \<longleftrightarrow> da_status a = ACK_ACCEPTED \<and> da_unsatisfiable a = []"

record demand_state =
  dx_demand :: demand
  dx_status :: demand_status
  dx_ack :: acknowledgement
  dx_activated_at :: instant
  dx_last_served :: "instant option"
  dx_calls_served :: int
  dx_effective :: duration

definition state_is_serving :: "demand_state \<Rightarrow> bool" where
  "state_is_serving st = demand_is_serving (dx_status st)"

definition state_satisfies :: "demand_state \<Rightarrow> attribute_key \<Rightarrow> bool" where
  "state_satisfies st a \<longleftrightarrow> a \<in> set (da_satisfiable (dx_ack st))"

section \<open>The closed lifecycle\<close>

definition demand_allowed :: "(demand_status \<times> demand_status) list" where
  "demand_allowed =
     [(DEMAND_VALIDATED, DEMAND_ACTIVE), (DEMAND_VALIDATED, DEMAND_REJECTED),
      (DEMAND_ACTIVE, DEMAND_ACTIVE), (DEMAND_ACTIVE, DEMAND_THROTTLED), (DEMAND_ACTIVE, DEMAND_UNSATISFIABLE),
      (DEMAND_ACTIVE, DEMAND_EXPIRED), (DEMAND_ACTIVE, DEMAND_REVOKED),
      (DEMAND_THROTTLED, DEMAND_ACTIVE), (DEMAND_THROTTLED, DEMAND_THROTTLED), (DEMAND_THROTTLED, DEMAND_EXPIRED),
      (DEMAND_THROTTLED, DEMAND_REVOKED), (DEMAND_THROTTLED, DEMAND_UNSATISFIABLE),
      (DEMAND_UNSATISFIABLE, DEMAND_ACTIVE), (DEMAND_UNSATISFIABLE, DEMAND_UNSATISFIABLE),
      (DEMAND_UNSATISFIABLE, DEMAND_EXPIRED), (DEMAND_UNSATISFIABLE, DEMAND_REVOKED)]"

definition demand_is_legal :: "demand_status \<Rightarrow> demand_status \<Rightarrow> bool" where
  "demand_is_legal s t \<longleftrightarrow> (s, t) \<in> set demand_allowed"

definition demand_check_transition :: "demand_status \<Rightarrow> demand_status \<Rightarrow> unit result" where
  "demand_check_transition s t =
     (if \<not> demand_is_legal s t then Inl (DemandTransitionError (demand_status_value s) (demand_status_value t))
      else Inr ())"

section \<open>The registry\<close>

record capability_view =
  cy_registered :: "attribute_key list"
  cy_producible :: "attribute_key list"
  cy_producible_classes :: "class_id list"
  cy_observed_cameras :: "camera_id list"

definition classifies :: "capability_view \<Rightarrow> attribute_key \<Rightarrow> unsatisfiable_reason option" where
  "classifies v a =
     (if a \<notin> set (cy_registered v) then Some ATTRIBUTE_NOT_REGISTERED
      else if a \<notin> set (cy_producible v) then Some NO_CAPABLE_MODEL else None)"

record demand_registry =
  dr_demands :: "(demand_id, demand_state) dict"
  dr_capabilities :: capability_view
  dr_min_freshness :: duration

definition min_effective_freshness :: duration where
  "min_effective_freshness = duration_from_millis 1000"

definition demand_registry_init :: "capability_view \<Rightarrow> duration \<Rightarrow> demand_registry" where
  "demand_registry_init v d = \<lparr>dr_demands = [], dr_capabilities = v, dr_min_freshness = d\<rparr>"

definition effective_freshness :: "demand_registry \<Rightarrow> duration \<Rightarrow> duration option \<Rightarrow> duration" where
  "effective_freshness r requested sustainable =
     (let lowest = max (duration_ns (dr_min_freshness r)) (duration_ns requested)
      in case sustainable of None \<Rightarrow> Duration lowest | Some d \<Rightarrow> Duration (max lowest (duration_ns d)))"

fun classify_all ::
  "capability_view \<Rightarrow> attribute_key list \<Rightarrow> attribute_key list \<Rightarrow> (attribute_key \<times> unsatisfiable_reason) list
   \<Rightarrow> attribute_key list \<times> (attribute_key \<times> unsatisfiable_reason) list" where
  "classify_all v [] ok bad = (ok, bad)"
| "classify_all v (a # as) ok bad =
     (case classifies v a of
        None \<Rightarrow> classify_all v as (ok @ [a]) bad
      | Some why \<Rightarrow> classify_all v as ok (bad @ [(a, why)]))"

definition require_demand :: "demand_id \<Rightarrow> demand_registry \<Rightarrow> demand_state result" where
  "require_demand i r = (case dict_get (dr_demands r) i of None \<Rightarrow> Inl (DemandNotFoundError i) | Some st \<Rightarrow> Inr st)"

definition put_demand :: "demand_id \<Rightarrow> demand_state \<Rightarrow> demand_registry \<Rightarrow> demand_registry" where
  "put_demand i st r = r\<lparr>dr_demands := dict_set i st (dr_demands r)\<rparr>"

definition mark_unsatisfiable :: "demand_id \<Rightarrow> ack_detail \<Rightarrow> demand_registry \<Rightarrow> (demand_state \<times> demand_registry) result" where
  "mark_unsatisfiable i why r =
     bind_result (require_demand i r) (\<lambda>st.
     bind_result (demand_check_transition (dx_status st) DEMAND_UNSATISFIABLE) (\<lambda>_.
       let st' = st\<lparr>dx_status := DEMAND_UNSATISFIABLE, dx_ack := (dx_ack st)\<lparr>da_detail := why\<rparr>\<rparr>
       in Inr (st', put_demand i st' r)))"

definition register_demand ::
  "(instant \<Rightarrow> demand_id) \<Rightarrow> demand \<Rightarrow> instant \<Rightarrow> duration option \<Rightarrow> demand_registry
   \<Rightarrow> (acknowledgement \<times> demand_registry) result" where
  "register_demand factory d now sustainable r =
     (let (ok, bad) = classify_all (dr_capabilities r) (dd_required d) [] [];
          unregistered = map fst (filter (\<lambda>(k, why). why = ATTRIBUTE_NOT_REGISTERED) bad)
      in if unregistered \<noteq> [] \<and> length unregistered = length (dd_required d)
         then Inl (DemandRejectedError (dd_id d) unregistered)
         else
           (let eff = effective_freshness r (dd_freshness d) sustainable;
                i = (if dd_id d \<noteq> [] then dd_id d else factory now)
            in bind_result (mk_demand (d\<lparr>dd_id := i, dd_registered_at := now\<rparr>)) (\<lambda>stored.
                 let ack = \<lparr>da_demand_id = i,
                       da_status = (if bad = [] then ACK_ACCEPTED else ACK_PARTIALLY_ACCEPTED),
                       da_satisfiable = ok, da_unsatisfiable = bad, da_effective = eff, da_estimated_calls = 0,
                       da_detail = (if duration_ns eff \<le> duration_ns (dd_freshness d) then NoDetail
                                    else BudgetSustains (dd_freshness d) eff)\<rparr>
                 in bind_result (demand_check_transition DEMAND_VALIDATED DEMAND_ACTIVE) (\<lambda>_.
                      let r1 = put_demand i \<lparr>dx_demand = stored, dx_status = DEMAND_ACTIVE, dx_ack = ack,
                                  dx_activated_at = now, dx_last_served = None, dx_calls_served = 0,
                                  dx_effective = eff\<rparr> r
                      in if ok = []
                         then bind_result (mark_unsatisfiable i
                                  (Detail ''no loaded model can currently produce any requested attribute'') r1)
                                (\<lambda>(st, r2). Inr (ack, r2))
                         else Inr (ack, r1)))))"

definition revoke_demand :: "demand_id \<Rightarrow> demand_registry \<Rightarrow> demand_registry result" where
  "revoke_demand i r =
     bind_result (require_demand i r) (\<lambda>st.
       if demand_is_terminal (dx_status st) then Inr r
       else bind_result (demand_check_transition (dx_status st) DEMAND_REVOKED) (\<lambda>_.
              Inr (put_demand i (st\<lparr>dx_status := DEMAND_REVOKED\<rparr>) r)))"

definition throttle_demand :: "demand_id \<Rightarrow> duration \<Rightarrow> demand_registry \<Rightarrow> (demand_state \<times> demand_registry) result" where
  "throttle_demand i eff r =
     bind_result (require_demand i r) (\<lambda>st.
     bind_result (demand_check_transition (dx_status st) DEMAND_THROTTLED) (\<lambda>_.
       let st' = st\<lparr>dx_status := DEMAND_THROTTLED, dx_effective := eff\<rparr> in Inr (st', put_demand i st' r)))"

definition restore_demand :: "demand_id \<Rightarrow> demand_registry \<Rightarrow> (demand_state \<times> demand_registry) result" where
  "restore_demand i r =
     bind_result (require_demand i r) (\<lambda>st.
     bind_result (demand_check_transition (dx_status st) DEMAND_ACTIVE) (\<lambda>_.
       let st' = st\<lparr>dx_status := DEMAND_ACTIVE, dx_effective := da_effective (dx_ack st)\<rparr>
       in Inr (st', put_demand i st' r)))"

definition expire_one ::
  "instant \<Rightarrow> demand_id \<Rightarrow> demand_id list \<times> demand_registry \<Rightarrow> (demand_id list \<times> demand_registry) result" where
  "expire_one now i er =
     (case er of (expired, r) \<Rightarrow>
        bind_result (case dict_get (dr_demands r) i of None \<Rightarrow> Inl KeyError | Some st \<Rightarrow> Inr st) (\<lambda>st.
          if demand_is_terminal (dx_status st) \<or> \<not> demand_is_expired (dx_demand st) now then Inr (expired, r)
          else bind_result (demand_check_transition (dx_status st) DEMAND_EXPIRED) (\<lambda>_.
                 Inr (expired @ [i], put_demand i (st\<lparr>dx_status := DEMAND_EXPIRED\<rparr>) r))))"

definition expire_due :: "instant \<Rightarrow> demand_registry \<Rightarrow> (demand_id list \<times> demand_registry) result" where
  "expire_due now r = fold_result (expire_one now) (sort (dict_keys (dr_demands r))) ([], r)"

definition record_served :: "demand_id \<Rightarrow> instant \<Rightarrow> demand_registry \<Rightarrow> demand_registry" where
  "record_served i now r =
     (case dict_get (dr_demands r) i of
        None \<Rightarrow> r
      | Some st \<Rightarrow> put_demand i (st\<lparr>dx_last_served := Some now, dx_calls_served := dx_calls_served st + 1\<rparr>) r)"

definition all_demands :: "demand_registry \<Rightarrow> demand_state list" where
  "all_demands r = sorted_values (dr_demands r)"

definition active_demands :: "demand_registry \<Rightarrow> demand_state list" where
  "active_demands r = filter state_is_serving (sorted_values (dr_demands r))"

definition matching_demands :: "camera_id \<Rightarrow> class_id \<Rightarrow> region_id list \<Rightarrow> demand_registry \<Rightarrow> demand_state list" where
  "matching_demands c k rs r =
     filter (\<lambda>st. demand_covers_camera (dd_scope (dx_demand st)) c \<and> demand_covers_region (dd_scope (dx_demand st)) rs
       \<and> subject_matches_class (dd_subject (dx_demand st)) k) (active_demands r)"

type_synonym requirement = "duration \<times> string \<times> demand_id list"

definition add_requirement ::
  "demand_state \<Rightarrow> attribute_key \<Rightarrow> (attribute_key, requirement) dict \<Rightarrow> (attribute_key, requirement) dict" where
  "add_requirement st a wanted =
     (case dict_get wanted a of
        None \<Rightarrow> dict_set a (dx_effective st, dd_priority (dx_demand st), [dd_id (dx_demand st)]) wanted
      | Some (fresh, priority, ids) \<Rightarrow>
          dict_set a (Duration (min (duration_ns fresh) (duration_ns (dx_effective st))),
            (if priority \<noteq> [] then priority else dd_priority (dx_demand st)), ids @ [dd_id (dx_demand st)]) wanted)"

definition demanded_attributes ::
  "camera_id \<Rightarrow> class_id \<Rightarrow> region_id list \<Rightarrow> demand_registry \<Rightarrow> (attribute_key, requirement) dict" where
  "demanded_attributes c k rs r =
     fold (\<lambda>st wanted. fold (add_requirement st) (da_satisfiable (dx_ack st)) wanted) (matching_demands c k rs r) []"

definition demand_status_counts :: "demand_registry \<Rightarrow> (demand_status, int) dict" where
  "demand_status_counts r =
     fold (\<lambda>(i, st) counts. dict_set (dx_status st)
         ((case dict_get counts (dx_status st) of None \<Rightarrow> 0 | Some n \<Rightarrow> n) + 1) counts) (dr_demands r) []"

definition serving_count :: "(demand_status, int) dict \<Rightarrow> int" where
  "serving_count counts = sum_list (map snd (filter (\<lambda>(s, n). demand_is_serving s) counts))"


section \<open>Aggregated requirements\<close>

definition wants_attribute :: "camera_id \<Rightarrow> class_id \<Rightarrow> region_id list \<Rightarrow> attribute_key \<Rightarrow> demand_state \<Rightarrow> bool" where
  "wants_attribute c k rs a st \<longleftrightarrow> state_is_serving st \<and> demand_covers_camera (dd_scope (dx_demand st)) c
     \<and> demand_covers_region (dd_scope (dx_demand st)) rs \<and> subject_matches_class (dd_subject (dx_demand st)) k
     \<and> state_satisfies st a"

definition first_priority :: "demand_state list \<Rightarrow> string" where
  "first_priority sts = (case filter (\<lambda>p. p \<noteq> []) (map (dd_priority \<circ> dx_demand) sts) of [] \<Rightarrow> [] | p # ps \<Rightarrow> p)"

definition freshest :: "demand_state list \<Rightarrow> duration" where
  "freshest sts = Duration (Min (set (map (duration_ns \<circ> dx_effective) sts)))"

definition requesters :: "attribute_key \<Rightarrow> demand_state list \<Rightarrow> demand_id list" where
  "requesters a sts = concat (map (\<lambda>st. replicate (count_list (da_satisfiable (dx_ack st)) a) (dd_id (dx_demand st))) sts)"

definition requirement_of :: "attribute_key \<Rightarrow> demand_state list \<Rightarrow> requirement option" where
  "requirement_of a sts =
     (if sts = [] then None else Some (freshest sts, first_priority sts, requesters a sts))"

lemma add_requirement_other: "b \<noteq> a \<Longrightarrow> dict_get (add_requirement st b w) a = dict_get w a"
  by (simp add: add_requirement_def dict_simps split: option.splits prod.splits)

lemma add_requirement_same:
  "dict_get (add_requirement st a w) a = Some (case dict_get w a of
       None \<Rightarrow> (dx_effective st, dd_priority (dx_demand st), [dd_id (dx_demand st)])
     | Some (fresh, priority, ids) \<Rightarrow>
         (Duration (min (duration_ns fresh) (duration_ns (dx_effective st))),
          (if priority \<noteq> [] then priority else dd_priority (dx_demand st)), ids @ [dd_id (dx_demand st)]))"
  by (simp add: add_requirement_def dict_simps split: option.splits prod.splits)

lemma add_requirements_get:
  "dict_get (fold (add_requirement st) as w) a =
     (if count_list as a = 0 then dict_get w a
      else Some (case dict_get w a of
          None \<Rightarrow> (dx_effective st, dd_priority (dx_demand st), replicate (count_list as a) (dd_id (dx_demand st)))
        | Some (fresh, priority, ids) \<Rightarrow>
            (Duration (min (duration_ns fresh) (duration_ns (dx_effective st))),
             (if priority \<noteq> [] then priority else dd_priority (dx_demand st)),
             ids @ replicate (count_list as a) (dd_id (dx_demand st)))))"
proof (induction as arbitrary: w)
  case (Cons b as)
  show ?case
  proof (cases "b = a")
    case True
    then show ?thesis
      by (auto simp: Cons.IH add_requirement_same split: option.splits)
  next
    case False
    then have "count_list (b # as) a = count_list as a" by simp
    with False show ?thesis unfolding fold.simps o_apply Cons.IH by (simp only: add_requirement_other [OF False])
  qed
qed simp

lemma requirement_of_snoc:
  "requirement_of a (sts @ [st]) =
     Some (case requirement_of a sts of
         None \<Rightarrow> (dx_effective st, dd_priority (dx_demand st), requesters a [st])
       | Some (fresh, priority, ids) \<Rightarrow>
           (Duration (min (duration_ns fresh) (duration_ns (dx_effective st))),
            (if priority \<noteq> [] then priority else dd_priority (dx_demand st)), ids @ requesters a [st]))"
proof (cases "sts = []")
  case True
  then show ?thesis by (simp add: requirement_of_def freshest_def first_priority_def)
next
  case False
  have "first_priority (sts @ [st]) = (if first_priority sts \<noteq> [] then first_priority sts else dd_priority (dx_demand st))"
    by (auto simp: first_priority_def filter_empty_conv filter_eq_Cons_iff split: list.splits)
  moreover have "freshest (sts @ [st]) = Duration (min (duration_ns (freshest sts)) (duration_ns (dx_effective st)))"
    using False by (simp add: freshest_def min.commute)
  ultimately show ?thesis
    using False by (simp add: requirement_of_def requesters_def)
qed

lemma required_fold_get:
  "dict_get (fold (\<lambda>st w. fold (add_requirement st) (da_satisfiable (dx_ack st)) w) sts []) a =
     requirement_of a (filter (\<lambda>st. state_satisfies st a) sts)"
proof (induction sts rule: rev_induct)
  case Nil
  then show ?case by (simp add: requirement_of_def)
next
  case (snoc st sts)
  have "count_list (da_satisfiable (dx_ack st)) a = 0 \<longleftrightarrow> \<not> state_satisfies st a"
    by (simp add: state_satisfies_def count_list_0_iff)
  with snoc show ?case
    by (auto simp: add_requirements_get requirement_of_snoc requesters_def split: option.splits)
qed

text \<open>
  C28: What a camera and class must be observed for. An attribute is required exactly if some serving
  demand covers the camera, the regions and the class and can be satisfied for it; it is required at
  the smallest effective freshness of those demands, with the first nonempty priority among them
  and all their ids, in the order of demand ids.
\<close>

theorem demanded_attributes_exact:
  "dict_get (demanded_attributes c k rs r) a =
     (let sts = filter (wants_attribute c k rs a) (all_demands r)
      in if sts = [] then None else Some (freshest sts, first_priority sts, requesters a sts))"
  unfolding demanded_attributes_def required_fold_get requirement_of_def matching_demands_def active_demands_def
    all_demands_def wants_attribute_def by (simp add: conj_ac Let_def)


section \<open>The registry as a machine\<close>

interpretation demand_machine: closed_machine demand_is_legal demand_is_terminal
  by unfold_locales (auto simp: demand_is_legal_def demand_allowed_def demand_is_terminal_def)

inductive registry_step :: "(instant \<Rightarrow> demand_id) \<Rightarrow> demand_registry \<Rightarrow> demand_registry \<Rightarrow> bool"
  for factory :: "instant \<Rightarrow> demand_id" where
  register: "mk_demand d = Inr d \<Longrightarrow> register_demand factory d now sustainable r = Inr (ack, r') \<Longrightarrow> registry_step factory r r'"
| revoke: "revoke_demand i r = Inr r' \<Longrightarrow> registry_step factory r r'"
| throttle: "throttle_demand i eff r = Inr (st, r') \<Longrightarrow> registry_step factory r r'"
| restore: "restore_demand i r = Inr (st, r') \<Longrightarrow> registry_step factory r r'"
| unsatisfiable: "mark_unsatisfiable i why r = Inr (st, r') \<Longrightarrow> registry_step factory r r'"
| expire: "expire_due now r = Inr (ids, r') \<Longrightarrow> registry_step factory r r'"
| served: "registry_step factory r (record_served i now r)"

inductive_cases registry_stepE: "registry_step factory r r'"

definition demand_ok :: "demand_registry \<Rightarrow> demand_id \<Rightarrow> demand_state \<Rightarrow> bool" where
  "demand_ok r i st \<longleftrightarrow> dd_id (dx_demand st) = i \<and> dx_status st \<noteq> DEMAND_VALIDATED \<and> dx_status st \<noteq> DEMAND_REJECTED
     \<and> mk_demand (dx_demand st) = Inr (dx_demand st)
     \<and> (\<exists>a\<in>set (dd_required (dx_demand st)). a \<in> set (cy_registered (dr_capabilities r)))
     \<and> da_satisfiable (dx_ack st) = filter (\<lambda>a. classifies (dr_capabilities r) a = None) (dd_required (dx_demand st))
     \<and> max (duration_ns (dr_min_freshness r)) (duration_ns (dd_freshness (dx_demand st))) \<le> duration_ns (da_effective (dx_ack st))
     \<and> (dx_status st = DEMAND_ACTIVE \<longrightarrow> dx_effective st = da_effective (dx_ack st))"

definition registry_ok :: "demand_registry \<Rightarrow> bool" where
  "registry_ok r \<longleftrightarrow> wf_dict (dr_demands r) \<and> (\<forall>i st. dict_get (dr_demands r) i = Some st \<longrightarrow> demand_ok r i st)"

lemma put_demand_simps [simp]:
  "dr_capabilities (put_demand i st r) = dr_capabilities r" "dr_min_freshness (put_demand i st r) = dr_min_freshness r"
  "dict_get (dr_demands (put_demand i st r)) j = (if j = i then Some st else dict_get (dr_demands r) j)"
  "dict_keys (dr_demands (put_demand i st r)) =
     (if i \<in> set (dict_keys (dr_demands r)) then dict_keys (dr_demands r) else dict_keys (dr_demands r) @ [i])"
  by (simp_all add: put_demand_def dict_simps)

lemma demand_ok_put [simp]: "demand_ok (put_demand i st r) = demand_ok r"
  by (intro ext) (simp add: demand_ok_def)

lemma registry_ok_put: "registry_ok r \<Longrightarrow> demand_ok r i st \<Longrightarrow> registry_ok (put_demand i st r)"
  by (simp add: registry_ok_def) (simp add: put_demand_def)

lemma registry_ok_update:
  "registry_ok r \<Longrightarrow> dict_get (dr_demands r) i = Some st \<Longrightarrow> (demand_ok r i st \<Longrightarrow> demand_ok r i st') \<Longrightarrow>
   registry_ok (put_demand i st' r)"
  using registry_ok_put [of r i st'] by (simp add: registry_ok_def)

lemma require_demand_Inr: "require_demand i r = Inr st \<longleftrightarrow> dict_get (dr_demands r) i = Some st"
  by (simp add: require_demand_def split: option.splits)

lemma classify_all_eq:
  "classify_all v as ok bad =
     (ok @ filter (\<lambda>a. classifies v a = None) as,
      bad @ List.map_filter (\<lambda>a. map_option (Pair a) (classifies v a)) as)"
  by (induction as arbitrary: ok bad) (auto simp: List.map_filter_simps split: option.splits)

lemmas demand_step_defs = revoke_demand_def throttle_demand_def restore_demand_def mark_unsatisfiable_def
  require_demand_Inr result_simps demand_check_transition_def Let_def

lemma mark_unsatisfiable_ok:
  "registry_ok r \<Longrightarrow> mark_unsatisfiable i why r = Inr (st, r') \<Longrightarrow> registry_ok r'"
  by (auto simp: demand_step_defs intro!: registry_ok_update) (simp add: demand_ok_def)

definition fresh_state :: "demand \<Rightarrow> demand_id \<Rightarrow> instant \<Rightarrow> acknowledgement \<Rightarrow> demand_state" where
  "fresh_state d i now ack =
     \<lparr>dx_demand = d\<lparr>dd_id := i, dd_registered_at := now\<rparr>, dx_status = DEMAND_ACTIVE, dx_ack = ack,
      dx_activated_at = now, dx_last_served = None, dx_calls_served = 0, dx_effective = da_effective ack\<rparr>"

lemma unregistered_eq:
  "map fst (filter (\<lambda>(k, why). why = ATTRIBUTE_NOT_REGISTERED) (List.map_filter (\<lambda>a. map_option (Pair a) (classifies v a)) as))
     = filter (\<lambda>a. a \<notin> set (cy_registered v)) as"
  by (induction as) (simp_all add: List.map_filter_simps classifies_def)

lemma some_registered:
  "\<not> (filter (\<lambda>a. a \<notin> R) as \<noteq> [] \<and> length (filter (\<lambda>a. a \<notin> R) as) = length as) \<Longrightarrow> as \<noteq> [] \<Longrightarrow> \<exists>a\<in>set as. a \<in> R"
  by (metis filter_True filter_empty_conv)

lemma register_demand_Inr:
  assumes "register_demand factory d now sustainable r = Inr (ack, r')"
  shows "mk_demand d = Inr d \<and> (\<exists>a\<in>set (dd_required d). a \<in> set (cy_registered (dr_capabilities r)))
    \<and> da_satisfiable ack = filter (\<lambda>a. classifies (dr_capabilities r) a = None) (dd_required d)
    \<and> da_effective ack = effective_freshness r (dd_freshness d) sustainable
    \<and> da_demand_id ack = (if dd_id d \<noteq> [] then dd_id d else factory now)
    \<and> (if da_satisfiable ack \<noteq> [] then r' = put_demand (da_demand_id ack) (fresh_state d (da_demand_id ack) now ack) r
       else \<exists>st. mark_unsatisfiable (da_demand_id ack) (Detail ''no loaded model can currently produce any requested attribute'')
              (put_demand (da_demand_id ack) (fresh_state d (da_demand_id ack) now ack) r) = Inr (st, r'))"
proof -
  define i where "i = (if dd_id d \<noteq> [] then dd_id d else factory now)"
  define why where "why = Detail ''no loaded model can currently produce any requested attribute''"
  show ?thesis
    using assms some_registered [of "set (cy_registered (dr_capabilities r))" "dd_required d"]
    unfolding register_demand_def classify_all_eq Let_def prod.case append_Nil unregistered_eq i_def [symmetric] why_def [symmetric]
    by (auto simp: result_simps mk_demand_def fresh_state_def split: if_split_asm)
qed

lemma register_demand_ok:
  assumes "registry_ok r" and "register_demand factory d now sustainable r = Inr (ack, r')"
  shows "registry_ok r'"
proof -
  note reg = register_demand_Inr [OF assms(2)]
  have "max (duration_ns (dr_min_freshness r)) (duration_ns (dd_freshness d)) \<le> duration_ns (da_effective ack)"
    using reg by (auto simp: effective_freshness_def Let_def split: option.splits)
  then have "registry_ok (put_demand (da_demand_id ack) (fresh_state d (da_demand_id ack) now ack) r)"
    using assms(1) reg by (intro registry_ok_put) (simp_all add: demand_ok_def fresh_state_def mk_demand_def split: if_splits)
  with reg show ?thesis
    by (auto split: if_splits intro: mark_unsatisfiable_ok)
qed

definition is_due :: "instant \<Rightarrow> demand_state \<Rightarrow> bool" where
  "is_due now st \<longleftrightarrow> \<not> demand_is_terminal (dx_status st) \<and> demand_is_expired (dx_demand st) now"

definition expired_state :: "demand_state \<Rightarrow> demand_state" where
  "expired_state st = st\<lparr>dx_status := DEMAND_EXPIRED\<rparr>"

definition due_in :: "instant \<Rightarrow> demand_registry \<Rightarrow> demand_id \<Rightarrow> bool" where
  "due_in now r i = (case dict_get (dr_demands r) i of None \<Rightarrow> False | Some st \<Rightarrow> is_due now st)"

lemma expire_one_eq:
  assumes "registry_ok r" and "dict_get (dr_demands r) i = Some st"
  shows "expire_one now i (es, r) =
    (if is_due now st then Inr (es @ [i], put_demand i (expired_state st) r) else Inr (es, r))"
    and "is_due now st \<Longrightarrow> registry_ok (put_demand i (expired_state st) r)"
proof -
  have "is_due now st \<Longrightarrow> demand_is_legal (dx_status st) DEMAND_EXPIRED"
    using assms by (cases "dx_status st")
      (auto simp: is_due_def registry_ok_def demand_ok_def demand_is_terminal_def demand_is_legal_def demand_allowed_def)
  then show "expire_one now i (es, r) =
    (if is_due now st then Inr (es @ [i], put_demand i (expired_state st) r) else Inr (es, r))"
    by (auto simp: expire_one_def assms(2) demand_check_transition_def is_due_def expired_state_def)
  show "registry_ok (put_demand i (expired_state st) r)"
    using assms by (rule registry_ok_update) (simp add: demand_ok_def expired_state_def)
qed

lemma expire_fold:
  assumes "registry_ok r" and "distinct is" and "set is \<subseteq> set (dict_keys (dr_demands r))"
  shows "\<exists>r'. fold_result (expire_one now) is (es, r) = Inr (es @ filter (due_in now r) is, r') \<and> registry_ok r'
     \<and> (\<forall>j. dict_get (dr_demands r') j =
          map_option (\<lambda>st. if j \<in> set is \<and> is_due now st then expired_state st else st) (dict_get (dr_demands r) j))"
  using assms
proof (induction "is" arbitrary: r es)
  case Nil
  then show ?case by (simp add: option.map_ident)
next
  case (Cons i "is")
  from Cons.prems(3) obtain st where st: "dict_get (dr_demands r) i = Some st"
    by (cases "dict_get (dr_demands r) i") (auto simp: dict_get_None_iff)
  note one = expire_one_eq [OF Cons.prems(1) st, of now]
  show ?case
  proof (cases "is_due now st")
    case False
    then have "\<not> due_in now r i" by (simp add: due_in_def st)
    moreover obtain r' where "fold_result (expire_one now) is (es, r) = Inr (es @ filter (due_in now r) is, r')" "registry_ok r'"
      "\<forall>j. dict_get (dr_demands r') j =
          map_option (\<lambda>st. if j \<in> set is \<and> is_due now st then expired_state st else st) (dict_get (dr_demands r) j)"
      using Cons.IH [of r es] Cons.prems by auto
    ultimately show ?thesis
      using False one(1) st by (intro exI [of _ r']) (auto simp: option.map_comp intro!: option.map_cong)
  next
    case True
    let ?r = "put_demand i (expired_state st) r"
    have due: "filter (due_in now ?r) is = filter (due_in now r) is"
      using Cons.prems(2) by (intro filter_cong) (auto simp: due_in_def)
    have keys: "distinct is" "set is \<subseteq> set (dict_keys (dr_demands ?r))" using Cons.prems by auto
    from Cons.IH [OF one(2) [OF True] keys, of "es @ [i]"]
    obtain r' where "fold_result (expire_one now) is (es @ [i], ?r) = Inr ((es @ [i]) @ filter (due_in now ?r) is, r')" "registry_ok r'"
      "\<forall>j. dict_get (dr_demands r') j =
          map_option (\<lambda>st. if j \<in> set is \<and> is_due now st then expired_state st else st) (dict_get (dr_demands ?r) j)"
      by (elim exE conjE)
    moreover have "due_in now r i" using True by (simp add: due_in_def st)
    ultimately show ?thesis
      using True one(1) st due Cons.prems(2) by (intro exI [of _ r']) (auto intro!: option.map_cong)
  qed
qed


lemma expire_due_total:
  assumes "registry_ok r"
  shows "\<exists>r'. expire_due now r = Inr (filter (due_in now r) (sort (dict_keys (dr_demands r))), r') \<and> registry_ok r'
    \<and> (\<forall>j. dict_get (dr_demands r') j = map_option (\<lambda>st. if is_due now st then expired_state st else st) (dict_get (dr_demands r) j))"
proof -
  have "distinct (sort (dict_keys (dr_demands r)))"
    using assms by (simp add: registry_ok_def wf_dict_def)
  from expire_fold [OF assms this, of now "[]"] obtain r' where r':
    "expire_due now r = Inr (filter (due_in now r) (sort (dict_keys (dr_demands r))), r')" "registry_ok r'"
    "\<And>j. dict_get (dr_demands r') j = map_option (\<lambda>st. if j \<in> set (sort (dict_keys (dr_demands r))) \<and> is_due now st
         then expired_state st else st) (dict_get (dr_demands r) j)"
    by (auto simp: expire_due_def)
  have "dict_get (dr_demands r') j = map_option (\<lambda>st. if is_due now st then expired_state st else st) (dict_get (dr_demands r) j)" for j
    using r'(3) [of j] by (cases "dict_get (dr_demands r) j") (auto dest: dict_get_Some_in intro: rev_image_eqI)
  with r' show ?thesis by blast
qed

lemma registry_step_ok:
  assumes "registry_step factory r r'" and "registry_ok r"
  shows "registry_ok r'"
  using assms(1)
proof cases
  case (expire now ids)
  with expire_due_total [OF assms(2), of now] show ?thesis by auto
next
  case (served i now)
  with assms(2) show ?thesis
    by (auto simp: record_served_def demand_ok_def intro!: registry_ok_update split: option.splits)
qed (use assms(2) in \<open>auto simp: revoke_demand_def throttle_demand_def restore_demand_def require_demand_Inr result_simps
       demand_check_transition_def Let_def demand_ok_def intro: register_demand_ok mark_unsatisfiable_ok
       intro!: registry_ok_update split: if_splits\<close>)

lemma registry_reachable_ok:
  assumes "(registry_step factory)\<^sup>*\<^sup>* (demand_registry_init v d) r"
  shows "registry_ok r"
  using assms
proof (induction rule: rtranclp_induct)
  case base
  then show ?case by (simp add: demand_registry_init_def registry_ok_def)
qed (rule registry_step_ok)

lemma revoke_demand_cases:
  assumes "registry_ok r"
  shows "revoke_demand i r = (case dict_get (dr_demands r) i of None \<Rightarrow> Inl (DemandNotFoundError i)
    | Some st \<Rightarrow> Inr (if demand_is_terminal (dx_status st) then r else put_demand i (st\<lparr>dx_status := DEMAND_REVOKED\<rparr>) r))"
proof (cases "dict_get (dr_demands r) i")
  case (Some st)
  with assms have "\<not> demand_is_terminal (dx_status st) \<Longrightarrow> demand_is_legal (dx_status st) DEMAND_REVOKED"
    by (cases "dx_status st")
      (auto simp: registry_ok_def demand_ok_def demand_is_terminal_def demand_is_legal_def demand_allowed_def)
  with Some show ?thesis by (simp add: revoke_demand_def require_demand_def demand_check_transition_def)
qed (simp add: revoke_demand_def require_demand_def)

lemma step_legal:
  assumes "registry_step factory r r'" and "registry_ok r" and "dict_get (dr_demands r) i = Some st"
  shows "\<exists>st'. dict_get (dr_demands r') i = Some st' \<and> (dx_status st' = dx_status st
     \<or> demand_is_legal (dx_status st) (dx_status st')
     \<or> (\<exists>d now sustainable ack. register_demand factory d now sustainable r = Inr (ack, r') \<and> da_demand_id ack = i))"
  using assms(1)
proof cases
  case (register d now sustainable ack)
  show ?thesis
  proof (cases "da_demand_id ack = i")
    case True
    moreover from register_demand_Inr [OF register(2)] True have "\<exists>st'. dict_get (dr_demands r') i = Some st'"
      by (auto simp: mark_unsatisfiable_def result_simps Let_def split: if_splits)
    ultimately show ?thesis using register(2) by blast
  next
    case False
    with register_demand_Inr [OF register(2)] assms(3) show ?thesis
      by (auto simp: mark_unsatisfiable_def result_simps Let_def split: if_splits)
  qed
next
  case (expire now ids)
  with expire_due_total [OF assms(2), of now] obtain
    "dict_get (dr_demands r') i = Some (if is_due now st then expired_state st else st)"
    using assms(3) by auto
  moreover have "is_due now st \<Longrightarrow> demand_is_legal (dx_status st) DEMAND_EXPIRED"
    using assms(2,3) by (cases "dx_status st")
      (auto simp: is_due_def registry_ok_def demand_ok_def demand_is_terminal_def demand_is_legal_def demand_allowed_def)
  ultimately show ?thesis by (auto simp: expired_state_def)
next
  case (served j now)
  with assms(3) show ?thesis by (auto simp: record_served_def split: option.splits)
qed (use assms(3) in \<open>auto simp: demand_step_defs split: if_splits\<close>)

text \<open>
  C19: The demand registry keeps its lifecycle closed. In every reachable registry, expiry does not
  raise, expires exactly the demands that are due, in id order, and leaves nothing serving past its
  expiry; revoking raises exactly for an unknown id and ends in a terminal status; every serving
  demand is acknowledged for exactly the attributes that can be produced, at no finer freshness than the
  floor and its request; and a step changes a status only along the table, with one exception: a
  registration under an id that is already taken replaces whatever demand holds it, revoked or expired
  ones included.
\<close>

theorem demand_registry_closed:
  assumes "(registry_step factory)\<^sup>*\<^sup>* (demand_registry_init v d) r"
  shows "(\<exists>r'. expire_due now r = Inr (filter (due_in now r) (sort (dict_keys (dr_demands r))), r')
        \<and> (\<forall>st\<in>set (active_demands r'). \<not> demand_is_expired (dx_demand st) now))
    \<and> (revoke_demand i r = Inl (DemandNotFoundError i) \<and> i \<notin> set (dict_keys (dr_demands r))
        \<or> (\<exists>r' st. revoke_demand i r = Inr r' \<and> dict_get (dr_demands r') i = Some st \<and> demand_is_terminal (dx_status st)))
    \<and> (\<forall>st\<in>set (active_demands r).
        da_satisfiable (dx_ack st) = filter (\<lambda>a. classifies (dr_capabilities r) a = None) (dd_required (dx_demand st))
        \<and> max (duration_ns (dr_min_freshness r)) (duration_ns (dd_freshness (dx_demand st))) \<le> duration_ns (da_effective (dx_ack st)))
    \<and> (\<forall>r' st. registry_step factory r r' \<and> dict_get (dr_demands r) i = Some st \<longrightarrow>
        (\<exists>st'. dict_get (dr_demands r') i = Some st' \<and> (dx_status st' = dx_status st
           \<or> demand_is_legal (dx_status st) (dx_status st')
           \<or> (\<exists>d now sustainable ack. register_demand factory d now sustainable r = Inr (ack, r') \<and> da_demand_id ack = i))))"
proof (intro conjI)
  note ok = registry_reachable_ok [OF assms]
  have held: "st \<in> set (active_demands r) \<Longrightarrow> \<exists>i. demand_ok r i st" for st
    using ok by (auto simp: active_demands_def registry_ok_def in_dict_iff) blast
  obtain r' where r': "expire_due now r = Inr (filter (due_in now r) (sort (dict_keys (dr_demands r))), r')" "registry_ok r'"
    "\<And>j. dict_get (dr_demands r') j = map_option (\<lambda>st. if is_due now st then expired_state st else st) (dict_get (dr_demands r) j)"
    using expire_due_total [OF ok, of now] by blast
  have "\<forall>st\<in>set (active_demands r'). \<not> demand_is_expired (dx_demand st) now"
  proof
    fix st
    assume "st \<in> set (active_demands r')"
    then obtain j where "dict_get (dr_demands r') j = Some st" and serving: "state_is_serving st"
      using r'(2) by (auto simp: active_demands_def registry_ok_def in_dict_iff)
    with r'(3) [of j] obtain st0 where "st = (if is_due now st0 then expired_state st0 else st0)"
      by (cases "dict_get (dr_demands r) j") auto
    with serving show "\<not> demand_is_expired (dx_demand st) now"
      by (auto simp: state_is_serving_def demand_is_serving_def expired_state_def is_due_def demand_is_terminal_def split: if_splits)
  qed
  with r'(1) show "\<exists>r'. expire_due now r = Inr (filter (due_in now r) (sort (dict_keys (dr_demands r))), r')
        \<and> (\<forall>st\<in>set (active_demands r'). \<not> demand_is_expired (dx_demand st) now)" by blast
  show "revoke_demand i r = Inl (DemandNotFoundError i) \<and> i \<notin> set (dict_keys (dr_demands r))
        \<or> (\<exists>r' st. revoke_demand i r = Inr r' \<and> dict_get (dr_demands r') i = Some st \<and> demand_is_terminal (dx_status st))"
    unfolding revoke_demand_cases [OF ok] by (auto simp: dict_get_None_iff demand_is_terminal_def split: option.splits)
  show "\<forall>st\<in>set (active_demands r).
        da_satisfiable (dx_ack st) = filter (\<lambda>a. classifies (dr_capabilities r) a = None) (dd_required (dx_demand st))
        \<and> max (duration_ns (dr_min_freshness r)) (duration_ns (dd_freshness (dx_demand st))) \<le> duration_ns (da_effective (dx_ack st))"
    using held by (auto simp: demand_ok_def)
  show "\<forall>r' st. registry_step factory r r' \<and> dict_get (dr_demands r) i = Some st \<longrightarrow>
        (\<exists>st'. dict_get (dr_demands r') i = Some st' \<and> (dx_status st' = dx_status st
           \<or> demand_is_legal (dx_status st) (dx_status st')
           \<or> (\<exists>d now sustainable ack. register_demand factory d now sustainable r = Inr (ack, r') \<and> da_demand_id ack = i)))"
    using step_legal [OF _ ok] by blast
qed


section \<open>Examples\<close>

definition example_capabilities :: capability_view where
  "example_capabilities = \<lparr>cy_registered = [''helmet'', ''vest''], cy_producible = [''helmet''],
     cy_producible_classes = [], cy_observed_cameras = []\<rparr>"

definition example_demand :: "demand_id \<Rightarrow> string \<Rightarrow> int \<Rightarrow> demand" where
  "example_demand i who ms =
     \<lparr>dd_id = i, dd_subscriber = who, dd_scope = \<lparr>dc_sites = [], dc_cameras = [''cam-1''], dc_regions = []\<rparr>,
      dd_subject = \<lparr>sx_classes = [''person''], sx_lifecycle = [], sx_min_confidence = None\<rparr>,
      dd_required = [''helmet'', ''vest''], dd_freshness = duration_from_millis ms, dd_hints = [], dd_priority = [],
      dd_budget = \<lparr>db_max_calls_per_hour = None, db_max_cost_per_hour = None\<rparr>, dd_expires_at = Some (Instant 100),
      dd_registered_at = Instant 0, dd_labels = []\<rparr>"

definition example_factory :: "instant \<Rightarrow> demand_id" where
  "example_factory now = ''generated''"

definition example_registry :: demand_registry where
  "example_registry =
     (case register_demand example_factory (example_demand ''d1'' ''ann'' 2000) (Instant 5) None
             (demand_registry_init example_capabilities min_effective_freshness) of
        Inl e \<Rightarrow> demand_registry_init example_capabilities min_effective_freshness
      | Inr (ack, r) \<Rightarrow> r)"

lemmas demand_example_defs = example_registry_def example_demand_def example_capabilities_def example_factory_def
  demand_registry_init_def min_effective_freshness_def duration_from_millis_def

lemma example_register:
  "\<exists>ack. register_demand example_factory (example_demand ''d1'' ''ann'' 2000) (Instant 5) None
     (demand_registry_init example_capabilities min_effective_freshness) = Inr (ack, example_registry)
   \<and> dr_demands example_registry = [(''d1'', fresh_state (example_demand ''d1'' ''ann'' 2000) ''d1'' (Instant 5) ack)]
   \<and> da_satisfiable ack = [''helmet'']"
  by (simp add: register_demand_def demand_example_defs classifies_def effective_freshness_def mk_demand_def
      demand_check_transition_def demand_is_legal_def demand_allowed_def put_demand_def dict_set_def fresh_state_def Let_def)

lemma example_registry_reachable:
  "(registry_step example_factory)\<^sup>*\<^sup>* (demand_registry_init example_capabilities min_effective_freshness) example_registry"
proof -
  have "mk_demand (example_demand ''d1'' ''ann'' 2000) = Inr (example_demand ''d1'' ''ann'' 2000)"
    by (simp add: mk_demand_def example_demand_def duration_from_millis_def)
  with example_register show ?thesis by (auto intro: registry_step.register)
qed

theorem demand_registry_closed_witness:
  "\<exists>r'. expire_due (Instant 100) example_registry = Inr ([''d1''], r')
     \<and> (\<forall>st\<in>set (active_demands r'). \<not> demand_is_expired (dx_demand st) (Instant 100))"
proof -
  have "filter (due_in (Instant 100) example_registry) (sort (dict_keys (dr_demands example_registry))) = [''d1'']"
    using example_register
    by (auto simp: due_in_def is_due_def fresh_state_def demand_is_terminal_def demand_is_expired_def
        example_demand_def dict_get_def)
  with demand_registry_closed [OF example_registry_reachable, where now = "Instant 100"] show ?thesis
    by (metis (no_types, lifting))
qed

end
