(* ===== verification/Demand_Intake.thy ===== *)
theory Demand_Intake
  imports Demand_Registry Observation_Api
begin

text \<open>
  The demand intake of the API (\<^verbatim>\<open>vision_os/exposure/demands.py\<close>): registering, updating and
  revoking demands on behalf of a principal, their owners, their durable form, and restoring them
  after a restart. The store's file is the list of records last saved in it, present if the store has a
  path; the file system and the JSON text are left out. The authorizer and the id factory are
  parameters. An operation that raises returns the intake as it leaves it.
\<close>

section \<open>Durable records\<close>

record demand_record =
  rc_demand_id :: string
  rc_subscriber :: string
  rc_tenant :: string
  rc_sites :: "string list"
  rc_cameras :: "string list"
  rc_required :: "string list"
  rc_classes :: "string list"
  rc_freshness_ms :: int
  rc_registered_at_ns :: int
  rc_expires_at_ns :: "int option"

definition record_of :: "demand_state \<Rightarrow> tenant_id \<Rightarrow> demand_record" where
  "record_of st t =
     (let d = dx_demand st
      in \<lparr>rc_demand_id = dd_id d, rc_subscriber = dd_subscriber d, rc_tenant = t,
          rc_sites = dc_sites (dd_scope d), rc_cameras = dc_cameras (dd_scope d), rc_required = dd_required d,
          rc_classes = sx_classes (dd_subject d), rc_freshness_ms = duration_ns (dd_freshness d) div 1000000,
          rc_registered_at_ns = instant_ns (dx_activated_at st), rc_expires_at_ns = map_option instant_ns (dd_expires_at d)\<rparr>)"

definition demand_of :: "demand_record \<Rightarrow> demand option" where
  "demand_of rc =
     (case mk_demand
         \<lparr>dd_id = rc_demand_id rc, dd_subscriber = rc_subscriber rc,
          dd_scope = \<lparr>dc_sites = rc_sites rc, dc_cameras = rc_cameras rc, dc_regions = []\<rparr>,
          dd_subject = \<lparr>sx_classes = rc_classes rc, sx_lifecycle = [], sx_min_confidence = None\<rparr>,
          dd_required = rc_required rc, dd_freshness = duration_from_millis (rc_freshness_ms rc), dd_hints = [],
          dd_priority = [], dd_budget = \<lparr>db_max_calls_per_hour = None, db_max_cost_per_hour = None\<rparr>,
          dd_expires_at = map_option Instant (rc_expires_at_ns rc), dd_registered_at = Instant 0, dd_labels = []\<rparr> of
        Inl e \<Rightarrow> None
      | Inr d \<Rightarrow> Some d)"

section \<open>The intake\<close>

record demand_intake =
  di_registry :: demand_registry
  di_owners :: "(demand_id, tenant_id) dict"
  di_store :: "demand_record list option"
  di_audit :: audit_sink

record intake_env =
  ie_authorize :: "principal \<Rightarrow> action \<Rightarrow> scope \<Rightarrow> decision result"
  ie_factory :: "instant \<Rightarrow> demand_id"

definition intake_init :: "demand_registry \<Rightarrow> demand_record list option \<Rightarrow> audit_sink \<Rightarrow> demand_intake" where
  "intake_init r store k = \<lparr>di_registry = r, di_owners = [], di_store = store, di_audit = k\<rparr>"

definition intake_audit :: "instant \<Rightarrow> principal \<Rightarrow> bool \<Rightarrow> string \<Rightarrow> demand_intake \<Rightarrow> demand_intake" where
  "intake_audit now p granted resource n =
     n\<lparr>di_audit := sink_record
       \<lparr>au_at = now, au_principal = pr_subject p, au_tenant = pr_tenant p, au_action = REGISTER_DEMAND,
        au_resource = resource, au_granted = granted, au_purpose = []\<rparr> (di_audit n)\<rparr>"

definition intake_scope_of :: "principal \<Rightarrow> demand \<Rightarrow> scope" where
  "intake_scope_of p d =
     \<lparr>sc_tenant = pr_tenant p, sc_sites = dc_sites (dd_scope d), sc_cameras = dc_cameras (dd_scope d), sc_regions = []\<rparr>"

definition owner_of :: "demand_intake \<Rightarrow> demand_id \<Rightarrow> tenant_id" where
  "owner_of n i = (case dict_get (di_owners n) i of None \<Rightarrow> [] | Some t \<Rightarrow> t)"

definition intake_persist :: "demand_intake \<Rightarrow> demand_intake" where
  "intake_persist n =
     (case di_store n of
        None \<Rightarrow> n
      | Some saved \<Rightarrow>
          n\<lparr>di_store := Some (map (\<lambda>st. record_of st (owner_of n (dd_id (dx_demand st)))) (all_demands (di_registry n)))\<rparr>)"

definition intake_register ::
  "intake_env \<Rightarrow> instant \<Rightarrow> principal \<Rightarrow> demand \<Rightarrow> duration option \<Rightarrow> demand_intake
   \<Rightarrow> acknowledgement result \<times> demand_intake" where
  "intake_register e now p d sustainable n =
     (if dd_subscriber d \<noteq> pr_subject p then (Inl (ForbiddenError (pr_subject p)), n)
      else case ie_authorize e p REGISTER_DEMAND (intake_scope_of p d) of
             Inl err \<Rightarrow> (Inl err, n)
           | Inr decision \<Rightarrow>
               if denied decision then (Inl (ForbiddenError (pr_subject p)), intake_audit now p False [] n)
               else (case register_demand (ie_factory e) d now sustainable (di_registry n) of
                       Inl (DemandRejectedError i as) \<Rightarrow>
                         (Inl (DemandRejectedError i as), intake_audit now p True (dd_id d) n)
                     | Inl (DemandTransitionError s t) \<Rightarrow>
                         (Inl (DemandTransitionError s t), intake_audit now p True (dd_id d) n)
                     | Inl err \<Rightarrow> (Inl err, n)
                     | Inr (ack, r) \<Rightarrow>
                         (Inr ack, intake_persist (intake_audit now p True (dd_id d)
                            (n\<lparr>di_registry := r, di_owners := dict_set (dd_id d) (pr_tenant p) (di_owners n)\<rparr>)))))"

definition require_owner :: "principal \<Rightarrow> demand_id \<Rightarrow> demand_intake \<Rightarrow> unit result" where
  "require_owner p i n =
     (case dict_get (dr_demands (di_registry n)) i of
        None \<Rightarrow> Inl (ForbiddenError i)
      | Some st \<Rightarrow>
          if dd_subscriber (dx_demand st) \<noteq> pr_subject p \<or> dict_get (di_owners n) i \<noteq> Some (pr_tenant p)
          then Inl (ForbiddenError i) else Inr ())"

definition intake_update ::
  "intake_env \<Rightarrow> instant \<Rightarrow> principal \<Rightarrow> demand_id \<Rightarrow> demand \<Rightarrow> duration option \<Rightarrow> demand_intake
   \<Rightarrow> acknowledgement result \<times> demand_intake" where
  "intake_update e now p i d sustainable n =
     (case bind_result (require_owner p i n) (\<lambda>_. revoke_demand i (di_registry n)) of
        Inl err \<Rightarrow> (Inl err, n)
      | Inr r \<Rightarrow> intake_register e now p d sustainable (n\<lparr>di_registry := r\<rparr>))"

definition intake_revoke :: "instant \<Rightarrow> principal \<Rightarrow> demand_id \<Rightarrow> demand_intake \<Rightarrow> unit result \<times> demand_intake" where
  "intake_revoke now p i n =
     (case bind_result (require_owner p i n) (\<lambda>_. revoke_demand i (di_registry n)) of
        Inl err \<Rightarrow> (Inl err, n)
      | Inr r \<Rightarrow>
          (Inr (), intake_persist (intake_audit now p True i
             (n\<lparr>di_registry := r, di_owners := dict_del i (di_owners n)\<rparr>))))"

record demand_view =
  dv_demand_id :: demand_id
  dv_subscriber :: string
  dv_status :: string
  dv_required :: "attribute_key list"
  dv_effective :: duration
  dv_unsatisfiable :: "(attribute_key \<times> unsatisfiable_reason) list"

definition demand_view_of :: "demand_state \<Rightarrow> demand_view" where
  "demand_view_of st =
     \<lparr>dv_demand_id = dd_id (dx_demand st), dv_subscriber = dd_subscriber (dx_demand st),
      dv_status = demand_status_value (dx_status st), dv_required = dd_required (dx_demand st),
      dv_effective = dx_effective st, dv_unsatisfiable = da_unsatisfiable (dx_ack st)\<rparr>"

definition list_demands :: "principal \<Rightarrow> demand_intake \<Rightarrow> demand_view list" where
  "list_demands p n =
     map demand_view_of (filter (\<lambda>st. dict_get (di_owners n) (dd_id (dx_demand st)) = Some (pr_tenant p)
         \<and> dd_subscriber (dx_demand st) = pr_subject p) (all_demands (di_registry n)))"

text \<open>Restoring: a record that no longer makes a demand, or whose demand is rejected, is skipped.\<close>

fun restore_records ::
  "(instant \<Rightarrow> demand_id) \<Rightarrow> instant \<Rightarrow> demand_record list \<Rightarrow> int \<Rightarrow> demand_intake \<Rightarrow> int result \<times> demand_intake" where
  "restore_records factory now [] k n = (Inr k, n)"
| "restore_records factory now (rc # rcs) k n =
     (case demand_of rc of
        None \<Rightarrow> restore_records factory now rcs k n
      | Some d \<Rightarrow>
          (case register_demand factory d now None (di_registry n) of
             Inl (DemandRejectedError i as) \<Rightarrow> restore_records factory now rcs k n
           | Inl (DemandTransitionError s t) \<Rightarrow> restore_records factory now rcs k n
           | Inl err \<Rightarrow> (Inl err, n)
           | Inr (ack, r) \<Rightarrow>
               restore_records factory now rcs (k + 1)
                 (n\<lparr>di_registry := r, di_owners := dict_set (dd_id d) (rc_tenant rc) (di_owners n)\<rparr>)))"

definition intake_restore :: "intake_env \<Rightarrow> instant \<Rightarrow> demand_intake \<Rightarrow> int result \<times> demand_intake" where
  "intake_restore e now n =
     restore_records (ie_factory e) now (case di_store n of None \<Rightarrow> [] | Some saved \<Rightarrow> saved) 0 n"

section \<open>Ownership\<close>

lemma intake_persist_simps [simp]:
  "di_registry (intake_persist n) = di_registry n" "di_owners (intake_persist n) = di_owners n"
  by (simp_all add: intake_persist_def split: option.splits)

lemma intake_audit_simps [simp]:
  "di_registry (intake_audit now p g x n) = di_registry n" "di_owners (intake_audit now p g x n) = di_owners n"
  "di_store (intake_audit now p g x n) = di_store n"
  by (simp_all add: intake_audit_def)

lemma intake_register_Inr:
  assumes "intake_register e now p d sustainable n = (Inr ack, n')"
  shows "dd_subscriber d = pr_subject p
    \<and> register_demand (ie_factory e) d now sustainable (di_registry n) = Inr (ack, di_registry n')
    \<and> di_owners n' = dict_set (dd_id d) (pr_tenant p) (di_owners n)"
  using assms by (auto simp: intake_register_def split: if_splits sum.splits py_error.splits)

lemma register_stores:
  assumes "register_demand factory d now sustainable r = Inr (ack, r')"
  shows "\<exists>st. dict_get (dr_demands r') (da_demand_id ack) = Some st
    \<and> dx_demand st = d\<lparr>dd_id := da_demand_id ack, dd_registered_at := now\<rparr>
    \<and> dx_status st = (if da_satisfiable ack = [] then DEMAND_UNSATISFIABLE else DEMAND_ACTIVE)
    \<and> dx_effective st = da_effective ack"
    and "j \<noteq> da_demand_id ack \<Longrightarrow> dict_get (dr_demands r') j = dict_get (dr_demands r) j"
  using register_demand_Inr [OF assms]
  by (auto simp: mark_unsatisfiable_def result_simps fresh_state_def Let_def require_demand_Inr split: if_splits)

text \<open>
  C27: Demand ids are not protected. Whoever may register demands can register one under the id of
  another's demand: the registration succeeds as if the id were new, replaces the other demand, and
  moves the ownership, so that its owner can neither update nor revoke it. And a demand that is
  registered without an id is filed under a generated one but owned under the empty id, so nobody,
  its subscriber included, can update or revoke it.
\<close>

theorem demand_ids_are_not_owned:
  assumes "intake_register e now q d sustainable n = (Inr ack, n')"
  shows "(dd_id d \<noteq> [] \<and> (pr_subject p \<noteq> pr_subject q \<or> pr_tenant p \<noteq> pr_tenant q) \<longrightarrow>
      da_demand_id ack = dd_id d
      \<and> (\<exists>st. dict_get (dr_demands (di_registry n')) (dd_id d) = Some st \<and> dd_subscriber (dx_demand st) = pr_subject q)
      \<and> fst (intake_revoke t p (dd_id d) n') = Inl (ForbiddenError (dd_id d))
      \<and> fst (intake_update e t p (dd_id d) d' s' n') = Inl (ForbiddenError (dd_id d)))
    \<and> (dd_id d = [] \<and> ie_factory e now \<noteq> [] \<and> dict_get (di_owners n) (ie_factory e now) = None \<longrightarrow>
      dict_get (dr_demands (di_registry n')) (da_demand_id ack) \<noteq> None
      \<and> fst (intake_revoke t p (da_demand_id ack) n') = Inl (ForbiddenError (da_demand_id ack))
      \<and> fst (intake_update e t p (da_demand_id ack) d' s' n') = Inl (ForbiddenError (da_demand_id ack)))"
proof -
  note reg = intake_register_Inr [OF assms]
  then have r: "register_demand (ie_factory e) d now sustainable (di_registry n) = Inr (ack, di_registry n')" by blast
  note stored = register_stores(1) [OF r] and id = register_demand_Inr [OF r]
  from reg stored id show ?thesis
    by (auto simp: intake_revoke_def intake_update_def require_owner_def dict_simps)
qed

section \<open>Restarts\<close>

text \<open>What a demand is after it was written and read back: whole milliseconds, and no more than the record holds.\<close>

definition reloaded :: "demand \<Rightarrow> demand" where
  "reloaded d =
     \<lparr>dd_id = dd_id d, dd_subscriber = dd_subscriber d,
      dd_scope = \<lparr>dc_sites = dc_sites (dd_scope d), dc_cameras = dc_cameras (dd_scope d), dc_regions = []\<rparr>,
      dd_subject = \<lparr>sx_classes = sx_classes (dd_subject d), sx_lifecycle = [], sx_min_confidence = None\<rparr>,
      dd_required = dd_required d, dd_freshness = duration_from_millis (duration_ns (dd_freshness d) div 1000000),
      dd_hints = [], dd_priority = [], dd_budget = \<lparr>db_max_calls_per_hour = None, db_max_cost_per_hour = None\<rparr>,
      dd_expires_at = dd_expires_at d, dd_registered_at = Instant 0, dd_labels = []\<rparr>"

lemma reloaded_simps [simp]:
  "dd_id (reloaded d) = dd_id d" "dd_required (reloaded d) = dd_required d"
  "(reloaded d)\<lparr>dd_id := dd_id d, dd_registered_at := now\<rparr> = (reloaded d)\<lparr>dd_registered_at := now\<rparr>"
  by (simp_all add: reloaded_def)

lemma rc_tenant_record_of [simp]: "rc_tenant (record_of st t) = t"
  by (simp add: record_of_def Let_def)

lemma demand_of_record_of:
  "mk_demand (dx_demand st) = Inr (dx_demand st) \<Longrightarrow>
   demand_of (record_of st t) = (if duration_ns (dd_freshness (dx_demand st)) < 1000000 then None else Some (reloaded (dx_demand st)))"
  by (auto simp: demand_of_def record_of_def reloaded_def mk_demand_def Let_def duration_from_millis_def option.map_comp
      comp_def option.map_ident split: if_splits)

lemma classified_if_registered:
  "length (filter (\<lambda>a. a \<notin> R) as) = length as \<Longrightarrow> a \<in> set as \<Longrightarrow> a \<notin> R"
  by (metis length_filter_less less_irrefl)

lemma register_demand_total:
  assumes "mk_demand d = Inr d" and "\<exists>a\<in>set (dd_required d). a \<in> set (cy_registered (dr_capabilities r))"
  shows "\<exists>ack r'. register_demand factory d now sustainable r = Inr (ack, r')
    \<and> dr_capabilities r' = dr_capabilities r \<and> dr_min_freshness r' = dr_min_freshness r"
proof -
  have "length (filter (\<lambda>a. a \<notin> set (cy_registered (dr_capabilities r))) (dd_required d)) \<noteq> length (dd_required d)"
    using assms(2) classified_if_registered by metis
  moreover have "mk_demand (d\<lparr>dd_id := i, dd_registered_at := now\<rparr>) = Inr (d\<lparr>dd_id := i, dd_registered_at := now\<rparr>)" for i
    using assms(1) by (auto simp: mk_demand_def split: if_splits)
  ultimately show ?thesis
    unfolding register_demand_def classify_all_eq Let_def prod.case append_Nil unregistered_eq
    by (auto simp: demand_check_transition_def demand_is_legal_def demand_allowed_def mark_unsatisfiable_def
        require_demand_def Let_def)
qed

definition restorable :: "demand_registry \<Rightarrow> demand_state \<Rightarrow> bool" where
  "restorable r st \<longleftrightarrow> mk_demand (dx_demand st) = Inr (dx_demand st) \<and> dd_id (dx_demand st) \<noteq> []
     \<and> (\<exists>a\<in>set (dd_required (dx_demand st)). a \<in> set (cy_registered (dr_capabilities r)))"

definition restored :: "demand_registry \<Rightarrow> instant \<Rightarrow> demand \<Rightarrow> demand_state \<Rightarrow> bool" where
  "restored r now d st \<longleftrightarrow> dx_demand st = (reloaded d)\<lparr>dd_registered_at := now\<rparr>
     \<and> dx_status st = (if \<exists>a\<in>set (dd_required d). classifies (dr_capabilities r) a = None then DEMAND_ACTIVE else DEMAND_UNSATISFIABLE)
     \<and> dx_effective st = effective_freshness r (dd_freshness (reloaded d)) None"

definition durable :: "demand_state \<Rightarrow> bool" where
  "durable st \<longleftrightarrow> duration_ns (dd_freshness (dx_demand st)) \<ge> 1000000"

abbreviation state_id :: "demand_state \<Rightarrow> demand_id" where
  "state_id st \<equiv> dd_id (dx_demand st)"

definition refiled :: "demand_registry \<Rightarrow> instant \<Rightarrow> (demand_id \<Rightarrow> tenant_id) \<Rightarrow> demand_state \<Rightarrow> demand_intake \<Rightarrow> bool" where
  "refiled r now ow st n \<longleftrightarrow>
     (\<exists>st'. dict_get (dr_demands (di_registry n)) (state_id st) = Some st' \<and> restored r now (dx_demand st) st')
     \<and> dict_get (di_owners n) (state_id st) = Some (ow (state_id st))"

definition agree_at :: "demand_intake \<Rightarrow> demand_intake \<Rightarrow> demand_id \<Rightarrow> bool" where
  "agree_at n m i \<longleftrightarrow> dict_get (dr_demands (di_registry n)) i = dict_get (dr_demands (di_registry m)) i
     \<and> dict_get (di_owners n) i = dict_get (di_owners m) i"

text \<open>Restoring the records of states with distinct ids files each state that is at least a millisecond fresh.\<close>

lemma restore_records_of:
  assumes "\<forall>st\<in>set sts. restorable (di_registry n) st" and "distinct (map state_id sts)"
  shows "\<exists>n'. restore_records factory now (map (\<lambda>st. record_of st (ow (state_id st))) sts) k n =
      (Inr (k + int (length (filter durable sts))), n')
    \<and> (\<forall>st\<in>set (filter durable sts). refiled (di_registry n) now ow st n')
    \<and> (\<forall>i. i \<notin> state_id ` set (filter durable sts) \<longrightarrow> agree_at n' n i)"
  using assms
proof (induction sts arbitrary: n k)
  case Nil
  then show ?case by (simp add: agree_at_def)
next
  case (Cons st sts)
  have ok: "restorable (di_registry n) st" using Cons.prems(1) by simp
  then have rec: "demand_of (record_of st t) = (if durable st then Some (reloaded (dx_demand st)) else None)" for t
    by (subst demand_of_record_of) (auto simp add: restorable_def durable_def)
  show ?case
  proof (cases "durable st")
    case False
    with Cons.IH [of n k] Cons.prems rec show ?thesis by simp
  next
    case True
    have "mk_demand (reloaded (dx_demand st)) = Inr (reloaded (dx_demand st))"
      "\<exists>a\<in>set (dd_required (reloaded (dx_demand st))). a \<in> set (cy_registered (dr_capabilities (di_registry n)))"
      using ok True by (auto simp: restorable_def durable_def mk_demand_def reloaded_def duration_from_millis_def split: if_splits)
    from register_demand_total [OF this, of factory now None] obtain ack r' where
      reg: "register_demand factory (reloaded (dx_demand st)) now None (di_registry n) = Inr (ack, r')"
      and frame: "dr_capabilities r' = dr_capabilities (di_registry n)" "dr_min_freshness r' = dr_min_freshness (di_registry n)"
      by blast
    let ?n = "n\<lparr>di_registry := r', di_owners := dict_set (state_id st) (ow (state_id st)) (di_owners n)\<rparr>"
    have i: "dd_id (reloaded (dx_demand st)) = state_id st" "da_demand_id ack = state_id st"
      using register_demand_Inr [OF reg] ok by (auto simp: reloaded_def restorable_def)
    have sat: "da_satisfiable ack = filter (\<lambda>a. classifies (dr_capabilities (di_registry n)) a = None) (dd_required (dx_demand st))"
      "da_effective ack = effective_freshness (di_registry n) (dd_freshness (reloaded (dx_demand st))) None"
      using register_demand_Inr [OF reg] by auto
    have here: "refiled (di_registry n) now ow st ?n"
      using register_stores(1) [OF reg]
      by (auto simp: i sat restored_def refiled_def filter_empty_conv dict_simps)
    have there: "j \<noteq> state_id st \<Longrightarrow> agree_at ?n n j" for j
      using register_stores(2) [OF reg, of j] by (simp add: agree_at_def i dict_simps)
    have "refiled r' = refiled (di_registry n)" "restorable r' = restorable (di_registry n)"
      by (intro ext, simp add: refiled_def restored_def restorable_def effective_freshness_def frame)+
    with Cons.IH [of ?n "k + 1"] Cons.prems obtain n' where
      n': "restore_records factory now (map (\<lambda>st. record_of st (ow (state_id st))) sts) (k + 1) ?n =
          (Inr (k + 1 + int (length (filter durable sts))), n')"
      "\<forall>st\<in>set (filter durable sts). refiled (di_registry n) now ow st n'"
      "\<forall>i. i \<notin> state_id ` set (filter durable sts) \<longrightarrow> agree_at n' ?n i"
      by auto
    have "state_id st \<notin> state_id ` set (filter durable sts)" using Cons.prems(2) by auto
    with n'(3) have "agree_at n' ?n (state_id st)" by blast
    with here have "refiled (di_registry n) now ow st n'" by (simp add: refiled_def agree_at_def)
    moreover have "restore_records factory now (map (\<lambda>st. record_of st (ow (state_id st))) (st # sts)) k n =
        (Inr (k + 1 + int (length (filter durable sts))), n')"
      using n'(1) True by (simp add: rec reg i)
    moreover have "agree_at n' n j" if "j \<noteq> state_id st" "j \<notin> state_id ` set (filter durable sts)" for j
      using n'(3) there [of j] that by (auto simp: agree_at_def)
    ultimately show ?thesis using n'(2) True by auto
  qed
qed


lemma all_demands_iff:
  assumes "registry_ok r"
  shows "st \<in> set (all_demands r) \<longleftrightarrow> dict_get (dr_demands r) (state_id st) = Some st"
proof -
  have "st \<in> set (all_demands r) \<longleftrightarrow> (\<exists>i. dict_get (dr_demands r) i = Some st)"
    using assms by (auto simp: all_demands_def registry_ok_def in_dict_iff) (force simp: in_dict_iff [symmetric])
  moreover have "dict_get (dr_demands r) i = Some st \<Longrightarrow> state_id st = i" for i
    using assms by (simp add: registry_ok_def demand_ok_def)
  ultimately show ?thesis by blast
qed

lemma all_demands_ids:
  assumes "registry_ok r"
  shows "map state_id (all_demands r) = dict_keys (sorted_items (dr_demands r))"
proof -
  have "p \<in> set (sorted_items (dr_demands r)) \<Longrightarrow> state_id (snd p) = fst p" for p
    using assms by (cases p) (simp add: sorted_items_def registry_ok_def in_dict_iff demand_ok_def)
  then show ?thesis by (simp add: all_demands_def sorted_values_def)
qed

lemma all_demands_distinct: "registry_ok r \<Longrightarrow> distinct (map state_id (all_demands r))"
  using wf_dict_sorted_items [of "dr_demands r"] by (simp only: all_demands_ids) (simp only: registry_ok_def wf_dict_def)

text \<open>A restart: the registry is empty again, the file is what it was.\<close>

definition restart :: "intake_env \<Rightarrow> instant \<Rightarrow> demand_intake \<Rightarrow> int result \<times> demand_intake" where
  "restart e now n =
     intake_restore e now (intake_init (demand_registry_init (dr_capabilities (di_registry n)) (dr_min_freshness (di_registry n)))
       (di_store n) (di_audit n))"

text \<open>
  C16: A restart restores every demand, whatever became of it. After the intake has persisted a reachable
  registry, restarting files again exactly the demands whose freshness is at least a millisecond,
  under their ids and owners, as their durable record describes them (whole milliseconds, no regions,
  lifecycles, confidence, priority, hints, budget or labels), and activates each that has a
  producible attribute: revoked and expired demands come back active.
\<close>

theorem restart_revives_every_demand:
  assumes "(registry_step factory)\<^sup>*\<^sup>* (demand_registry_init v d) (di_registry n)"
    and "[] \<notin> set (dict_keys (dr_demands (di_registry n)))" and "di_store n = Some saved"
  shows "\<exists>n'. restart e now (intake_persist n) = (Inr (int (length (filter durable (all_demands (di_registry n))))), n')
    \<and> (\<forall>i st. dict_get (dr_demands (di_registry n)) i = Some st \<longrightarrow>
         (if durable st
          then (\<exists>st'. dict_get (dr_demands (di_registry n')) i = Some st'
                \<and> dx_demand st' = (reloaded (dx_demand st))\<lparr>dd_registered_at := now\<rparr>
                \<and> dx_status st' = (if \<exists>a\<in>set (dd_required (dx_demand st)). classifies (dr_capabilities (di_registry n)) a = None
                                   then DEMAND_ACTIVE else DEMAND_UNSATISFIABLE))
               \<and> dict_get (di_owners n') i = Some (owner_of n i)
          else dict_get (dr_demands (di_registry n')) i = None))
    \<and> set (dict_keys (dr_demands (di_registry n'))) \<subseteq> set (dict_keys (dr_demands (di_registry n)))"
proof -
  have ok: "registry_ok (di_registry n)" by (rule registry_reachable_ok [OF assms(1)])
  let ?sts = "all_demands (di_registry n)"
  let ?r0 = "demand_registry_init (dr_capabilities (di_registry n)) (dr_min_freshness (di_registry n))"
  let ?n0 = "intake_init ?r0 (di_store (intake_persist n)) (di_audit (intake_persist n))"
  have "\<forall>st\<in>set ?sts. restorable (di_registry ?n0) st"
  proof
    fix st
    assume "st \<in> set ?sts"
    then have st: "dict_get (dr_demands (di_registry n)) (state_id st) = Some st" using all_demands_iff [OF ok] by blast
    then have "state_id st \<noteq> []" using assms(2) by (auto dest: dict_get_Some_in intro: rev_image_eqI)
    moreover have "demand_ok (di_registry n) (state_id st) st" using ok st by (simp add: registry_ok_def)
    ultimately show "restorable (di_registry ?n0) st"
      by (simp add: restorable_def demand_ok_def intake_init_def demand_registry_init_def)
  qed
  from restore_records_of [OF this all_demands_distinct [OF ok], of "ie_factory e" now "owner_of n" 0]
  obtain n' where n':
    "restore_records (ie_factory e) now (map (\<lambda>st. record_of st (owner_of n (state_id st))) ?sts) 0 ?n0 =
      (Inr (0 + int (length (filter durable ?sts))), n')"
    "\<forall>st\<in>set (filter durable ?sts). refiled (di_registry ?n0) now (owner_of n) st n'"
    "\<forall>i. i \<notin> state_id ` set (filter durable ?sts) \<longrightarrow> agree_at n' ?n0 i"
    by (elim exE conjE)
  have restart: "restart e now (intake_persist n) = (Inr (int (length (filter durable ?sts))), n')"
    using n'(1) by (simp add: restart_def intake_restore_def intake_init_def intake_persist_def assms(3))
  have empty: "dict_get (dr_demands (di_registry n')) i = None" if "i \<notin> state_id ` set (filter durable ?sts)" for i
    using n'(3) that by (simp add: agree_at_def intake_init_def demand_registry_init_def)
  have filed: "\<exists>st'. dict_get (dr_demands (di_registry n')) i = Some st'
                \<and> dx_demand st' = (reloaded (dx_demand st))\<lparr>dd_registered_at := now\<rparr>
                \<and> dx_status st' = (if \<exists>a\<in>set (dd_required (dx_demand st)). classifies (dr_capabilities (di_registry n)) a = None
                                   then DEMAND_ACTIVE else DEMAND_UNSATISFIABLE)"
      "dict_get (di_owners n') i = Some (owner_of n i)"
    if "dict_get (dr_demands (di_registry n)) i = Some st" "durable st" for i st
  proof -
    have i: "state_id st = i" using ok that by (simp add: registry_ok_def demand_ok_def)
    with that n'(2) all_demands_iff [OF ok] have "refiled (di_registry ?n0) now (owner_of n) st n'" by auto
    then show "\<exists>st'. dict_get (dr_demands (di_registry n')) i = Some st'
                \<and> dx_demand st' = (reloaded (dx_demand st))\<lparr>dd_registered_at := now\<rparr>
                \<and> dx_status st' = (if \<exists>a\<in>set (dd_required (dx_demand st)). classifies (dr_capabilities (di_registry n)) a = None
                                   then DEMAND_ACTIVE else DEMAND_UNSATISFIABLE)"
      and "dict_get (di_owners n') i = Some (owner_of n i)"
      by (auto simp: refiled_def restored_def intake_init_def demand_registry_init_def i)
  qed
  have lost: "dict_get (dr_demands (di_registry n')) i = None"
    if "dict_get (dr_demands (di_registry n)) i = Some st" "\<not> durable st" for i st
  proof (rule empty)
    show "i \<notin> state_id ` set (filter durable ?sts)"
      using that all_demands_iff [OF ok] by auto
  qed
  have "set (dict_keys (dr_demands (di_registry n'))) \<subseteq> set (dict_keys (dr_demands (di_registry n)))"
  proof
    fix i
    assume "i \<in> set (dict_keys (dr_demands (di_registry n')))"
    then have "i \<in> set (map state_id ?sts)"
      using empty [of i] by (auto simp: dict_get_None_iff)
    then show "i \<in> set (dict_keys (dr_demands (di_registry n)))"
      unfolding all_demands_ids [OF ok] by (simp add: sorted_items_def)
  qed
  with restart filed lost show ?thesis
    by (intro exI [of _ n'] conjI allI impI) simp_all
qed


section \<open>Examples\<close>

definition example_intake_env :: intake_env where
  "example_intake_env =
     \<lparr>ie_authorize = (\<lambda>p a s. mk_decision \<lparr>de_granted = True, de_scope = s, de_reason = []\<rparr>),
      ie_factory = example_factory\<rparr>"

definition example_intake :: demand_intake where
  "example_intake = (intake_init example_registry (Some []) sample_sink)\<lparr>di_owners := [(''d1'', ''acme'')]\<rparr>"

definition revoked_registry :: demand_registry where
  "revoked_registry = (case revoke_demand ''d1'' example_registry of Inl e \<Rightarrow> example_registry | Inr r \<Rightarrow> r)"

lemma example_registry_simps:
  "dr_capabilities example_registry = example_capabilities"
  "\<exists>st. dict_get (dr_demands example_registry) ''d1'' = Some st \<and> dx_status st = DEMAND_ACTIVE
     \<and> dx_demand st = (example_demand ''d1'' ''ann'' 2000)\<lparr>dd_registered_at := Instant 5\<rparr>"
  "dict_keys (dr_demands example_registry) = [''d1'']"
proof -
  obtain ack where "register_demand example_factory (example_demand ''d1'' ''ann'' 2000) (Instant 5) None
      (demand_registry_init example_capabilities min_effective_freshness) = Inr (ack, example_registry)"
    and demands: "dr_demands example_registry = [(''d1'', fresh_state (example_demand ''d1'' ''ann'' 2000) ''d1'' (Instant 5) ack)]"
    and "da_satisfiable ack = [''helmet'']"
    using example_register by blast
  note reg = this
  from register_demand_Inr [OF reg(1)] reg(3)
  obtain i st where "example_registry = put_demand i st (demand_registry_init example_capabilities min_effective_freshness)"
    by auto
  then have "dr_capabilities example_registry = dr_capabilities (demand_registry_init example_capabilities min_effective_freshness)"
    by (metis put_demand_simps(1))
  then show "dr_capabilities example_registry = example_capabilities"
    by (simp add: demand_registry_init_def)
  from demands show "\<exists>st. dict_get (dr_demands example_registry) ''d1'' = Some st \<and> dx_status st = DEMAND_ACTIVE
     \<and> dx_demand st = (example_demand ''d1'' ''ann'' 2000)\<lparr>dd_registered_at := Instant 5\<rparr>"
    "dict_keys (dr_demands example_registry) = [''d1'']"
    by (simp_all add: dict_get_def fresh_state_def example_demand_def)
qed

theorem demand_ids_are_not_owned_witness:
  "let eve = sample_principal ''eve'' ''other''; ann = sample_principal ''ann'' ''acme'';
       (out, n') = intake_register example_intake_env (Instant 7) eve (example_demand ''d1'' ''eve'' 2000) None example_intake
   in \<not> raises out \<and> fst (intake_revoke (Instant 8) ann ''d1'' n') = Inl (ForbiddenError ''d1'')
     \<and> fst (intake_revoke (Instant 8) ann ''d1'' example_intake) = Inr ()"
proof -
  let ?d = "example_demand ''d1'' ''eve'' 2000" and ?eve = "sample_principal ''eve'' ''other''"
  have "mk_demand ?d = Inr ?d" "\<exists>a\<in>set (dd_required ?d). a \<in> set (cy_registered (dr_capabilities example_registry))"
    by (auto simp: mk_demand_def example_demand_def duration_from_millis_def example_registry_simps example_capabilities_def)
  from register_demand_total [OF this] obtain ack r' where
    r: "register_demand example_factory ?d (Instant 7) None example_registry = Inr (ack, r')" by blast
  then obtain n' where reg: "intake_register example_intake_env (Instant 7) ?eve ?d None example_intake = (Inr ack, n')"
    by (simp add: intake_register_def example_intake_env_def mk_decision_def denied_def example_intake_def intake_init_def
        sample_principal_def example_demand_def)
  have "fst (intake_revoke (Instant 8) (sample_principal ''ann'' ''acme'') ''d1'' n') = Inl (ForbiddenError ''d1'')"
    using demand_ids_are_not_owned [OF reg, of "sample_principal ''ann'' ''acme''"]
    by (simp add: example_demand_def sample_principal_def)
  moreover have "fst (intake_revoke (Instant 8) (sample_principal ''ann'' ''acme'') ''d1'' example_intake) = Inr ()"
    using example_registry_simps(2) registry_reachable_ok [OF example_registry_reachable]
    by (auto simp: intake_revoke_def require_owner_def example_intake_def intake_init_def revoke_demand_cases
        sample_principal_def example_demand_def dict_get_def)
  ultimately show ?thesis by (simp add: reg)
qed

lemma revoked_registry_simps:
  "(registry_step example_factory)\<^sup>*\<^sup>* (demand_registry_init example_capabilities min_effective_freshness) revoked_registry"
  "dict_keys (dr_demands revoked_registry) = [''d1'']"
  "\<exists>st. dict_get (dr_demands revoked_registry) ''d1'' = Some st \<and> dx_status st = DEMAND_REVOKED
     \<and> dx_demand st = (example_demand ''d1'' ''ann'' 2000)\<lparr>dd_registered_at := Instant 5\<rparr>"
  "dr_capabilities revoked_registry = example_capabilities"
proof -
  obtain st where st: "dict_get (dr_demands example_registry) ''d1'' = Some st" "dx_status st = DEMAND_ACTIVE"
     "dx_demand st = (example_demand ''d1'' ''ann'' 2000)\<lparr>dd_registered_at := Instant 5\<rparr>"
    using example_registry_simps(2) by blast
  then have rev: "revoke_demand ''d1'' example_registry = Inr (put_demand ''d1'' (st\<lparr>dx_status := DEMAND_REVOKED\<rparr>) example_registry)"
    using revoke_demand_cases [OF registry_reachable_ok [OF example_registry_reachable]]
    by (simp add: demand_is_terminal_def)
  then have "registry_step example_factory example_registry revoked_registry"
    by (auto simp: revoked_registry_def intro: registry_step.revoke)
  with example_registry_reachable show "(registry_step example_factory)\<^sup>*\<^sup>*
      (demand_registry_init example_capabilities min_effective_freshness) revoked_registry"
    by (rule rtranclp.rtrancl_into_rtrancl)
  show "dict_keys (dr_demands revoked_registry) = [''d1'']"
    "\<exists>st. dict_get (dr_demands revoked_registry) ''d1'' = Some st \<and> dx_status st = DEMAND_REVOKED
     \<and> dx_demand st = (example_demand ''d1'' ''ann'' 2000)\<lparr>dd_registered_at := Instant 5\<rparr>"
    "dr_capabilities revoked_registry = example_capabilities"
    using rev st example_registry_simps by (simp_all add: revoked_registry_def)
qed

theorem restart_revives_every_demand_witness:
  "\<exists>n' st. restart example_intake_env (Instant 9) (intake_persist (example_intake\<lparr>di_registry := revoked_registry\<rparr>)) = (Inr 1, n')
     \<and> dict_get (dr_demands (di_registry n')) ''d1'' = Some st \<and> dx_status st = DEMAND_ACTIVE"
proof -
  obtain st where st: "dict_get (dr_demands revoked_registry) ''d1'' = Some st"
    "dx_demand st = (example_demand ''d1'' ''ann'' 2000)\<lparr>dd_registered_at := Instant 5\<rparr>"
    using revoked_registry_simps(3) by blast
  then have fresh: "durable st" "\<exists>a\<in>set (dd_required (dx_demand st)). classifies example_capabilities a = None"
    by (simp_all add: durable_def example_demand_def duration_from_millis_def classifies_def example_capabilities_def)
  have ok: "registry_ok revoked_registry" by (rule registry_reachable_ok [OF revoked_registry_simps(1)])
  have "map state_id (all_demands revoked_registry) = [''d1'']"
    unfolding all_demands_ids [OF ok] using revoked_registry_simps(2) by (auto simp: sorted_items_def)
  moreover have "st \<in> set (all_demands revoked_registry)"
    using st by (simp add: all_demands_iff [OF ok] example_demand_def)
  ultimately have "all_demands revoked_registry = [st]"
    by (cases "all_demands revoked_registry") auto
  then have one: "length (filter durable (all_demands revoked_registry)) = 1" using fresh(1) by simp
  let ?n = "example_intake\<lparr>di_registry := revoked_registry\<rparr>"
  have "(registry_step example_factory)\<^sup>*\<^sup>* (demand_registry_init example_capabilities min_effective_freshness) (di_registry ?n)"
    "[] \<notin> set (dict_keys (dr_demands (di_registry ?n)))" "di_store ?n = Some []"
    using revoked_registry_simps(1,2) by (auto simp: example_intake_def intake_init_def)
  from restart_revives_every_demand [OF this, of example_intake_env "Instant 9"]
  obtain n' where run: "restart example_intake_env (Instant 9) (intake_persist ?n) =
      (Inr (int (length (filter durable (all_demands (di_registry ?n))))), n')"
    and all: "\<forall>i st. dict_get (dr_demands (di_registry ?n)) i = Some st \<longrightarrow>
         (if durable st
          then (\<exists>st'. dict_get (dr_demands (di_registry n')) i = Some st'
                \<and> dx_demand st' = (reloaded (dx_demand st))\<lparr>dd_registered_at := Instant 9\<rparr>
                \<and> dx_status st' = (if \<exists>a\<in>set (dd_required (dx_demand st)). classifies (dr_capabilities (di_registry ?n)) a = None
                                   then DEMAND_ACTIVE else DEMAND_UNSATISFIABLE))
               \<and> dict_get (di_owners n') i = Some (owner_of ?n i)
          else dict_get (dr_demands (di_registry n')) i = None)"
    by (elim exE conjE)
  from all [rule_format, of "''d1''" st] st(1) fresh revoked_registry_simps(4)
  obtain st' where "dict_get (dr_demands (di_registry n')) ''d1'' = Some st'" "dx_status st' = DEMAND_ACTIVE"
    by (auto split: if_splits)
  with run one show ?thesis by auto
qed

end
