(* ===== verification/Lru_Cache.thy ===== *)
theory Lru_Cache
  imports Prelude
begin

text \<open>
  What the platform's bounded caches share: an ordered dictionary whose end is the most recent
  entry, and the loop that evicts from its front. The locale \<open>lru_cache\<close> is the contract of a cache
  of this kind; it is interpreted on the crop deduplication cache and on the understanding cache.
\<close>

text \<open>\<^verbatim>\<open>while len(d) > capacity: d.popitem(last=False)\<close>, with the number of entries evicted.\<close>

fun evict_loop :: "int \<Rightarrow> ('k, 'v) dict \<Rightarrow> int \<Rightarrow> ('k, 'v) dict \<times> int" where
  "evict_loop n [] k = ([], k)"
| "evict_loop n (e # d) k = (if int (length (e # d)) > n then evict_loop n d (k + 1) else (e # d, k))"

definition touch :: "'k \<Rightarrow> 'v \<Rightarrow> ('k, 'v) dict \<Rightarrow> ('k, 'v) dict" where
  "touch k v d = dict_del k d @ [(k, v)]"

lemma evict_loop_eq:
  "0 \<le> n \<Longrightarrow> evict_loop n d k = (drop (length d - nat n) d, k + int (length d - nat n))"
proof (induction d arbitrary: k)
  case (Cons e d)
  show ?case
  proof (cases "int (length (e # d)) > n")
    case True
    with Cons.prems have "length (e # d) - nat n = Suc (length d - nat n)" by (simp add: nat_le_iff Suc_diff_le)
    with True Cons show ?thesis by simp
  next
    case False
    then have "length (e # d) - nat n = 0" by simp
    with False show ?thesis by simp
  qed
qed simp

lemma move_to_end_set: "move_to_end k (dict_set k v d) = touch k v d"
proof -
  have "AList.delete k (AList.update k v d) = AList.delete k d"
    by (induction d) (auto simp: AList.delete_eq)
  moreover have "map_of (AList.update k v d) k = Some v"
    by (simp add: update_conv)
  ultimately show ?thesis
    by (simp add: move_to_end_def touch_def dict_set_def dict_del_def)
qed

lemma move_to_end_held: "dict_get d k = Some v \<Longrightarrow> move_to_end k d = touch k v d"
  by (simp add: move_to_end_def touch_def dict_get_def dict_del_def)

lemma wf_touch [simp]: "wf_dict d \<Longrightarrow> wf_dict (touch k v d)"
  by (auto simp: touch_def wf_dict_def dict_simps)

lemma keys_touch: "dict_keys (touch k v d) = filter (\<lambda>j. j \<noteq> k) (dict_keys d) @ [k]"
  by (simp add: touch_def dict_keys_del)

lemma dict_get_touch: "dict_get (touch k v d) j = (if j = k then Some v else dict_get d j)"
  by (auto simp: touch_def dict_get_def map_add_def dict_del_def delete_conv split: option.splits)

lemma dict_get_key: "dict_get d k = Some v \<Longrightarrow> k \<in> set (dict_keys d)"
  by (auto dest: dict_get_Some_in intro: rev_image_eqI)

lemma length_touch_held: "wf_dict d \<Longrightarrow> dict_get d k = Some v \<Longrightarrow> length (touch k w d) = length d"
  using length_dict_del [OF _ dict_get_key, of d k v] by (simp add: touch_def)

lemma wf_drop [simp]: "wf_dict d \<Longrightarrow> wf_dict (drop n d)"
  by (simp add: wf_dict_def drop_map [symmetric] distinct_drop)

text \<open>The entries more recent than a key.\<close>

definition newer :: "'k \<Rightarrow> ('k, 'v) dict \<Rightarrow> 'k list" where
  "newer k d = tl (dropWhile (\<lambda>j. j \<noteq> k) (dict_keys d))"

lemma newer_split: "dict_keys d = as @ k # bs \<Longrightarrow> k \<notin> set as \<Longrightarrow> newer k d = bs"
proof -
  assume "k \<notin> set as" and keys: "dict_keys d = as @ k # bs"
  then have "\<And>x. x \<in> set as \<Longrightarrow> x \<noteq> k" by auto
  then show ?thesis by (simp add: newer_def keys dropWhile_append2)
qed

lemma held_split:
  assumes "wf_dict d" and "k \<in> set (dict_keys d)"
  obtains as bs where "dict_keys d = as @ k # bs" "k \<notin> set as" "k \<notin> set bs" "newer k d = bs"
proof -
  from assms(2) obtain as bs where split: "dict_keys d = as @ k # bs" by (meson split_list)
  with assms(1) have "k \<notin> set as" "k \<notin> set bs" by (auto simp: wf_dict_def)
  with split show thesis using newer_split [OF split] that by blast
qed

text \<open>Truncation from the front keeps a key that has fewer than \<open>n\<close> newer ones.\<close>

lemma held_after_drop:
  assumes "wf_dict d" and "dict_get d k = Some v" and "length (newer k d) < n"
  shows "dict_get (drop (length d - n) d) k = Some v" and "newer k (drop (length d - n) d) = newer k d"
proof -
  have "k \<in> set (dict_keys d)" using assms(2) by (auto dest: dict_get_Some_in intro: rev_image_eqI)
  then obtain as bs where split: "dict_keys d = as @ k # bs" "k \<notin> set as" "k \<notin> set bs" "newer k d = bs"
    by (rule held_split [OF assms(1)])
  let ?m = "length d - n"
  have "length d = length as + 1 + length bs" using arg_cong [OF split(1), of length] by simp
  with assms(3) split(4) have "?m \<le> length as" by simp
  then have keys: "dict_keys (drop ?m d) = drop ?m as @ k # bs"
    by (simp add: drop_map [symmetric] split(1))
  with split(2,4) show "newer k (drop ?m d) = newer k d"
    using newer_split [OF keys] by (auto dest: in_set_dropD)
  have "k \<in> set (dict_keys (drop ?m d))" unfolding keys by simp
  then obtain w where w: "(k, w) \<in> set (drop ?m d)" by auto
  then have "(k, w) \<in> set d" by (rule in_set_dropD)
  with assms(1,2) have "w = v" by (simp add: in_dict_iff)
  with w assms(1) show "dict_get (drop ?m d) k = Some v" by (simp add: in_dict_iff)
qed

lemma newer_touch_other:
  assumes "wf_dict d" and "k \<in> set (dict_keys d)" and "j \<noteq> k"
  shows "newer k (touch j w d) = filter (\<lambda>i. i \<noteq> j) (newer k d) @ [j]"
proof -
  obtain as bs where split: "dict_keys d = as @ k # bs" "k \<notin> set as" "k \<notin> set bs" "newer k d = bs"
    using assms(1,2) by (rule held_split)
  have "dict_keys (touch j w d) = filter (\<lambda>i. i \<noteq> j) as @ k # (filter (\<lambda>i. i \<noteq> j) bs @ [j])"
    using assms(3) by (simp add: keys_touch split(1))
  from newer_split [OF this] split show ?thesis by simp
qed

lemma newer_touch_self: "wf_dict d \<Longrightarrow> newer k (touch k v d) = []"
  by (rule newer_split [of _ "filter (\<lambda>j. j \<noteq> k) (dict_keys d)"]) (simp_all add: keys_touch)

section \<open>The contract\<close>

datatype ('k, 'v) cache_op = CachePut 'k 'v | CacheGet 'k

primrec op_key :: "('k, 'v) cache_op \<Rightarrow> 'k" where
  "op_key (CachePut k v) = k"
| "op_key (CacheGet k) = k"

locale lru_cache =
  fixes entries :: "'s \<Rightarrow> ('k, 'v) dict" and capacity :: "'s \<Rightarrow> nat"
    and lookup :: "'k \<Rightarrow> 's \<Rightarrow> 'v option" and get :: "'k \<Rightarrow> 's \<Rightarrow> 's" and put :: "'k \<Rightarrow> 'v \<Rightarrow> 's \<Rightarrow> 's"
    and valid :: "'s \<Rightarrow> bool" and storable :: "'v \<Rightarrow> bool"
  assumes lookup_entries: "valid s \<Longrightarrow> lookup k s = dict_get (entries s) k"
    and get_entries: "valid s \<Longrightarrow> entries (get k s) = (case dict_get (entries s) k of None \<Rightarrow> entries s | Some v \<Rightarrow> touch k v (entries s))"
    and put_entries: "valid s \<Longrightarrow> storable v \<Longrightarrow>
      entries (put k v s) = drop (length (touch k v (entries s)) - capacity s) (touch k v (entries s))"
    and get_valid: "valid s \<Longrightarrow> valid (get k s) \<and> capacity (get k s) = capacity s"
    and put_valid: "valid s \<Longrightarrow> storable v \<Longrightarrow> valid (put k v s) \<and> capacity (put k v s) = capacity s"
    and valid_wf: "valid s \<Longrightarrow> wf_dict (entries s) \<and> 0 < capacity s \<and> length (entries s) \<le> capacity s"
begin

primrec step :: "('k, 'v) cache_op \<Rightarrow> 's \<Rightarrow> 's" where
  "step (CachePut k v) s = put k v s"
| "step (CacheGet k) s = get k s"

definition run :: "('k, 'v) cache_op list \<Rightarrow> 's \<Rightarrow> 's" where
  "run ops s = fold step ops s"

primrec admissible :: "('k, 'v) cache_op \<Rightarrow> bool" where
  "admissible (CachePut k v) \<longleftrightarrow> storable v"
| "admissible (CacheGet k) \<longleftrightarrow> True"

lemma step_valid: "valid s \<Longrightarrow> admissible op \<Longrightarrow> valid (step op s) \<and> capacity (step op s) = capacity s"
  by (cases op) (simp_all add: get_valid put_valid)

lemma run_valid:
  "valid s \<Longrightarrow> \<forall>op\<in>set ops. admissible op \<Longrightarrow> valid (run ops s) \<and> capacity (run ops s) = capacity s"
proof (induction ops arbitrary: s)
  case (Cons op ops)
  with step_valid [of s op] show ?case by (simp add: run_def)
qed (simp add: run_def)

text \<open>An operation on another key leaves a held key in place unless it had \<open>capacity - 1\<close> newer ones.\<close>

lemma step_keeps:
  assumes "valid s" and "admissible op" and "dict_get (entries s) k = Some v" and "\<And>w. op \<noteq> CachePut k w"
    and "card (insert (op_key op) (set (newer k (entries s))) - {k}) < capacity s"
  shows "dict_get (entries (step op s)) k = Some v
    \<and> set (newer k (entries (step op s))) \<subseteq> insert (op_key op) (set (newer k (entries s))) - {k}"
proof -
  have wf: "wf_dict (entries s)" using valid_wf [OF assms(1)] by simp
  have k: "k \<in> set (dict_keys (entries s))"
    using assms(3) by (auto dest: dict_get_Some_in intro: rev_image_eqI)
  obtain as bs where bs: "newer k (entries s) = bs" "k \<notin> set bs" "dict_keys (entries s) = as @ k # bs"
    using wf k by (rule held_split)
  show ?thesis
  proof (cases op)
    case (CacheGet j)
    show ?thesis
    proof (cases "j = k")
      case True
      with CacheGet assms(1,3) wf show ?thesis
        by (simp add: get_entries dict_get_touch newer_touch_self)
    next
      case False
      with CacheGet assms(1,3) wf k bs show ?thesis
        by (auto simp: get_entries dict_get_touch newer_touch_other split: option.splits)
    qed
  next
    case (CachePut j w)
    with assms(4) have "j \<noteq> k" by auto
    let ?d = "touch j w (entries s)"
    have newer: "newer k ?d = filter (\<lambda>i. i \<noteq> j) bs @ [j]"
      using newer_touch_other [OF wf k \<open>j \<noteq> k\<close>] bs by simp
    have "distinct bs" using wf bs(3) by (simp add: wf_dict_def)
    then have "length (newer k ?d) = card (insert j (set bs))"
      unfolding newer using distinct_card [of "filter (\<lambda>i. i \<noteq> j) bs"]
    by (simp add: card.insert_remove set_diff_eq)
    also have "insert j (set bs) = insert (op_key op) (set (newer k (entries s))) - {k}"
      using \<open>j \<noteq> k\<close> bs CachePut by auto
    finally have "length (newer k ?d) < capacity s" using assms(5) by simp
    moreover have "dict_get ?d k = Some v" using assms(3) \<open>j \<noteq> k\<close> by (simp add: dict_get_touch)
    ultimately have "dict_get (drop (length ?d - capacity s) ?d) k = Some v"
      "newer k (drop (length ?d - capacity s) ?d) = newer k ?d"
      using held_after_drop [of ?d k v "capacity s"] wf by simp_all
    with CachePut assms(1,2) newer \<open>j \<noteq> k\<close> bs show ?thesis
      by (auto simp: put_entries)
  qed
qed

lemma run_keeps:
  assumes "valid s" and "\<forall>op\<in>set ops. admissible op \<and> (\<forall>w. op \<noteq> CachePut k w)" and "dict_get (entries s) k = Some v"
    and "card ((set (newer k (entries s)) \<union> op_key ` set ops) - {k}) < capacity s"
  shows "dict_get (entries (run ops s)) k = Some v"
  using assms
proof (induction ops arbitrary: s)
  case (Cons op ops)
  let ?t = "(set (newer k (entries s)) \<union> op_key ` set (op # ops)) - {k}"
  have "card (insert (op_key op) (set (newer k (entries s))) - {k}) \<le> card ?t"
    by (rule card_mono) auto
  with Cons.prems step_keeps [of s op k v]
  have kept: "dict_get (entries (step op s)) k = Some v"
    "set (newer k (entries (step op s))) \<subseteq> insert (op_key op) (set (newer k (entries s))) - {k}" by auto
  then have "card ((set (newer k (entries (step op s))) \<union> op_key ` set ops) - {k}) \<le> card ?t"
    by (intro card_mono) auto
  with Cons.prems kept step_valid [of s op] Cons.IH [of "step op s"] show ?case
    by (simp add: run_def)
qed (simp add: run_def)

text \<open>What was put is found until as many other keys were used as the cache holds.\<close>

lemma retains:
  assumes "valid s" and "storable v" and "\<forall>op\<in>set ops. admissible op \<and> (\<forall>w. op \<noteq> CachePut k w)"
    and "card (op_key ` set ops - {k}) < capacity s"
  shows "lookup k (run ops (put k v s)) = Some v"
proof -
  let ?d = "touch k v (entries s)"
  have wf: "wf_dict (entries s)" and pos: "0 < capacity s" using valid_wf [OF assms(1)] by simp_all
  have put: "valid (put k v s)" "capacity (put k v s) = capacity s" using put_valid [OF assms(1,2)] by simp_all
  have "length (newer k ?d) < capacity s" using pos by (simp add: newer_touch_self [OF wf])
  with held_after_drop [of ?d k v "capacity s"] wf have
    "dict_get (entries (put k v s)) k = Some v" "newer k (entries (put k v s)) = []"
    by (simp_all add: put_entries assms(1,2) dict_get_touch newer_touch_self)
  with run_keeps [of "put k v s" ops k v] put assms(3,4) have "dict_get (entries (run ops (put k v s))) k = Some v"
    by simp
  moreover have "valid (run ops (put k v s))" using run_valid [OF put(1)] assms(3) by simp
  ultimately show ?thesis by (simp add: lookup_entries)
qed

lemma bounded: "valid s \<Longrightarrow> \<forall>op\<in>set ops. admissible op \<Longrightarrow> length (entries (run ops s)) \<le> capacity s"
  using run_valid [of s ops] valid_wf [of "run ops s"] by simp

end

end
