(* ===== verification/Crop_Budget.thy ===== *)
theory Crop_Budget
  imports Timebase Lru_Cache
begin

text \<open>
  The understanding budget, the crop deduplication cache and the priority queue of the cropping
  engine (\<^verbatim>\<open>vision_os/perception/cropping/budget.py\<close>). Credit and rates are exact rationals.
\<close>

section \<open>The understanding budget\<close>

record budget_status =
  bt_ceiling :: rat
  bt_spent :: int
  bt_elapsed :: duration
  bt_pressure :: rat
  bt_exhausted :: bool
  bt_shed :: int

definition duration_seconds :: "duration \<Rightarrow> rat" where
  "duration_seconds d = of_int (duration_ns d) / 1000000000"

definition remaining_in_window :: "budget_status \<Rightarrow> rat" where
  "remaining_in_window st = max 0 (bt_ceiling st * (duration_seconds (bt_elapsed st) / 3600) - of_int (bt_spent st))"

record budget =
  bg_ceiling :: rat
  bg_window :: duration
  bg_window_started :: instant
  bg_spent :: int
  bg_shed :: int
  bg_demand_calls :: "(string, int) dict"
  bg_credit :: rat

definition allowance :: "rat \<Rightarrow> duration \<Rightarrow> rat" where
  "allowance per_hour window = per_hour * (duration_seconds window / 3600)"

definition burst :: "rat \<Rightarrow> duration \<Rightarrow> rat" where
  "burst per_hour window = (if per_hour > 0 then max 1 (allowance per_hour window) else 0)"

abbreviation budget_allowance :: "budget \<Rightarrow> rat" where
  "budget_allowance b \<equiv> allowance (bg_ceiling b) (bg_window b)"

abbreviation budget_burst :: "budget \<Rightarrow> rat" where
  "budget_burst b \<equiv> burst (bg_ceiling b) (bg_window b)"

definition budget_init :: "rat \<Rightarrow> duration \<Rightarrow> instant \<Rightarrow> budget result" where
  "budget_init per_hour window now =
     (if per_hour < 0 then Inl ValueError
      else if duration_ns window \<le> 0 then Inl ValueError
      else Inr \<lparr>bg_ceiling = per_hour, bg_window = window, bg_window_started = now, bg_spent = 0, bg_shed = 0,
                bg_demand_calls = [], bg_credit = burst per_hour window\<rparr>)"

definition reconcile :: "instant \<Rightarrow> budget \<Rightarrow> budget" where
  "reconcile now b =
     (let elapsed = instant_ns now - instant_ns (bg_window_started b)
      in if elapsed < duration_ns (bg_window b) then b
         else (let windows = elapsed div duration_ns (bg_window b)
               in b\<lparr>bg_window_started := Instant (instant_ns (bg_window_started b) + windows * duration_ns (bg_window b)),
                    bg_credit := min (budget_burst b) (bg_credit b + of_int windows * budget_allowance b),
                    bg_spent := 0, bg_shed := 0, bg_demand_calls := []\<rparr>))"

definition count_call :: "int \<Rightarrow> string \<Rightarrow> (string, int) dict \<Rightarrow> (string, int) dict" where
  "count_call cost i d = dict_set i ((case dict_get d i of None \<Rightarrow> 0 | Some n \<Rightarrow> n) + cost) d"

definition try_spend :: "instant \<Rightarrow> string list \<Rightarrow> int \<Rightarrow> budget \<Rightarrow> bool \<times> budget" where
  "try_spend now demands cost b0 =
     (let b = reconcile now b0
      in if bg_credit b < of_int cost then (False, b\<lparr>bg_shed := bg_shed b + 1\<rparr>)
         else (True, b\<lparr>bg_credit := bg_credit b - of_int cost, bg_spent := bg_spent b + cost,
                       bg_demand_calls := fold (count_call cost) demands (bg_demand_calls b)\<rparr>))"

definition uncount_call :: "int \<Rightarrow> string \<Rightarrow> (string, int) dict \<Rightarrow> (string, int) dict" where
  "uncount_call cost i d = (case dict_get d i of None \<Rightarrow> d | Some n \<Rightarrow> dict_set i (max 0 (n - cost)) d)"

definition refund :: "int \<Rightarrow> string list \<Rightarrow> budget \<Rightarrow> budget" where
  "refund cost demands b =
     b\<lparr>bg_credit := min (budget_burst b) (bg_credit b + of_int cost), bg_spent := max 0 (bg_spent b - cost),
       bg_demand_calls := fold (uncount_call cost) demands (bg_demand_calls b)\<rparr>"

definition demand_calls :: "string \<Rightarrow> budget \<Rightarrow> int" where
  "demand_calls i b = (case dict_get (bg_demand_calls b) i of None \<Rightarrow> 0 | Some n \<Rightarrow> n)"

definition budget_pressure :: "budget \<Rightarrow> rat" where
  "budget_pressure b =
     (if budget_allowance b \<le> 0 then (if bg_spent b \<noteq> 0 then 4 else 0)
      else min 4 (of_int (bg_spent b) / budget_allowance b))"

definition budget_status_at :: "instant \<Rightarrow> budget \<Rightarrow> budget_status \<times> budget" where
  "budget_status_at now b0 =
     (let b = reconcile now b0
      in (\<lparr>bt_ceiling = bg_ceiling b, bt_spent = bg_spent b,
           bt_elapsed = Duration (max 1 (instant_ns now - instant_ns (bg_window_started b))),
           bt_pressure = budget_pressure b, bt_exhausted = (bg_credit b < 1), bt_shed = bg_shed b\<rparr>, b))"

section \<open>Spending is bounded\<close>

datatype budget_event = Spend instant "string list" int | Refund "string list" int | Ask instant

primrec budget_step :: "budget_event \<Rightarrow> budget \<Rightarrow> int \<times> budget" where
  "budget_step (Spend now ds cost) b = (case try_spend now ds cost b of (ok, b') \<Rightarrow> (if ok then cost else 0, b'))"
| "budget_step (Refund ds cost) b = (- cost, refund cost ds b)"
| "budget_step (Ask now) b = (0, snd (budget_status_at now b))"

text \<open>The cost of what was let through, less what was refunded.\<close>

fun budget_run :: "budget_event list \<Rightarrow> budget \<Rightarrow> int \<times> budget" where
  "budget_run [] b = (0, b)"
| "budget_run (ev # evs) b =
     (case budget_step ev b of (net, b') \<Rightarrow> case budget_run evs b' of (rest, b'') \<Rightarrow> (net + rest, b''))"

primrec event_ok :: "budget_event \<Rightarrow> bool" where
  "event_ok (Spend now ds cost) \<longleftrightarrow> 0 \<le> cost"
| "event_ok (Refund ds cost) \<longleftrightarrow> 0 \<le> cost"
| "event_ok (Ask now) \<longleftrightarrow> True"

definition windows_passed :: "budget \<Rightarrow> budget \<Rightarrow> rat" where
  "windows_passed b b' = of_int (instant_ns (bg_window_started b') - instant_ns (bg_window_started b)) / of_int (duration_ns (bg_window b))"

definition budget_ok :: "budget \<Rightarrow> bool" where
  "budget_ok b \<longleftrightarrow> 0 \<le> bg_ceiling b \<and> 0 < duration_ns (bg_window b) \<and> 0 \<le> bg_credit b \<and> bg_credit b \<le> budget_burst b"

lemma allowance_nonneg: "budget_ok b \<Longrightarrow> 0 \<le> budget_allowance b"
  by (simp add: budget_ok_def allowance_def duration_seconds_def)

lemma burst_nonneg: "0 \<le> burst c w"
  by (simp add: burst_def le_max_iff_disj)

lemma reconcile_effect:
  assumes "budget_ok b"
  shows "budget_ok (reconcile now b) \<and> bg_ceiling (reconcile now b) = bg_ceiling b \<and> bg_window (reconcile now b) = bg_window b
    \<and> instant_ns (bg_window_started b) \<le> instant_ns (bg_window_started (reconcile now b))
    \<and> bg_credit (reconcile now b) \<le> bg_credit b + windows_passed b (reconcile now b) * budget_allowance b
    \<and> (instant_ns (bg_window_started (reconcile now b)) \<le> max (instant_ns now) (instant_ns (bg_window_started b)))"
proof -
  let ?e = "instant_ns now - instant_ns (bg_window_started b)" and ?w = "duration_ns (bg_window b)"
  show ?thesis
  proof (cases "?e < ?w")
    case True
    with assms show ?thesis by (simp add: reconcile_def windows_passed_def)
  next
    case False
    have "0 < ?w" using assms by (simp add: budget_ok_def)
    with False have "0 \<le> ?e div ?w" "?e div ?w * ?w \<le> ?e"
      by (simp_all add: pos_imp_zdiv_nonneg_iff minus_mod_eq_div_mult [symmetric])
    moreover have "0 \<le> budget_allowance b" by (rule allowance_nonneg [OF assms])
    ultimately show ?thesis
      using False assms \<open>0 < ?w\<close> by (simp add: reconcile_def Let_def windows_passed_def budget_ok_def burst_nonneg)
  qed
qed

lemma budget_step_effect:
  assumes "budget_ok b" and "event_ok ev" and "budget_step ev b = (net, b')"
  shows "budget_ok b' \<and> bg_ceiling b' = bg_ceiling b \<and> bg_window b' = bg_window b
    \<and> instant_ns (bg_window_started b) \<le> instant_ns (bg_window_started b')
    \<and> of_int net \<le> bg_credit b + windows_passed b b' * budget_allowance b - bg_credit b'"
proof (cases ev)
  case (Spend now ds cost)
  with assms reconcile_effect [OF assms(1), of now] show ?thesis
    by (auto simp: try_spend_def Let_def budget_ok_def windows_passed_def split: if_splits)
next
  case (Refund ds cost)
  with assms show ?thesis
    by (auto simp: refund_def budget_ok_def windows_passed_def burst_nonneg)
next
  case (Ask now)
  with assms reconcile_effect [OF assms(1), of now] show ?thesis
    by (auto simp: budget_status_at_def Let_def budget_ok_def)
qed

lemma budget_run_effect:
  assumes "budget_ok b" and "\<forall>ev\<in>set evs. event_ok ev" and "budget_run evs b = (net, b')"
  shows "budget_ok b' \<and> bg_ceiling b' = bg_ceiling b \<and> bg_window b' = bg_window b
    \<and> instant_ns (bg_window_started b) \<le> instant_ns (bg_window_started b')
    \<and> of_int net \<le> bg_credit b + windows_passed b b' * budget_allowance b - bg_credit b'"
  using assms
proof (induction evs arbitrary: b net)
  case Nil
  then show ?case by (simp add: windows_passed_def)
next
  case (Cons ev evs)
  obtain n1 b1 where step: "budget_step ev b = (n1, b1)" by (cases "budget_step ev b")
  obtain n2 where run: "budget_run evs b1 = (n2, b')" "net = n1 + n2"
    using Cons.prems(3) step by (auto split: prod.splits)
  note first = budget_step_effect [OF Cons.prems(1) _ step] and rest = Cons.IH [OF _ _ run(1)]
  have "windows_passed b b' = windows_passed b b1 + windows_passed b1 b'"
    using first Cons.prems(2) by (simp add: windows_passed_def add_divide_distrib [symmetric])
  then show ?case
    using first rest Cons.prems(2) run(2) by (simp add: algebra_simps)
qed

text \<open>
  C23: The budget bounds what is spent. Over any sequence of spending, refunding and asking, at any
  times, the cost of the calls let through less what was refunded is at most one burst plus the
  allowance of each whole window that has begun since, the credit stays between nothing and the burst,
  and a budget with ceiling zero lets no call of positive cost through.
\<close>

theorem budget_bounds_spending:
  assumes "budget_init per_hour window now = Inr b" and "\<forall>ev\<in>set evs. event_ok ev" and "budget_run evs b = (net, b')"
  shows "of_int net \<le> burst per_hour window
      + of_int (instant_ns (bg_window_started b') - instant_ns now) / of_int (duration_ns window) * allowance per_hour window
    \<and> 0 \<le> bg_credit b' \<and> bg_credit b' \<le> burst per_hour window
    \<and> (per_hour = 0 \<longrightarrow> (\<forall>t ds cost. 0 < cost \<longrightarrow> \<not> fst (try_spend t ds cost b')))"
proof -
  from assms(1) have b: "bg_ceiling b = per_hour" "bg_window b = window" "bg_window_started b = now"
    "bg_credit b = burst per_hour window" and "0 \<le> per_hour" "0 < duration_ns window"
    by (auto simp: budget_init_def split: if_splits)
  then have "budget_ok b" by (simp add: budget_ok_def burst_nonneg)
  note effect = budget_run_effect [OF this assms(2,3)]
  have "\<not> fst (try_spend t ds cost b')" if "per_hour = 0" "0 < cost" for t ds cost
  proof -
    have "bg_credit (reconcile t b') \<le> 0"
      using reconcile_effect [of b' t] effect that b by (auto simp: budget_ok_def burst_def)
    with that(2) have "bg_credit (reconcile t b') < of_int cost" by linarith
    then show ?thesis by (simp add: try_spend_def Let_def)
  qed
  with effect b show ?thesis
    by (auto simp: budget_ok_def windows_passed_def)
qed


section \<open>The deduplication cache\<close>

type_synonym crop_id = string
type_synonym dedup_key = "tenant_id \<times> string"

record dedup_cache =
  dp_capacity :: int
  dp_entries :: "(dedup_key, crop_id) dict"
  dp_hits :: int
  dp_misses :: int
  dp_evictions :: int

definition dedup_init :: "int \<Rightarrow> dedup_cache result" where
  "dedup_init n =
     (if n < 1 then Inl ValueError
      else Inr \<lparr>dp_capacity = n, dp_entries = [], dp_hits = 0, dp_misses = 0, dp_evictions = 0\<rparr>)"

definition dedup_get :: "dedup_key \<Rightarrow> dedup_cache \<Rightarrow> crop_id option \<times> dedup_cache" where
  "dedup_get k c =
     (case dict_get (dp_entries c) k of
        None \<Rightarrow> (None, c\<lparr>dp_misses := dp_misses c + 1\<rparr>)
      | Some found \<Rightarrow> (Some found, c\<lparr>dp_entries := move_to_end k (dp_entries c), dp_hits := dp_hits c + 1\<rparr>))"

definition dedup_put :: "dedup_key \<Rightarrow> crop_id \<Rightarrow> dedup_cache \<Rightarrow> dedup_cache" where
  "dedup_put k v c =
     (case evict_loop (dp_capacity c) (move_to_end k (dict_set k v (dp_entries c))) (dp_evictions c) of
        (d, evictions) \<Rightarrow> c\<lparr>dp_entries := d, dp_evictions := evictions\<rparr>)"

definition dedup_clear :: "dedup_cache \<Rightarrow> dedup_cache" where
  "dedup_clear c = c\<lparr>dp_entries := []\<rparr>"

definition dedup_forget_tenant :: "tenant_id \<Rightarrow> dedup_cache \<Rightarrow> int \<times> dedup_cache" where
  "dedup_forget_tenant t c =
     (let doomed = filter (\<lambda>k. fst k = t) (dict_keys (dp_entries c))
      in (int (length doomed), c\<lparr>dp_entries := fold dict_del doomed (dp_entries c)\<rparr>))"

definition dedup_ok :: "dedup_cache \<Rightarrow> bool" where
  "dedup_ok c \<longleftrightarrow> wf_dict (dp_entries c) \<and> 1 \<le> dp_capacity c \<and> int (length (dp_entries c)) \<le> dp_capacity c"

lemma dedup_put_entries:
  "dedup_ok c \<Longrightarrow> dp_entries (dedup_put k v c) =
     drop (length (touch k v (dp_entries c)) - nat (dp_capacity c)) (touch k v (dp_entries c))"
  by (simp add: dedup_put_def dedup_ok_def move_to_end_set evict_loop_eq)

lemma dedup_put_ok: "dedup_ok c \<Longrightarrow> dedup_ok (dedup_put k v c) \<and> dp_capacity (dedup_put k v c) = dp_capacity c"
proof -
  assume ok: "dedup_ok c"
  have "dp_capacity (dedup_put k v c) = dp_capacity c" by (simp add: dedup_put_def split: prod.splits)
  then show ?thesis
    using ok dedup_put_entries [OF ok, of k v] by (auto simp: dedup_ok_def)
qed

lemma dedup_get_ok: "dedup_ok c \<Longrightarrow> dedup_ok (snd (dedup_get k c)) \<and> dp_capacity (snd (dedup_get k c)) = dp_capacity c"
proof (cases "dict_get (dp_entries c) k")
  case (Some v)
  assume ok: "dedup_ok c"
  then have "length (touch k v (dp_entries c)) = length (dp_entries c)"
    using length_touch_held [OF _ Some, of v] by (simp add: dedup_ok_def)
  with ok Some show ?thesis by (simp add: dedup_get_def dedup_ok_def move_to_end_held)
qed (simp add: dedup_get_def dedup_ok_def)

interpretation dedup: lru_cache dp_entries "nat \<circ> dp_capacity" "\<lambda>k c. fst (dedup_get k c)" "\<lambda>k c. snd (dedup_get k c)"
  dedup_put dedup_ok "\<lambda>v. True"
proof
  fix c :: dedup_cache and k v
  assume ok: "dedup_ok c"
  show "fst (dedup_get k c) = dict_get (dp_entries c) k"
    by (simp add: dedup_get_def split: option.splits)
  show "dp_entries (snd (dedup_get k c)) =
      (case dict_get (dp_entries c) k of None \<Rightarrow> dp_entries c | Some v \<Rightarrow> touch k v (dp_entries c))"
    by (simp add: dedup_get_def move_to_end_held split: option.splits)
  show "dp_entries (dedup_put k v c) =
      drop (length (touch k v (dp_entries c)) - (nat \<circ> dp_capacity) c) (touch k v (dp_entries c))"
    using dedup_put_entries [OF ok] by simp
  show "dedup_ok (snd (dedup_get k c)) \<and> (nat \<circ> dp_capacity) (snd (dedup_get k c)) = (nat \<circ> dp_capacity) c"
    using dedup_get_ok [OF ok] by simp
  show "dedup_ok (dedup_put k v c) \<and> (nat \<circ> dp_capacity) (dedup_put k v c) = (nat \<circ> dp_capacity) c"
    using dedup_put_ok [OF ok] by simp
  show "wf_dict (dp_entries c) \<and> 0 < (nat \<circ> dp_capacity) c \<and> length (dp_entries c) \<le> (nat \<circ> dp_capacity) c"
    using ok by (simp add: dedup_ok_def le_nat_iff)
qed

fun dedup_step :: "(dedup_key, crop_id) cache_op \<Rightarrow> dedup_cache \<Rightarrow> dedup_cache" where
  "dedup_step (CachePut k v) c = dedup_put k v c"
| "dedup_step (CacheGet k) c = snd (dedup_get k c)"

lemma dedup_run: "dedup.run ops c = fold dedup_step ops c"
  proof -
  have "dedup.step op = dedup_step op" for op by (cases op) (simp_all add: fun_eq_iff)
  then have "dedup.step = dedup_step" by (simp add: fun_eq_iff)
  then show ?thesis by (simp add: dedup.run_def)
qed

text \<open>
  The deduplication cache remembers what is recent. In a cache of capacity n, what was put under a
  tenant's content hash is found, whatever is looked up and put in between, as long as that key is
  not put again and fewer than n other keys were used; the cache never holds more than n entries,
  and after forgetting a tenant it finds nothing of that tenant and everything of the others.
\<close>

theorem dedup_cache_remembers_recent:
  assumes "dedup_ok c"
    and "\<forall>op\<in>set ops. \<forall>w. op \<noteq> CachePut k w" and "int (card (op_key ` set ops - {k})) < dp_capacity c"
  shows "fst (dedup_get k (fold dedup_step ops (dedup_put k v c))) = Some v
    \<and> int (length (dp_entries (fold dedup_step ops (dedup_put k v c)))) \<le> dp_capacity c
    \<and> fst (dedup_get (t, h) (snd (dedup_forget_tenant t c))) = None
    \<and> (fst k \<noteq> t \<longrightarrow> fst (dedup_get k (snd (dedup_forget_tenant t c))) = fst (dedup_get k c))"
proof (intro conjI impI)
  have adm: "\<forall>op\<in>set ops. dedup.admissible op \<and> (\<forall>w. op \<noteq> CachePut k w)"
  proof
    fix op
    assume "op \<in> set ops"
    with assms(2) show "dedup.admissible op \<and> (\<forall>w. op \<noteq> CachePut k w)" by (cases op) auto
  qed
  have "card (op_key ` set ops - {k}) < (nat \<circ> dp_capacity) c" using assms(3) by simp
  from dedup.retains [OF assms(1) _ adm this, of v]
  show "fst (dedup_get k (fold dedup_step ops (dedup_put k v c))) = Some v" by (simp add: dedup_run)
  have "length (dp_entries (dedup.run ops (dedup_put k v c))) \<le> (nat \<circ> dp_capacity) (dedup_put k v c)"
    by (rule dedup.bounded) (use dedup_put_ok [OF assms(1)] adm in auto)
  then show "int (length (dp_entries (fold dedup_step ops (dedup_put k v c)))) \<le> dp_capacity c"
    using dedup_put_ok [OF assms(1), of k v] assms(1) by (simp add: dedup_run dedup_ok_def le_nat_iff)
  have del: "dict_get (fold dict_del ks d) j = (if j \<in> set ks then None else dict_get d j)" for ks :: "dedup_key list" and d :: "(dedup_key, crop_id) dict" and j
    by (induction ks arbitrary: d) (auto simp: dict_simps)
  have look: "fst (dedup_get j c') = dict_get (dp_entries c') j" for j c'
    by (simp add: dedup_get_def split: option.splits)
  show "fst (dedup_get (t, h) (snd (dedup_forget_tenant t c))) = None"
    by (auto simp: look dedup_forget_tenant_def Let_def del dict_get_None_iff)
  show "fst (dedup_get k (snd (dedup_forget_tenant t c))) = fst (dedup_get k c)" if "fst k \<noteq> t"
    using that by (simp add: look dedup_forget_tenant_def Let_def del)
qed

section \<open>The priority queue\<close>

record priority_queue =
  py_order :: "(string, int) dict"
  py_sequence :: int

definition priority_init :: "string list \<Rightarrow> priority_queue" where
  "priority_init names =
     \<lparr>py_order = fold (\<lambda>(i, name) d. dict_set name (int i) d) (enumerate 0 names) [], py_sequence = 0\<rparr>"

definition priority_rank :: "priority_queue \<Rightarrow> string \<Rightarrow> int" where
  "priority_rank q name = (case dict_get (py_order q) name of None \<Rightarrow> int (length (py_order q)) | Some i \<Rightarrow> i)"

fun decorate :: "('r \<Rightarrow> string) \<Rightarrow> 'r list \<Rightarrow> priority_queue \<Rightarrow> ((int \<times> int) \<times> 'r) list \<times> priority_queue" where
  "decorate prio [] q = ([], q)"
| "decorate prio (r # rs) q =
     (let q1 = q\<lparr>py_sequence := py_sequence q + 1\<rparr>;
          (ds, q2) = decorate prio rs q1
      in (((priority_rank q1 (prio r), py_sequence q1), r) # ds, q2))"

definition order_requests :: "('r \<Rightarrow> string) \<Rightarrow> 'r list \<Rightarrow> priority_queue \<Rightarrow> 'r list \<times> priority_queue" where
  "order_requests prio rs q = (case decorate prio rs q of (ds, q') \<Rightarrow> (map snd (sort_key fst ds), q'))"

lemma insort_decorated:
  "\<forall>e\<in>set es. snd (fst d) < snd (fst e) \<Longrightarrow> insort_key fst d es = insort_key (fst \<circ> fst) (d :: (int \<times> int) \<times> 'r) es"
  by (induction es) (auto simp: less_eq_prod_def)

lemma decorate_facts:
  "decorate prio rs q = (ds, q') \<Longrightarrow>
     map snd ds = rs \<and> (\<forall>d\<in>set ds. py_sequence q < snd (fst d)) \<and> (\<forall>d\<in>set ds. fst (fst d) = priority_rank q (prio (snd d)))
     \<and> sort_key fst ds = sort_key (fst \<circ> fst) ds"
proof (induction rs arbitrary: q ds)
  case (Cons r rs)
  let ?q = "q\<lparr>py_sequence := py_sequence q + 1\<rparr>"
  obtain es where es: "decorate prio rs ?q = (es, q')" "ds = ((priority_rank ?q (prio r), py_sequence ?q), r) # es"
    using Cons.prems by (auto simp: Let_def split: prod.splits)
  have "priority_rank ?q = priority_rank q" by (intro ext) (simp add: priority_rank_def split: option.splits)
  with Cons.IH [OF es(1)] es(2) have later: "\<forall>e\<in>set (sort_key fst es). snd (fst (hd ds)) < snd (fst e)"
    and facts: "map snd ds = r # rs" "\<forall>d\<in>set ds. py_sequence q < snd (fst d)"
      "\<forall>d\<in>set ds. fst (fst d) = priority_rank q (prio (snd d))" "sort_key fst es = sort_key (fst \<circ> fst) es"
    by (auto simp: comp_def)
  from insort_decorated [OF later] facts(4) es(2) have "sort_key fst ds = sort_key (fst \<circ> fst) ds" by simp
  with facts show ?case by blast
qed simp

lemma map_snd_insort:
  "\<forall>e\<in>insert d (set es). f e = g (snd e) \<Longrightarrow> map snd (insort_key f d es) = insort_key g (snd d) (map snd es)"
  by (induction es) auto

lemma map_snd_sort: "\<forall>e\<in>set es. f e = g (snd e) \<Longrightarrow> map snd (sort_key f es) = sort_key g (map snd es)"
proof (induction es)
  case (Cons d es)
  then have "\<forall>e\<in>insert d (set (sort_key f es)). f e = g (snd e)" by simp
  from map_snd_insort [OF this] Cons show ?case by simp
qed simp

text \<open>Ordering by rank and sequence number is a stable sort by rank.\<close>

lemma order_requests_stable: "fst (order_requests prio rs q) = sort_key (priority_rank q \<circ> prio) rs"
proof -
  obtain ds q' where ds: "decorate prio rs q = (ds, q')" by (cases "decorate prio rs q")
  note facts = decorate_facts [OF ds]
  have "map snd (sort_key (fst \<circ> fst) ds) = sort_key (priority_rank q \<circ> prio) (map snd ds)"
    using facts by (intro map_snd_sort) auto
  with facts show ?thesis by (simp add: order_requests_def ds)
qed

definition known_classes :: "priority_queue \<Rightarrow> string list" where
  "known_classes q = map fst (sort_key snd (py_order q))"


section \<open>Examples\<close>

text \<open>Sixty calls an hour in windows of a minute: one call a minute, and a second one after a refund.\<close>

definition example_budget :: budget where
  "example_budget = \<lparr>bg_ceiling = 60, bg_window = duration_from_millis 60000, bg_window_started = Instant 0, bg_spent = 0,
     bg_shed = 0, bg_demand_calls = [], bg_credit = 1\<rparr>"

theorem budget_bounds_spending_witness:
  "\<exists>net b'. budget_run [Spend (Instant 1) [''d1''] 1, Spend (Instant 2) [''d1''] 1, Refund [''d1''] 1, Spend (Instant 3) [] 1,
       Spend (Instant 60000000000) [] 1] example_budget = (net, b') \<and> net = 2
     \<and> of_int net \<le> (1::rat) + of_int (instant_ns (bg_window_started b') - 0) / of_int 60000000000 * 1 \<and> bg_credit b' = 0"
proof -
  let ?w = "duration_from_millis 60000"
  have unit: "allowance 60 ?w = 1" "burst 60 ?w = 1"
    by (simp_all add: allowance_def burst_def duration_seconds_def duration_from_millis_def)
  have init: "budget_init 60 ?w (Instant 0) = Inr example_budget"
    using unit by (simp add: budget_init_def example_budget_def duration_from_millis_def)
  obtain net b' where run: "budget_run [Spend (Instant 1) [''d1''] 1, Spend (Instant 2) [''d1''] 1, Refund [''d1''] 1,
       Spend (Instant 3) [] 1, Spend (Instant 60000000000) [] 1] example_budget = (net, b')" (is "budget_run ?evs _ = _")
    by (cases "budget_run ?evs example_budget") auto
  moreover have "budget_run ?evs example_budget = (net, b') \<longrightarrow> net = 2 \<and> bg_credit b' = 0"
    using unit by (simp add: example_budget_def try_spend_def reconcile_def refund_def count_call_def uncount_call_def Let_def
        duration_from_millis_def dict_set_def dict_get_def) auto
  moreover have "\<forall>ev\<in>set ?evs. event_ok ev" by simp
  from budget_bounds_spending [OF init this run] have
    "of_int net \<le> burst 60 ?w + of_int (instant_ns (bg_window_started b') - 0) / of_int (duration_ns ?w) * allowance 60 ?w" by simp
  then have "of_int net \<le> (1::rat) + of_int (instant_ns (bg_window_started b') - 0) / of_int 60000000000 * 1"
    unfolding unit by (simp add: duration_from_millis_def)
  ultimately show ?thesis by blast
qed

theorem dedup_cache_remembers_recent_witness:
  "fst (dedup_get (''acme'', ''h'') (fold dedup_step [CachePut (''acme'', ''i'') ''2'', CacheGet (''acme'', ''j'')]
     (dedup_put (''acme'', ''h'') ''1'' \<lparr>dp_capacity = 3, dp_entries = [], dp_hits = 0, dp_misses = 0, dp_evictions = 0\<rparr>))) = Some ''1''"
  (is "fst (dedup_get _ (fold _ ?ops (dedup_put _ _ ?c))) = _")
proof -
  have "dedup_ok ?c" by (simp add: dedup_ok_def)
  moreover have "\<forall>op\<in>set ?ops. \<forall>w. op \<noteq> CachePut (''acme'', ''h'') w" by simp
  moreover have "int (card (op_key ` set ?ops - {(''acme'', ''h'')})) < dp_capacity ?c"
    by (simp add: insert_Diff_if)
  ultimately show ?thesis by (rule dedup_cache_remembers_recent [THEN conjunct1])
qed

end
