(* ===== verification/Understanding_Cache.thy ===== *)
theory Understanding_Cache
  imports Timebase Lru_Cache
begin

text \<open>
  The response cache, the model semaphore and the batching of the understanding layer
  (\<^verbatim>\<open>vision_os/perception/understanding/cache.py\<close>). Of a result the cache looks at the
  outcome and the raw output; the rest of it is a parameter of the type. Waiting on the semaphore's
  condition is split into the steps before and after the wait.
\<close>

section \<open>The response cache\<close>

datatype understanding_outcome = SUCCEEDED | NO_ATTRIBUTES | REFUSED | TIMED_OUT | UNAVAILABLE | UNSUPPORTED

definition produced_a_model_call :: "understanding_outcome \<Rightarrow> bool" where
  "produced_a_model_call x \<longleftrightarrow> x \<in> {SUCCEEDED, NO_ATTRIBUTES, REFUSED}"

definition outcome_is_failure :: "understanding_outcome \<Rightarrow> bool" where
  "outcome_is_failure x \<longleftrightarrow> x \<in> {TIMED_OUT, UNAVAILABLE, UNSUPPORTED}"

record 'a understanding_result =
  ur_outcome :: understanding_outcome
  ur_raw_output :: "int list option"
  ur_rest :: 'a

definition without_raw_output :: "'a understanding_result \<Rightarrow> 'a understanding_result" where
  "without_raw_output r = r\<lparr>ur_raw_output := None\<rparr>"

type_synonym response_key = "tenant_id \<times> string \<times> string \<times> string \<times> string"

fun join_with :: "string \<Rightarrow> string list \<Rightarrow> string" where
  "join_with sep [] = []"
| "join_with sep [x] = x"
| "join_with sep (x # y # ys) = x @ sep @ join_with sep (y # ys)"

definition cache_key :: "tenant_id \<Rightarrow> string \<Rightarrow> string \<Rightarrow> string \<Rightarrow> attribute_key list \<Rightarrow> response_key" where
  "cache_key tenant crop prompt model attributes = (tenant, crop, prompt, model, join_with '','' (sort attributes))"

record 'a response_cache =
  rs_capacity :: int
  rs_ttl :: "duration option"
  rs_entries :: "(response_key, 'a understanding_result \<times> instant) dict"
  rs_hits :: int
  rs_misses :: int
  rs_evictions :: int
  rs_expirations :: int

definition response_init :: "int \<Rightarrow> duration option \<Rightarrow> 'a response_cache result" where
  "response_init n ttl =
     (if n < 1 then Inl ValueError
      else Inr \<lparr>rs_capacity = n, rs_ttl = ttl, rs_entries = [], rs_hits = 0, rs_misses = 0, rs_evictions = 0,
                rs_expirations = 0\<rparr>)"

definition entry_expired :: "'a response_cache \<Rightarrow> 'a understanding_result \<times> instant \<Rightarrow> instant \<Rightarrow> bool" where
  "entry_expired c e now =
     (case rs_ttl c of None \<Rightarrow> False | Some ttl \<Rightarrow> instant_ns now - instant_ns (snd e) > duration_ns ttl)"

definition response_get ::
  "response_key \<Rightarrow> instant \<Rightarrow> 'a response_cache \<Rightarrow> 'a understanding_result option \<times> 'a response_cache" where
  "response_get k now c =
     (case dict_get (rs_entries c) k of
        None \<Rightarrow> (None, c\<lparr>rs_misses := rs_misses c + 1\<rparr>)
      | Some e \<Rightarrow>
          if entry_expired c e now
          then (None, c\<lparr>rs_entries := dict_del k (rs_entries c), rs_expirations := rs_expirations c + 1,
                        rs_misses := rs_misses c + 1\<rparr>)
          else (Some (fst e), c\<lparr>rs_entries := move_to_end k (rs_entries c), rs_hits := rs_hits c + 1\<rparr>))"

definition response_put :: "response_key \<Rightarrow> 'a understanding_result \<Rightarrow> instant \<Rightarrow> 'a response_cache \<Rightarrow> 'a response_cache" where
  "response_put k r now c =
     (if outcome_is_failure (ur_outcome r) then c
      else case evict_loop (rs_capacity c) (move_to_end k (dict_set k (without_raw_output r, now) (rs_entries c))) (rs_evictions c) of
             (d, evictions) \<Rightarrow> c\<lparr>rs_entries := d, rs_evictions := evictions\<rparr>)"

definition response_forget_tenant :: "tenant_id \<Rightarrow> 'a response_cache \<Rightarrow> int \<times> 'a response_cache" where
  "response_forget_tenant t c =
     (let doomed = filter (\<lambda>k. fst k = t) (dict_keys (rs_entries c))
      in (int (length doomed), c\<lparr>rs_entries := fold dict_del doomed (rs_entries c)\<rparr>))"

definition response_clear :: "'a response_cache \<Rightarrow> 'a response_cache" where
  "response_clear c = c\<lparr>rs_entries := []\<rparr>"

definition hit_rate :: "int \<Rightarrow> int \<Rightarrow> rat" where
  "hit_rate hits misses = (let total = hits + misses in if total \<noteq> 0 then of_int hits / of_int total else 0)"

section \<open>The model semaphore\<close>

record semaphore =
  sm_limit :: int
  sm_in_flight :: int
  sm_peak :: int
  sm_waits :: int
  sm_rejections :: int

definition semaphore_init :: "int \<Rightarrow> semaphore result" where
  "semaphore_init n =
     (if n < 1 then Inl ValueError
      else Inr \<lparr>sm_limit = n, sm_in_flight = 0, sm_peak = 0, sm_waits = 0, sm_rejections = 0\<rparr>)"

definition take_permit :: "semaphore \<Rightarrow> semaphore" where
  "take_permit s = s\<lparr>sm_in_flight := sm_in_flight s + 1, sm_peak := max (sm_peak s) (sm_in_flight s + 1)\<rparr>"

definition try_permit :: "semaphore \<Rightarrow> bool \<times> semaphore" where
  "try_permit s =
     (if sm_in_flight s \<ge> sm_limit s then (False, s\<lparr>sm_rejections := sm_rejections s + 1\<rparr>) else (True, take_permit s))"

text \<open>\<^verbatim>\<open>acquire\<close> up to the wait (\<open>None\<close>: it waits), and what follows the wait.\<close>

definition acquire_or_wait :: "semaphore \<Rightarrow> bool option \<times> semaphore" where
  "acquire_or_wait s =
     (if sm_in_flight s \<ge> sm_limit s then (None, s\<lparr>sm_waits := sm_waits s + 1\<rparr>) else (Some True, take_permit s))"

definition after_wait :: "bool \<Rightarrow> semaphore \<Rightarrow> bool option \<times> semaphore" where
  "after_wait timed_out s =
     (if sm_in_flight s < sm_limit s then (Some True, take_permit s)
      else if timed_out then (Some False, s\<lparr>sm_rejections := sm_rejections s + 1\<rparr>) else (None, s))"

definition release_permit :: "semaphore \<Rightarrow> semaphore" where
  "release_permit s = s\<lparr>sm_in_flight := max 0 (sm_in_flight s - 1)\<rparr>"

definition utilization :: "semaphore \<Rightarrow> rat" where
  "utilization s = of_int (sm_in_flight s) / of_int (sm_limit s)"

definition semaphore_ok :: "semaphore \<Rightarrow> bool" where
  "semaphore_ok s \<longleftrightarrow> 1 \<le> sm_limit s \<and> 0 \<le> sm_in_flight s \<and> sm_in_flight s \<le> sm_peak s \<and> sm_peak s \<le> sm_limit s"

lemma semaphore_steps_ok:
  "semaphore_init n = Inr s \<Longrightarrow> semaphore_ok s"
  "semaphore_ok s \<Longrightarrow> semaphore_ok (snd (try_permit s))"
  "semaphore_ok s \<Longrightarrow> semaphore_ok (snd (acquire_or_wait s))"
  "semaphore_ok s \<Longrightarrow> semaphore_ok (snd (after_wait timed_out s))"
  "semaphore_ok s \<Longrightarrow> semaphore_ok (release_permit s)"
  by (auto simp: semaphore_init_def semaphore_ok_def try_permit_def acquire_or_wait_def after_wait_def take_permit_def
      release_permit_def max_def split: if_splits)

section \<open>Batching\<close>

record batch_group =
  bh_adapter :: string
  bh_prompt :: string
  bh_indices :: "nat list"

definition add_index :: "nat \<times> (string \<times> string) \<Rightarrow> (string \<times> string) list \<times> (string \<times> string, nat list) dict
    \<Rightarrow> (string \<times> string) list \<times> (string \<times> string, nat list) dict" where
  "add_index ik st =
     (case ik of (i, key) \<Rightarrow> case st of (ordered, buckets) \<Rightarrow>
        let (ordered, buckets) =
              (if dict_get buckets key = None then (ordered @ [key], dict_set key [] buckets) else (ordered, buckets))
        in (ordered, dict_set key ((case dict_get buckets key of None \<Rightarrow> [] | Some is \<Rightarrow> is) @ [i]) buckets))"

text \<open>\<^verbatim>\<open>for start in range(0, len(indices), max_batch_size)\<close> with the slice of each start.\<close>

function batch_chunks :: "nat \<Rightarrow> nat \<Rightarrow> 'a list \<Rightarrow> 'a list list" where
  "batch_chunks m start xs =
     (if m = 0 \<or> start \<ge> length xs then [] else take m (drop start xs) # batch_chunks m (start + m) xs)"
  by pat_completeness auto
termination by (relation "measure (\<lambda>(m, start, xs). length xs - start)") auto

declare batch_chunks.simps [simp del]

definition batch_table :: "(string \<times> string) list \<Rightarrow> (string \<times> string) list \<times> (string \<times> string, nat list) dict" where
  "batch_table keys = fold add_index (enumerate 0 keys) ([], [])"

definition groups_of :: "nat \<Rightarrow> (string \<times> string, nat list) dict \<Rightarrow> string \<times> string \<Rightarrow> batch_group list" where
  "groups_of m buckets key =
     map (\<lambda>is. \<lparr>bh_adapter = fst key, bh_prompt = snd key, bh_indices = is\<rparr>)
       (batch_chunks m 0 (case dict_get buckets key of None \<Rightarrow> [] | Some is \<Rightarrow> is))"

definition group_for_batching :: "(string \<times> string) list \<Rightarrow> int \<Rightarrow> batch_group list result" where
  "group_for_batching keys max_batch_size =
     (if max_batch_size < 1 then Inl ValueError
      else case batch_table keys of (ordered, buckets) \<Rightarrow>
             Inr (concat (map (groups_of (nat max_batch_size) buckets) ordered)))"


lemma batch_chunks_facts:
  "0 < m \<Longrightarrow> concat (batch_chunks m start xs) = drop start xs
     \<and> (\<forall>c\<in>set (batch_chunks m start xs). 1 \<le> length c \<and> length c \<le> m)
     \<and> length (batch_chunks m start xs) = (length xs - start + m - 1) div m"
proof (induction m start xs rule: batch_chunks.induct)
  case (1 m start xs)
  show ?case
  proof (cases "start \<ge> length xs")
    case True
    with 1(2) show ?thesis by (subst (1 2 3) batch_chunks.simps) simp
  next
    case False
    with 1 have IH: "concat (batch_chunks m (start + m) xs) = drop (start + m) xs"
      "\<forall>c\<in>set (batch_chunks m (start + m) xs). 1 \<le> length c \<and> length c \<le> m"
      "length (batch_chunks m (start + m) xs) = (length xs - (start + m) + m - 1) div m" by auto
    have chunks: "batch_chunks m start xs = take m (drop start xs) # batch_chunks m (start + m) xs"
      using False 1(2) by (subst batch_chunks.simps) simp
    have "take m (drop start xs) @ drop (start + m) xs = drop start xs"
      by (metis append_take_drop_id drop_drop add.commute)
    moreover have "(length xs - start + m - 1) div m = Suc ((length xs - (start + m) + m - 1) div m)"
    proof (cases "length xs \<le> start + m")
      case True
      define r where "r = length xs - start - 1"
      have r: "length xs - start + m - 1 = r + m" "r < m" using True False 1(2) by (auto simp: r_def)
      have "(r + m) div m = Suc (r div m)" using 1(2) by simp
      with r(2) True 1(2) show ?thesis unfolding r(1) by simp
    next
      case more: False
      define r where "r = length xs - (start + m) + m - 1"
      have r: "length xs - start + m - 1 = r + m" using more 1(2) by (simp add: r_def)
      have "(r + m) div m = Suc (r div m)" using 1(2) by simp
      then show ?thesis unfolding r r_def [symmetric] .
    qed
    ultimately show ?thesis
      using IH False 1(2) unfolding chunks by auto
  qed
qed

definition positions :: "'k list \<Rightarrow> 'k \<Rightarrow> nat list" where
  "positions keys k = filter (\<lambda>i. keys ! i = k) [0..<length keys]"

lemma positions_snoc: "positions (keys @ [k]) j = positions keys j @ (if k = j then [length keys] else [])"
proof -
  have "filter (\<lambda>i. (keys @ [k]) ! i = j) [0..<length keys] = filter (\<lambda>i. keys ! i = j) [0..<length keys]"
    by (rule filter_cong) (auto simp: nth_append)
  then show ?thesis by (simp add: positions_def)
qed

lemma length_positions: "length (positions keys k) = count_list keys k"
  by (induction keys rule: rev_induct) (auto simp: positions_snoc, simp add: positions_def)

lemma positions_absent: "k \<notin> set keys \<Longrightarrow> positions keys k = []"
  by (auto simp: positions_def filter_empty_conv)

lemma batch_table_eq:
  "batch_table keys = (ordered, buckets) \<Longrightarrow>
     distinct ordered \<and> set ordered = set keys
     \<and> (\<forall>k. dict_get buckets k = (if k \<in> set keys then Some (positions keys k) else None))"
proof (induction keys arbitrary: ordered buckets rule: rev_induct)
  case Nil
  then show ?case by (simp add: batch_table_def)
next
  case (snoc k keys)
  obtain o1 b1 where t: "batch_table keys = (o1, b1)" by (cases "batch_table keys")
  have "batch_table (keys @ [k]) = add_index (length keys, k) (o1, b1)"
    using t by (simp add: batch_table_def enumerate_append_eq)
  with snoc.prems have add: "add_index (length keys, k) (o1, b1) = (ordered, buckets)" by simp
  have o1: "distinct o1" "set o1 = set keys" and b1: "\<And>j. dict_get b1 j = (if j \<in> set keys then Some (positions keys j) else None)"
    using snoc.IH [OF t] by blast+
  show ?case
  proof (cases "k \<in> set keys")
    case True
    with add b1 have "ordered = o1" "buckets = dict_set k (positions keys k @ [length keys]) b1"
      by (simp_all add: add_index_def)
    with True o1 b1 show ?thesis by (simp add: dict_simps positions_snoc insert_absorb)
  next
    case False
    with add b1 have "ordered = o1 @ [k]" "buckets = dict_set k [length keys] (dict_set k [] b1)"
      by (simp_all add: add_index_def Let_def dict_simps)
    with False o1 b1 positions_absent [of k keys] show ?thesis by (simp add: dict_simps positions_snoc)
  qed
qed

lemma distinct_concat_positions:
  "distinct ks \<Longrightarrow> distinct (concat (map (positions keys) ks))"
  by (induction ks) (auto simp: positions_def)

text \<open>
  C26: Batching loses and mixes nothing. For any sequence of keys and a positive batch size, the groups
  hold every index exactly once; a group has one adapter and prompt, between one and the maximum of
  indices, in increasing order; and a key that occurs n times makes exactly n divided by the
  maximum groups, rounded up. The chunking loop ends for every input.
\<close>

theorem batching_partitions_requests:
  assumes "1 \<le> m"
  shows "\<exists>gs. group_for_batching keys m = Inr gs
    \<and> distinct (concat (map bh_indices gs)) \<and> set (concat (map bh_indices gs)) = {..<length keys}
    \<and> (\<forall>g\<in>set gs. 1 \<le> length (bh_indices g) \<and> int (length (bh_indices g)) \<le> m \<and> sorted_wrt (<) (bh_indices g)
         \<and> (\<forall>i\<in>set (bh_indices g). keys ! i = (bh_adapter g, bh_prompt g)))
    \<and> (\<forall>k. length (filter (\<lambda>g. (bh_adapter g, bh_prompt g) = k) gs) = (count_list keys k + nat m - 1) div nat m)"
proof -
  obtain ordered buckets where t: "batch_table keys = (ordered, buckets)" by (cases "batch_table keys")
  note table = batch_table_eq [OF t]
  let ?gs = "concat (map (groups_of (nat m) buckets) ordered)"
  have m: "0 < nat m" using assms by simp
  have bucket: "k \<in> set ordered \<Longrightarrow> dict_get buckets k = Some (positions keys k)" for k
    using table by metis
  have indices: "map bh_indices (groups_of (nat m) buckets k) = batch_chunks (nat m) 0 (positions keys k)"
    if "k \<in> set ordered" for k
    using bucket [OF that] by (simp add: groups_of_def comp_def)
  have flat: "concat (map bh_indices ?gs) = concat (map (positions keys) ordered)"
  proof -
    have "concat (map bh_indices (groups_of (nat m) buckets k)) = positions keys k" if "k \<in> set ordered" for k
      using indices [OF that] batch_chunks_facts [OF m, of 0 "positions keys k"] by simp
    moreover have "concat (map bh_indices (concat (map h ks))) = concat (map (\<lambda>k. concat (map bh_indices (h k))) ks)"
      for h :: "string \<times> string \<Rightarrow> batch_group list" and ks
      by (induction ks) auto
    ultimately show ?thesis by (simp cong: map_cong)
  qed
  have "set (concat (map (positions keys) ordered)) = {..<length keys}"
    using table by (auto simp: positions_def)
  moreover have "distinct (concat (map (positions keys) ordered))"
    using table by (intro distinct_concat_positions) simp
  moreover have "1 \<le> length (bh_indices g) \<and> int (length (bh_indices g)) \<le> m \<and> sorted_wrt (<) (bh_indices g)
         \<and> (\<forall>i\<in>set (bh_indices g). keys ! i = (bh_adapter g, bh_prompt g))" if "g \<in> set ?gs" for g
  proof -
    from that obtain k where k: "k \<in> set ordered" "g \<in> set (groups_of (nat m) buckets k)" by auto
    then have g: "bh_indices g \<in> set (batch_chunks (nat m) 0 (positions keys k))" "(bh_adapter g, bh_prompt g) = k"
      using bucket [of k] by (auto simp: groups_of_def)
    note chunks = batch_chunks_facts [OF m, of 0 "positions keys k"]
    have "sorted_wrt (<) (concat (batch_chunks (nat m) 0 (positions keys k)))"
      using chunks by (simp add: positions_def sorted_wrt_filter)
    then have "sorted_wrt (<) (bh_indices g)"
      using g(1) by (metis split_list concat_append concat.simps(2) sorted_wrt_append)
    moreover have "set (bh_indices g) \<subseteq> set (positions keys k)"
      using chunks g(1) by (metis UN_upper set_concat drop0)
    ultimately show ?thesis using chunks g assms by (auto simp: positions_def)
  qed
  moreover have "length (filter (\<lambda>g. (bh_adapter g, bh_prompt g) = k) ?gs) = (count_list keys k + nat m - 1) div nat m" for k
  proof -
    have one: "filter (\<lambda>g. (bh_adapter g, bh_prompt g) = k) (groups_of (nat m) buckets j) = (if j = k then groups_of (nat m) buckets j else [])" for j
      by (auto simp: groups_of_def filter_empty_conv intro!: filter_True)
    have "filter (\<lambda>g. (bh_adapter g, bh_prompt g) = k) ?gs = concat (map (\<lambda>j. if j = k then groups_of (nat m) buckets j else []) ordered)"
      by (simp add: filter_concat comp_def one)
    also have "\<dots> = (if k \<in> set ordered then groups_of (nat m) buckets k else [])"
      using table [THEN conjunct1] by (induction ordered) auto
    finally show ?thesis
      using table batch_chunks_facts [OF m, of 0 "positions keys k"] arg_cong [OF indices [of k], of length] m
      by (auto simp: length_positions count_list_0_iff)
  qed
  ultimately show ?thesis
    using assms by (intro exI [of _ ?gs]) (simp add: group_for_batching_def t flat)
qed


section \<open>What the response cache serves\<close>

lemma response_put_entries:
  "wf_dict (rs_entries c) \<Longrightarrow> 1 \<le> rs_capacity c \<Longrightarrow> \<not> outcome_is_failure (ur_outcome r) \<Longrightarrow>
   rs_entries (response_put k r now c) =
     drop (length (touch k (without_raw_output r, now) (rs_entries c)) - nat (rs_capacity c))
       (touch k (without_raw_output r, now) (rs_entries c))"
  by (simp add: response_put_def move_to_end_set evict_loop_eq)

lemma response_put_frame [simp]:
  "rs_capacity (response_put k r now c) = rs_capacity c" "rs_ttl (response_put k r now c) = rs_ttl c"
  by (simp_all add: response_put_def split: prod.splits)

lemma response_get_frame [simp]:
  "rs_capacity (snd (response_get k now c)) = rs_capacity c" "rs_ttl (snd (response_get k now c)) = rs_ttl c"
  by (simp_all add: response_get_def split: option.splits)

definition response_ok :: "'a response_cache \<Rightarrow> bool" where
  "response_ok c \<longleftrightarrow> wf_dict (rs_entries c) \<and> 1 \<le> rs_capacity c \<and> int (length (rs_entries c)) \<le> rs_capacity c"

lemma wf_fold_del: "wf_dict d \<Longrightarrow> wf_dict (fold dict_del ks d)"
  by (induction ks arbitrary: d) simp_all

lemma length_fold_del: "length (fold dict_del ks d) \<le> length d"
proof (induction ks arbitrary: d)
  case (Cons k ks)
  have "length (fold dict_del ks (dict_del k d)) \<le> length (dict_del k d)" by (rule Cons)
  also note length_dict_del_le
  finally show ?case by simp
qed simp

lemma response_steps_ok:
  assumes "response_ok c"
  shows "response_ok (response_put k r now c)" "response_ok (snd (response_get k now c))"
    "response_ok (snd (response_forget_tenant t c))" "response_ok (response_clear c)"
proof -
  show "response_ok (response_put k r now c)"
  proof (cases "outcome_is_failure (ur_outcome r)")
    case True
    with assms show ?thesis by (simp add: response_put_def)
  next
    case False
    with assms response_put_entries [of c r k now] show ?thesis
      by (auto simp: response_ok_def)
  qed
  show "response_ok (snd (response_get k now c))"
  proof (cases "dict_get (rs_entries c) k")
    case (Some e)
    with assms show ?thesis
      using length_touch_held [of "rs_entries c" k e] dict_del_length [of "rs_entries c" "rs_capacity c" k]
      by (simp add: response_get_def response_ok_def move_to_end_held)
  qed (use assms in \<open>simp add: response_get_def response_ok_def\<close>)
  show "response_ok (snd (response_forget_tenant t c))"
    using assms wf_fold_del [of "rs_entries c"]
      length_fold_del [of "filter (\<lambda>k. fst k = t) (dict_keys (rs_entries c))" "rs_entries c"]
    by (simp add: response_forget_tenant_def Let_def response_ok_def)
  show "response_ok (response_clear c)"
    using assms by (simp add: response_clear_def response_ok_def)
qed

text \<open>Without a time to live the cache is an LRU cache of results with their time.\<close>

interpretation response: lru_cache "rs_entries :: 'a response_cache \<Rightarrow> _" "nat \<circ> rs_capacity"
  "\<lambda>k c. dict_get (rs_entries c) k" "\<lambda>k c. snd (response_get k (Instant 0) c)"
  "\<lambda>k e. response_put k (fst e) (snd e)" "\<lambda>c. response_ok c \<and> rs_ttl c = None"
  "\<lambda>e. \<not> outcome_is_failure (ur_outcome (fst e)) \<and> ur_raw_output (fst e) = None"
proof
  fix c :: "'a response_cache" and k and e :: "'a understanding_result \<times> instant"
  assume ok: "response_ok c \<and> rs_ttl c = None"
  show "rs_entries (snd (response_get k (Instant 0) c)) =
      (case dict_get (rs_entries c) k of None \<Rightarrow> rs_entries c | Some v \<Rightarrow> touch k v (rs_entries c))"
    using ok by (simp add: response_get_def move_to_end_held entry_expired_def split: option.splits)
  show "(response_ok (snd (response_get k (Instant 0) c)) \<and> rs_ttl (snd (response_get k (Instant 0) c)) = None)
      \<and> (nat \<circ> rs_capacity) (snd (response_get k (Instant 0) c)) = (nat \<circ> rs_capacity) c"
    using ok response_steps_ok(2) [of c k "Instant 0"] by simp
  show "wf_dict (rs_entries c) \<and> 0 < (nat \<circ> rs_capacity) c \<and> length (rs_entries c) \<le> (nat \<circ> rs_capacity) c"
    using ok by (simp add: response_ok_def le_nat_iff)
  assume stored: "\<not> outcome_is_failure (ur_outcome (fst e)) \<and> ur_raw_output (fst e) = None"
  then have "without_raw_output (fst e) = fst e" by (simp add: without_raw_output_def)
  with ok stored show "rs_entries (response_put k (fst e) (snd e) c) =
      drop (length (touch k e (rs_entries c)) - (nat \<circ> rs_capacity) c) (touch k e (rs_entries c))"
    by (simp add: response_put_entries response_ok_def)
  show "(response_ok (response_put k (fst e) (snd e) c) \<and> rs_ttl (response_put k (fst e) (snd e) c) = None)
      \<and> (nat \<circ> rs_capacity) (response_put k (fst e) (snd e) c) = (nat \<circ> rs_capacity) c"
    using ok response_steps_ok(1) [of c k "fst e" "snd e"] by simp
qed simp

datatype 'a response_event =
    ResponsePut response_key "'a understanding_result" instant | ResponseGet response_key instant
  | ResponseForget tenant_id | ResponseClear

primrec response_step :: "'a response_event \<Rightarrow> 'a response_cache \<Rightarrow> 'a response_cache" where
  "response_step (ResponsePut k r now) c = response_put k r now c"
| "response_step (ResponseGet k now) c = snd (response_get k now c)"
| "response_step (ResponseForget t) c = snd (response_forget_tenant t c)"
| "response_step ResponseClear c = response_clear c"

text \<open>The same history without capacity and expiry: the last successful result of every key.\<close>

primrec current_result ::
  "'a response_event \<Rightarrow> (response_key \<rightharpoonup> 'a understanding_result \<times> instant) \<Rightarrow> (response_key \<rightharpoonup> 'a understanding_result \<times> instant)" where
  "current_result (ResponsePut k r now) cur =
     (if outcome_is_failure (ur_outcome r) then cur else cur(k \<mapsto> (without_raw_output r, now)))"
| "current_result (ResponseGet k now) cur = cur"
| "current_result (ResponseForget t) cur = (\<lambda>k. if fst k = t then None else cur k)"
| "current_result ResponseClear cur = Map.empty"

lemma fold_dict_del_get:
  "dict_get (fold dict_del ks d) j = (if j \<in> set ks then None else dict_get d j)"
  by (induction ks arbitrary: d) (auto simp: dict_simps)

lemma dict_get_drop: "wf_dict d \<Longrightarrow> dict_get (drop n d) k = Some v \<Longrightarrow> dict_get d k = Some v"
  using wf_drop [of d n] in_set_dropD by (fastforce simp: in_dict_iff [symmetric])

lemma response_step_tracks:
  assumes "response_ok c" and "\<And>k e. dict_get (rs_entries c) k = Some e \<Longrightarrow> cur k = Some e"
    and "dict_get (rs_entries (response_step ev c)) k = Some e"
  shows "current_result ev cur k = Some e"
proof (cases ev)
  case (ResponsePut j r now)
  show ?thesis
  proof (cases "outcome_is_failure (ur_outcome r)")
    case True
    with ResponsePut assms(2,3) show ?thesis by (simp add: response_put_def)
  next
    case False
    let ?d = "touch j (without_raw_output r, now) (rs_entries c)"
    have "dict_get (drop (length ?d - nat (rs_capacity c)) ?d) k = Some e"
      using assms(1,3) ResponsePut False by (simp add: response_put_entries response_ok_def)
    then have "dict_get ?d k = Some e"
      using dict_get_drop assms(1) by (metis response_ok_def wf_touch)
    with ResponsePut False assms(2) show ?thesis by (auto simp: dict_get_touch split: if_splits)
  qed
next
  case (ResponseGet j now)
  with assms(2,3) show ?thesis
    by (auto simp: response_get_def move_to_end_held dict_get_touch dict_simps split: option.splits if_splits)
next
  case (ResponseForget t)
  with assms(2,3) show ?thesis
    by (auto simp: response_forget_tenant_def Let_def fold_dict_del_get dest: dict_get_Some_in intro: rev_image_eqI split: if_splits)
next
  case ResponseClear
  with assms(3) show ?thesis by (simp add: response_clear_def)
qed

lemma response_run_tracks:
  assumes "response_ok c" and "\<And>k e. dict_get (rs_entries c) k = Some e \<Longrightarrow> cur k = Some e"
  shows "response_ok (fold response_step evs c)
    \<and> rs_ttl (fold response_step evs c) = rs_ttl c \<and> rs_capacity (fold response_step evs c) = rs_capacity c
    \<and> (\<forall>k e. dict_get (rs_entries (fold response_step evs c)) k = Some e \<longrightarrow> fold current_result evs cur k = Some e)"
  using assms
proof (induction evs arbitrary: c cur)
  case (Cons ev evs)
  have "response_ok (response_step ev c)" "rs_ttl (response_step ev c) = rs_ttl c" "rs_capacity (response_step ev c) = rs_capacity c"
    using response_steps_ok [OF Cons.prems(1)]
    by (cases ev; simp add: response_forget_tenant_def response_clear_def Let_def)+
  with Cons.IH [of "response_step ev c" "current_result ev cur"] response_step_tracks [OF Cons.prems] show ?case
    by simp
qed simp


lemma stored_is_clean:
  "\<forall>k e. cur k = Some e \<longrightarrow> \<not> outcome_is_failure (ur_outcome (fst e)) \<and> ur_raw_output (fst e) = None \<Longrightarrow>
   fold current_result evs cur k = Some e \<Longrightarrow> \<not> outcome_is_failure (ur_outcome (fst e)) \<and> ur_raw_output (fst e) = None"
proof (induction evs arbitrary: cur)
  case (Cons ev evs)
  have "\<forall>k e. current_result ev cur k = Some e \<longrightarrow> \<not> outcome_is_failure (ur_outcome (fst e)) \<and> ur_raw_output (fst e) = None"
    using Cons.prems(1) by (cases ev) (auto simp: without_raw_output_def split: if_splits)
  with Cons show ?case by simp
qed (metis fold_simps(1))

text \<open>
  C24: The response cache serves only what is current. Whatever was put, looked up, forgotten and cleared
  before, a result that is served for a key is the last successful result put under exactly
  that key (tenant, crop, prompt, model and attributes) since the tenant was last forgotten and the cache
  last cleared, not older than the time to live, without its raw output and not a failure; and
  the cache never holds more entries than its capacity.
\<close>

theorem response_cache_serves_current:
  assumes "response_init n ttl = Inr c0"
    and "response_get k now (fold response_step evs c0) = (Some r, c')"
  shows "\<exists>t. fold current_result evs Map.empty k = Some (r, t)
      \<and> (\<forall>d. ttl = Some d \<longrightarrow> instant_ns now - instant_ns t \<le> duration_ns d)
      \<and> \<not> outcome_is_failure (ur_outcome r) \<and> ur_raw_output r = None
      \<and> int (length (rs_entries c')) \<le> n"
proof -
  have c0: "response_ok c0" "rs_entries c0 = []" "rs_ttl c0 = ttl" "rs_capacity c0 = n"
    using assms(1) by (auto simp: response_init_def response_ok_def split: if_splits)
  let ?c = "fold response_step evs c0"
  have run: "response_ok ?c" "rs_ttl ?c = ttl" "rs_capacity ?c = n"
    "\<And>k e. dict_get (rs_entries ?c) k = Some e \<Longrightarrow> fold current_result evs Map.empty k = Some e"
    using response_run_tracks [OF c0(1), of Map.empty evs] c0 by auto
  from assms(2) obtain t where t: "dict_get (rs_entries ?c) k = Some (r, t)" "\<not> entry_expired ?c (r, t) now"
    by (auto simp: response_get_def split: option.splits if_splits)
  from run(4) [OF t(1)] have cur: "fold current_result evs Map.empty k = Some (r, t)" .
  have "response_ok (snd (response_get k now ?c))" "rs_capacity (snd (response_get k now ?c)) = n"
    using response_steps_ok(2) [OF run(1)] run(3) by simp_all
  then have "int (length (rs_entries c')) \<le> n" using assms(2) by (simp add: response_ok_def)
  with cur t(2) run(2) stored_is_clean [OF _ cur] show ?thesis
    by (auto simp: entry_expired_def)
qed

lemma response_cache_remembers_recent:
  assumes "response_ok c" and "rs_ttl c = None" and "\<not> outcome_is_failure (ur_outcome (fst e))" and "ur_raw_output (fst e) = None"
    and "\<forall>op\<in>set ops. response.admissible op \<and> (\<forall>w. op \<noteq> CachePut k w)"
    and "int (card (op_key ` set ops - {k})) < rs_capacity c"
  shows "dict_get (rs_entries (response.run ops (response_put k (fst e) (snd e) c))) k = Some e"
  using response.retains [of c e ops k] assms by simp

section \<open>Examples\<close>

definition example_result :: "understanding_outcome \<Rightarrow> nat understanding_result" where
  "example_result x = \<lparr>ur_outcome = x, ur_raw_output = Some [1], ur_rest = 7\<rparr>"

definition example_key :: response_key where
  "example_key = cache_key ''acme'' ''crop'' ''p1'' ''m1'' [''vest'', ''helmet'']"

theorem response_cache_serves_current_witness:
  "let evs = [ResponsePut example_key (example_result SUCCEEDED) (Instant 1),
              ResponsePut example_key (example_result TIMED_OUT) (Instant 2)];
       c0 = \<lparr>rs_capacity = 2, rs_ttl = Some (Duration 5), rs_entries = [], rs_hits = 0, rs_misses = 0, rs_evictions = 0, rs_expirations = 0\<rparr>
   in \<exists>r c'. response_get example_key (Instant 6) (fold response_step evs c0) = (Some r, c')
        \<and> ur_outcome r = SUCCEEDED \<and> ur_raw_output r = None \<and> ur_rest r = 7 \<and> int (length (rs_entries c')) \<le> 2"
proof -
  let ?evs = "[ResponsePut example_key (example_result SUCCEEDED) (Instant 1),
     ResponsePut example_key (example_result TIMED_OUT) (Instant 2)]"
  let ?c0 = "\<lparr>rs_capacity = 2, rs_ttl = Some (Duration 5), rs_entries = [], rs_hits = 0, rs_misses = 0, rs_evictions = 0,
     rs_expirations = 0\<rparr> :: nat response_cache"
  have init: "response_init 2 (Some (Duration 5)) = Inr ?c0" by (simp add: response_init_def)
  have "\<exists>r c'. response_get example_key (Instant 6) (fold response_step ?evs ?c0) = (Some r, c')"
    by (simp add: response_get_def response_put_def example_result_def outcome_is_failure_def move_to_end_set touch_def
        dict_del_def dict_get_def entry_expired_def)
  then obtain r c' where get: "response_get example_key (Instant 6) (fold response_step ?evs ?c0) = (Some r, c')" by blast
  from response_cache_serves_current [OF init get] have
    "\<exists>t. fold current_result ?evs Map.empty example_key = Some (r, t) \<and> ur_raw_output r = None \<and> int (length (rs_entries c')) \<le> 2"
    by blast
  with get show ?thesis
    by (auto simp: example_result_def outcome_is_failure_def without_raw_output_def)
qed

theorem batching_partitions_requests_witness:
  "\<exists>gs. group_for_batching [(''a'', ''p''), (''b'', ''p''), (''a'', ''p''), (''a'', ''p'')] 2 = Inr gs
     \<and> set (concat (map bh_indices gs)) = {0, 1, 2, 3}
     \<and> length (filter (\<lambda>g. (bh_adapter g, bh_prompt g) = (''a'', ''p'')) gs) = 2"
proof -
  define keys where "keys = [(''a'', ''p''), (''b'', ''p''), (''a'', ''p''), (''a'', ''p'')]"
  have two: "1 \<le> (2::int)" by simp
  obtain gs where gs: "group_for_batching keys 2 = Inr gs" "set (concat (map bh_indices gs)) = {..<length keys}"
    "length (filter (\<lambda>g. (bh_adapter g, bh_prompt g) = (''a'', ''p'')) gs) = (count_list keys (''a'', ''p'') + nat 2 - 1) div nat 2"
    using batching_partitions_requests [OF two, of keys] by (elim exE conjE) blast
  have "{..<length keys} = {0, 1, 2, 3}" "(count_list keys (''a'', ''p'') + nat 2 - 1) div nat 2 = 2"
    by (auto simp: keys_def)
  with gs show ?thesis by (intro exI [of _ gs]) (simp add: keys_def)
qed

end
