(* ===== verification/Evidence_Store.thy ===== *)
theory Evidence_Store
  imports Observation_Api
begin

text \<open>
  The evidence store in memory (\<^verbatim>\<open>vision_os/adapters/persistence/evidence.py\<close>) with the types of
  its port (\<^verbatim>\<open>vision_os/core/ports/persistence.py\<close>): quotas, deduplication by content, expiry,
  erasure with tombstones. Payloads are byte lists. The store that keeps its blobs in files is left
  out, and so are the detail texts.
\<close>

section \<open>Records, quotas, scopes\<close>

datatype retention_mode = EPHEMERAL | EVIDENCE | NEVER_PERSIST

datatype privacy_class = C0_OPERATIONAL | C1_IMAGERY | C2_BIOMETRIC | C3_BEHAVIOURAL

record evidence_record =
  ev_hash :: string
  ev_tenant :: tenant_id
  ev_privacy :: privacy_class
  ev_retention :: retention_mode
  ev_stored_at :: instant
  ev_expires_at :: "instant option"
  ev_size :: int
  ev_camera :: "camera_id option"
  ev_object :: "object_id option"
  ev_observation :: "string option"

definition evidence_is_expired :: "evidence_record \<Rightarrow> instant \<Rightarrow> bool" where
  "evidence_is_expired r now =
     (case ev_expires_at r of None \<Rightarrow> False | Some t \<Rightarrow> instant_ns now > instant_ns t)"

definition evidence_blob_ref :: "evidence_record \<Rightarrow> string" where
  "evidence_blob_ref r = ''sha256:'' @ ev_hash r"

text \<open>\<^verbatim>\<open>text.split(":", 1)[1] if ":" in text else text\<close>.\<close>

definition blob_hash_of :: "string \<Rightarrow> string" where
  "blob_hash_of text = (if CHR '':'' \<in> set text then tl (dropWhile (\<lambda>c. c \<noteq> CHR '':'') text) else text)"

record erase_scope =
  ec_tenant :: tenant_id
  ec_objects :: "object_id list"
  ec_cameras :: "camera_id list"
  ec_before :: "instant option"
  ec_after :: "instant option"
  ec_authority :: string

definition mk_erase_scope :: "erase_scope \<Rightarrow> erase_scope result" where
  "mk_erase_scope s =
     (if ec_tenant s = [] then Inl ValueError
      else if \<not> (ec_objects s \<noteq> [] \<or> ec_cameras s \<noteq> [] \<or> ec_before s \<noteq> None \<or> ec_after s \<noteq> None) then Inl ValueError
      else Inr s)"

definition listed :: "string option \<Rightarrow> string list \<Rightarrow> bool" where
  "listed x xs = (case x of None \<Rightarrow> False | Some y \<Rightarrow> y \<in> set xs)"

definition erase_scope_matches :: "evidence_record \<Rightarrow> erase_scope \<Rightarrow> bool" where
  "erase_scope_matches r s =
     (if ev_tenant r \<noteq> ec_tenant s then False
      else if ec_objects s \<noteq> [] \<and> \<not> listed (ev_object r) (ec_objects s) then False
      else if ec_cameras s \<noteq> [] \<and> \<not> listed (ev_camera r) (ec_cameras s) then False
      else if (case ec_before s of None \<Rightarrow> False | Some t \<Rightarrow> instant_ns (ev_stored_at r) \<ge> instant_ns t) then False
      else \<not> (case ec_after s of None \<Rightarrow> False | Some t \<Rightarrow> instant_ns (ev_stored_at r) \<le> instant_ns t))"

record tombstone =
  tb_hash :: string
  tb_tenant :: tenant_id
  tb_erased_at :: instant
  tb_authority :: string
  tb_size :: int
  tb_object :: "object_id option"
  tb_camera :: "camera_id option"

definition mk_tombstone :: "tombstone \<Rightarrow> tombstone result" where
  "mk_tombstone t = (if tb_authority t = [] then Inl ValueError else Inr t)"

record retention_policy =
  rp_evidence_ttl_ms :: int
  rp_raw_output_ttl_ms :: int
  rp_ephemeral_ttl_ms :: int

primrec ttl_for :: "retention_policy \<Rightarrow> retention_mode \<Rightarrow> int" where
  "ttl_for p EPHEMERAL = rp_ephemeral_ttl_ms p"
| "ttl_for p EVIDENCE = rp_evidence_ttl_ms p"
| "ttl_for p NEVER_PERSIST = 0"

definition retention_expires_at :: "retention_policy \<Rightarrow> retention_mode \<Rightarrow> instant \<Rightarrow> instant option" where
  "retention_expires_at p mode t =
     (let ttl = ttl_for p mode in if ttl > 0 then Some (Instant (instant_ns t + ttl * 1000000)) else None)"

record evidence_quota =
  qt_max_bytes :: int
  qt_max_blobs :: int
  qt_max_blob_bytes :: int

definition mk_evidence_quota :: "evidence_quota \<Rightarrow> evidence_quota result" where
  "mk_evidence_quota q =
     (if qt_max_bytes q < 1 \<or> qt_max_blobs q < 1 \<or> qt_max_blob_bytes q < 1 then Inl ValueError else Inr q)"

record expire_report =
  xr_examined :: int
  xr_removed :: int
  xr_reclaimed :: int

record erase_report =
  er_erased :: int
  er_reclaimed :: int
  er_tombstones :: "string list"
  er_authority :: string
  er_erased_at :: "instant"

section \<open>The store\<close>

record evidence_store =
  es_quota :: evidence_quota
  es_blobs :: "(string, int list) dict"
  es_records :: "(string, evidence_record) dict"
  es_tombstones :: "(string, tombstone) dict"

definition evidence_init :: "evidence_quota \<Rightarrow> evidence_store" where
  "evidence_init q = \<lparr>es_quota = q, es_blobs = [], es_records = [], es_tombstones = []\<rparr>"

definition scoped_key :: "string \<Rightarrow> tenant_id \<Rightarrow> string" where
  "scoped_key h t = t @ ''/'' @ h"

definition bytes_used :: "evidence_store \<Rightarrow> int" where
  "bytes_used s = sum_list (map (ev_size \<circ> snd) (es_records s))"

record evidence_input =
  ei_hash :: string
  ei_payload :: "int list"
  ei_tenant :: tenant_id
  ei_retention :: retention_mode
  ei_privacy :: privacy_class
  ei_expires_at :: "instant option"
  ei_camera :: "camera_id option"
  ei_object :: "object_id option"
  ei_observation :: "string option"

definition record_of_input :: "evidence_input \<Rightarrow> evidence_record" where
  "record_of_input i =
     \<lparr>ev_hash = ei_hash i, ev_tenant = ei_tenant i, ev_privacy = ei_privacy i, ev_retention = ei_retention i,
      ev_stored_at = (case ei_expires_at i of None \<Rightarrow> Instant 0 | Some t \<Rightarrow> t), ev_expires_at = ei_expires_at i,
      ev_size = int (length (ei_payload i)), ev_camera = ei_camera i, ev_object = ei_object i,
      ev_observation = ei_observation i\<rparr>"

definition evidence_put :: "evidence_input \<Rightarrow> evidence_store \<Rightarrow> string result \<times> evidence_store" where
  "evidence_put i s =
     (let ref = ''sha256:'' @ ei_hash i;
          size = int (length (ei_payload i));
          key = scoped_key (ei_hash i) (ei_tenant i)
      in if ei_retention i = NEVER_PERSIST then (Inr ref, s)
         else if size > qt_max_blob_bytes (es_quota s) then (Inl EvidenceQuotaExceededError, s)
         else if key \<in> set (dict_keys (es_records s)) then (Inr ref, s)
         else if int (length (es_records s)) \<ge> qt_max_blobs (es_quota s) then (Inl EvidenceQuotaExceededError, s)
         else if bytes_used s + size > qt_max_bytes (es_quota s) then (Inl EvidenceQuotaExceededError, s)
         else (Inr ref, s\<lparr>es_blobs := dict_set key (ei_payload i) (es_blobs s),
                          es_records := dict_set key (record_of_input i) (es_records s)\<rparr>))"

definition evidence_get :: "string \<Rightarrow> tenant_id \<Rightarrow> evidence_store \<Rightarrow> evidence_fetch" where
  "evidence_get ref t s =
     (let key = scoped_key (blob_hash_of ref) t
      in if key \<in> set (dict_keys (es_tombstones s))
         then \<lparr>ef_status = ERASED_EVIDENCE, ef_payload = None, ef_observation = None\<rparr>
         else case (dict_get (es_records s) key, dict_get (es_blobs s) key) of
                (Some r, Some payload) \<Rightarrow> \<lparr>ef_status = STORED, ef_payload = Some payload, ef_observation = ev_observation r\<rparr>
              | _ \<Rightarrow> \<lparr>ef_status = EVIDENCE_NOT_FOUND, ef_payload = None, ef_observation = None\<rparr>)"

definition evidence_exists :: "string \<Rightarrow> tenant_id \<Rightarrow> evidence_store \<Rightarrow> bool" where
  "evidence_exists h t s \<longleftrightarrow> scoped_key h t \<in> set (dict_keys (es_records s))"

definition drop_evidence :: "string \<Rightarrow> evidence_store \<Rightarrow> evidence_store" where
  "drop_evidence key s = s\<lparr>es_records := dict_del key (es_records s), es_blobs := dict_del key (es_blobs s)\<rparr>"

definition evidence_expires :: "instant \<Rightarrow> tenant_id option \<Rightarrow> evidence_record \<Rightarrow> bool" where
  "evidence_expires before t r \<longleftrightarrow> (case t of None \<Rightarrow> True | Some t \<Rightarrow> ev_tenant r = t)
     \<and> (case ev_expires_at r of None \<Rightarrow> False | Some x \<Rightarrow> \<not> instant_ns x > instant_ns before)"

definition expire_step ::
  "instant \<Rightarrow> tenant_id option \<Rightarrow> string \<times> evidence_record \<Rightarrow> expire_report \<times> evidence_store \<Rightarrow> expire_report \<times> evidence_store" where
  "expire_step before t kr xs =
     (case kr of (key, r) \<Rightarrow> case xs of (x, s) \<Rightarrow>
        if (case t of None \<Rightarrow> False | Some t \<Rightarrow> ev_tenant r \<noteq> t) then (x, s)
        else (let x1 = x\<lparr>xr_examined := xr_examined x + 1\<rparr>
              in if (case ev_expires_at r of None \<Rightarrow> True | Some e \<Rightarrow> instant_ns e > instant_ns before) then (x1, s)
                 else (x1\<lparr>xr_removed := xr_removed x1 + 1, xr_reclaimed := xr_reclaimed x1 + ev_size r\<rparr>, drop_evidence key s)))"

definition evidence_expire :: "instant \<Rightarrow> tenant_id option \<Rightarrow> evidence_store \<Rightarrow> expire_report \<times> evidence_store" where
  "evidence_expire before t s =
     fold (expire_step before t) (es_records s) (\<lparr>xr_examined = 0, xr_removed = 0, xr_reclaimed = 0\<rparr>, s)"

definition tombstone_of :: "erase_scope \<Rightarrow> evidence_record \<Rightarrow> tombstone" where
  "tombstone_of sc r =
     \<lparr>tb_hash = ev_hash r, tb_tenant = ev_tenant r,
      tb_erased_at = (case ec_before sc of None \<Rightarrow> Instant 0 | Some t \<Rightarrow> t),
      tb_authority = (if ec_authority sc \<noteq> [] then ec_authority sc else ''unattributed''),
      tb_size = ev_size r, tb_object = ev_object r, tb_camera = ev_camera r\<rparr>"

definition erase_step ::
  "erase_scope \<Rightarrow> string \<times> evidence_record \<Rightarrow> erase_report \<times> evidence_store \<Rightarrow> erase_report \<times> evidence_store" where
  "erase_step sc kr xs =
     (case kr of (key, r) \<Rightarrow> case xs of (x, s) \<Rightarrow>
        if \<not> erase_scope_matches r sc then (x, s)
        else (x\<lparr>er_erased := er_erased x + 1, er_reclaimed := er_reclaimed x + ev_size r,
                er_tombstones := er_tombstones x @ [ev_hash r]\<rparr>,
              drop_evidence key (s\<lparr>es_tombstones := dict_set key (tombstone_of sc r) (es_tombstones s)\<rparr>)))"

definition evidence_erase :: "erase_scope \<Rightarrow> evidence_store \<Rightarrow> erase_report \<times> evidence_store" where
  "evidence_erase sc s =
     fold (erase_step sc) (es_records s)
       (\<lparr>er_erased = 0, er_reclaimed = 0, er_tombstones = [], er_authority = ec_authority sc,
         er_erased_at = (case ec_before sc of None \<Rightarrow> Instant 0 | Some t \<Rightarrow> t)\<rparr>, s)"

record store_health =
  sh_blobs :: int
  sh_bytes_used :: int
  sh_tombstones :: int
  sh_quota :: evidence_quota

definition evidence_health :: "evidence_store \<Rightarrow> store_health" where
  "evidence_health s = \<lparr>sh_blobs = int (length (es_records s)), sh_bytes_used = bytes_used s,
     sh_tombstones = int (length (es_tombstones s)), sh_quota = es_quota s\<rparr>"

definition health_utilization :: "store_health \<Rightarrow> rat" where
  "health_utilization h =
     (if qt_max_bytes (sh_quota h) \<noteq> 0 then of_int (sh_bytes_used h) / of_int (qt_max_bytes (sh_quota h)) else 0)"

definition near_capacity :: "store_health \<Rightarrow> bool" where
  "near_capacity h \<longleftrightarrow> health_utilization h \<ge> 9/10"


section \<open>Runs of the store\<close>

datatype evidence_op = EvPut evidence_input | EvExpire instant "tenant_id option" | EvErase erase_scope

primrec evidence_op_step :: "evidence_op \<Rightarrow> evidence_store \<Rightarrow> evidence_store" where
  "evidence_op_step (EvPut i) s = snd (evidence_put i s)"
| "evidence_op_step (EvExpire before t) s = snd (evidence_expire before t s)"
| "evidence_op_step (EvErase sc) s = snd (evidence_erase sc s)"

definition evidence_run :: "evidence_op list \<Rightarrow> evidence_store \<Rightarrow> evidence_store" where
  "evidence_run ops s = fold evidence_op_step ops s"

text \<open>The keys a scan removes, and what is left when they are gone.\<close>

definition doomed_keys :: "(evidence_record \<Rightarrow> bool) \<Rightarrow> (string, evidence_record) dict \<Rightarrow> string list" where
  "doomed_keys P d = map fst (filter (P \<circ> snd) d)"

definition without_keys :: "string list \<Rightarrow> (string, 'v) dict \<Rightarrow> (string, 'v) dict" where
  "without_keys ks d = filter (\<lambda>p. fst p \<notin> set ks) d"

lemma without_keys_simps [simp]:
  "without_keys [] d = d"
  "without_keys (k # ks) d = without_keys ks (dict_del k d)"
  by (auto simp: without_keys_def dict_del_filter intro!: filter_cong)

lemma doomed_keys_simps [simp]:
  "doomed_keys P [] = []"
  "doomed_keys P ((k, r) # d) = (if P r then k # doomed_keys P d else doomed_keys P d)"
  by (simp_all add: doomed_keys_def)

lemma without_doomed: "wf_dict d \<Longrightarrow> without_keys (doomed_keys P d) d = filter (Not \<circ> P \<circ> snd) d"
  unfolding without_keys_def doomed_keys_def
  by (rule filter_cong [OF refl]) (auto simp: wf_dict_def dest: eq_key_imp_eq_value)

lemma wf_without_keys [simp]: "wf_dict d \<Longrightarrow> wf_dict (without_keys ks d)"
  by (simp add: wf_dict_def without_keys_def distinct_map_filter)

lemma keys_without: "dict_keys (without_keys ks d) = filter (\<lambda>k. k \<notin> set ks) (dict_keys d)"
  by (simp add: without_keys_def filter_map o_def)

lemma drop_evidence_simps [simp]:
  "es_records (drop_evidence k s) = dict_del k (es_records s)"
  "es_blobs (drop_evidence k s) = dict_del k (es_blobs s)"
  "es_tombstones (drop_evidence k s) = es_tombstones s"
  "es_quota (drop_evidence k s) = es_quota s"
  by (simp_all add: drop_evidence_def)

lemma expire_step_eq:
  "snd (expire_step before t (k, r) xs) = (if evidence_expires before t r then drop_evidence k (snd xs) else snd xs)"
  by (cases xs) (auto simp: expire_step_def evidence_expires_def Let_def split: option.splits)

lemma evidence_expire_fold:
  "snd (fold (expire_step before t) kvs xs) =
     (snd xs)\<lparr>es_records := without_keys (doomed_keys (evidence_expires before t) kvs) (es_records (snd xs)),
       es_blobs := without_keys (doomed_keys (evidence_expires before t) kvs) (es_blobs (snd xs))\<rparr>"
proof (induction kvs arbitrary: xs)
  case (Cons kr kvs)
  obtain k r where kr: "kr = (k, r)" by (cases kr)
  show ?case
    by (cases "evidence_expires before t r") (simp_all add: kr Cons.IH expire_step_eq drop_evidence_def)
qed simp

lemma evidence_erase_fold:
  "es_records (snd (fold (erase_step sc) kvs (x, s))) = without_keys (doomed_keys (\<lambda>r. erase_scope_matches r sc) kvs) (es_records s)
   \<and> es_blobs (snd (fold (erase_step sc) kvs (x, s))) = without_keys (doomed_keys (\<lambda>r. erase_scope_matches r sc) kvs) (es_blobs s)
   \<and> fst ` set (es_tombstones (snd (fold (erase_step sc) kvs (x, s)))) =
       fst ` set (es_tombstones s) \<union> set (doomed_keys (\<lambda>r. erase_scope_matches r sc) kvs)
   \<and> es_quota (snd (fold (erase_step sc) kvs (x, s))) = es_quota s"
proof (induction kvs arbitrary: x s)
  case (Cons kr kvs)
  obtain k r where kr: "kr = (k, r)" by (cases kr)
  show ?case
    using Cons.IH by (cases "erase_scope_matches r sc") (auto simp: kr erase_step_def dict_simps)
qed simp

lemma evidence_expire_eq:
  assumes "wf_dict (es_records s)"
  shows "snd (evidence_expire before t s) =
     s\<lparr>es_records := filter (Not \<circ> evidence_expires before t \<circ> snd) (es_records s),
       es_blobs := without_keys (doomed_keys (evidence_expires before t) (es_records s)) (es_blobs s)\<rparr>"
  by (simp add: evidence_expire_def evidence_expire_fold without_doomed assms)

lemma evidence_erase_facts:
  "es_records (snd (evidence_erase sc s)) = without_keys (doomed_keys (\<lambda>r. erase_scope_matches r sc) (es_records s)) (es_records s)"
  "es_blobs (snd (evidence_erase sc s)) = without_keys (doomed_keys (\<lambda>r. erase_scope_matches r sc) (es_records s)) (es_blobs s)"
  "fst ` set (es_tombstones (snd (evidence_erase sc s))) =
     fst ` set (es_tombstones s) \<union> set (doomed_keys (\<lambda>r. erase_scope_matches r sc) (es_records s))"
  "es_quota (snd (evidence_erase sc s)) = es_quota s"
  unfolding evidence_erase_def by (simp_all add: evidence_erase_fold)

text \<open>What every run keeps.\<close>

definition evidence_ok :: "evidence_store \<Rightarrow> bool" where
  "evidence_ok s \<longleftrightarrow> wf_dict (es_records s) \<and> wf_dict (es_blobs s)
     \<and> dict_keys (es_blobs s) = dict_keys (es_records s)
     \<and> int (length (es_records s)) \<le> qt_max_blobs (es_quota s)
     \<and> bytes_used s \<le> qt_max_bytes (es_quota s)
     \<and> (\<forall>(k, r) \<in> set (es_records s). k = scoped_key (ev_hash r) (ev_tenant r)
          \<and> ev_retention r \<noteq> NEVER_PERSIST \<and> ev_size r \<le> qt_max_blob_bytes (es_quota s)
          \<and> (\<exists>payload. dict_get (es_blobs s) k = Some payload \<and> ev_size r = int (length payload)))"

lemma bytes_used_filter:
  assumes "\<forall>(k, r) \<in> set d. 0 \<le> ev_size r"
  shows "sum_list (map (ev_size \<circ> snd) (filter P d)) \<le> sum_list (map (ev_size \<circ> snd) d)"
  using assms by (induction d) auto

lemma without_keys_get: "k \<notin> set ks \<Longrightarrow> dict_get (without_keys ks d) k = dict_get d k"
  by (induction d) (auto simp: without_keys_def dict_get_def)

lemma evidence_ok_without:
  assumes "evidence_ok s" and "es_quota s' = es_quota s"
    and "es_records s' = without_keys ks (es_records s)" and "es_blobs s' = without_keys ks (es_blobs s)"
  shows "evidence_ok s'"
proof -
  have size: "\<forall>(k, r) \<in> set (es_records s). 0 \<le> ev_size r" using assms(1) by (fastforce simp: evidence_ok_def)
  have len: "int (length (es_records s')) \<le> qt_max_blobs (es_quota s)"
  proof -
    have "length (es_records s') \<le> length (es_records s)" by (simp add: assms(3) without_keys_def)
    moreover have "int (length (es_records s)) \<le> qt_max_blobs (es_quota s)" using assms(1) by (simp add: evidence_ok_def)
    ultimately show ?thesis by linarith
  qed
  have bytes: "bytes_used s' \<le> qt_max_bytes (es_quota s)"
    using assms(1) bytes_used_filter [OF size, of "\<lambda>p. fst p \<notin> set ks"]
    by (simp add: evidence_ok_def bytes_used_def without_keys_def assms(3))
  have each: "k = scoped_key (ev_hash r) (ev_tenant r) \<and> ev_retention r \<noteq> NEVER_PERSIST
      \<and> ev_size r \<le> qt_max_blob_bytes (es_quota s)
      \<and> (\<exists>payload. dict_get (es_blobs s') k = Some payload \<and> ev_size r = int (length payload))"
    if "(k, r) \<in> set (es_records s')" for k r
  proof -
    from that have "(k, r) \<in> set (es_records s)" "k \<notin> set ks" by (simp_all add: assms(3) without_keys_def)
    with assms(1) show ?thesis by (auto simp: evidence_ok_def assms(4) without_keys_get)
  qed
  have "wf_dict (es_records s') \<and> wf_dict (es_blobs s') \<and> dict_keys (es_blobs s') = dict_keys (es_records s')"
    using assms(1) by (simp add: evidence_ok_def assms(3,4) keys_without)
  with len bytes each show ?thesis unfolding evidence_ok_def assms(2) by blast
qed

lemma evidence_ok_expire: "evidence_ok s \<Longrightarrow> evidence_ok (snd (evidence_expire before t s))"
  by (rule evidence_ok_without [of s]) (simp_all add: evidence_expire_def evidence_expire_fold)

lemma evidence_ok_erase: "evidence_ok s \<Longrightarrow> evidence_ok (snd (evidence_erase sc s))"
  by (rule evidence_ok_without [of s]) (simp_all add: evidence_erase_facts)

lemma evidence_put_cases:
  obtains (kept) r where "evidence_put i s = (r, s)"
  | (stored) "evidence_put i s = (Inr (''sha256:'' @ ei_hash i),
        s\<lparr>es_blobs := dict_set (scoped_key (ei_hash i) (ei_tenant i)) (ei_payload i) (es_blobs s),
          es_records := dict_set (scoped_key (ei_hash i) (ei_tenant i)) (record_of_input i) (es_records s)\<rparr>)"
    and "ei_retention i \<noteq> NEVER_PERSIST" and "int (length (ei_payload i)) \<le> qt_max_blob_bytes (es_quota s)"
    and "scoped_key (ei_hash i) (ei_tenant i) \<notin> set (dict_keys (es_records s))"
    and "int (length (es_records s)) < qt_max_blobs (es_quota s)"
    and "bytes_used s + int (length (ei_payload i)) \<le> qt_max_bytes (es_quota s)"
  unfolding evidence_put_def Let_def by (force split: if_splits)

lemma dict_set_new: "k \<notin> set (dict_keys d) \<Longrightarrow> dict_set k v d = d @ [(k, v)]"
  by (induction d) (auto simp: dict_set_def)

lemma evidence_ok_put: assumes "evidence_ok s" shows "evidence_ok (snd (evidence_put i s))"
proof (cases i s rule: evidence_put_cases)
  case (kept r)
  with assms show ?thesis by simp
next
  case stored
  let ?k = "scoped_key (ei_hash i) (ei_tenant i)"
  let ?r = "record_of_input i"
  let ?s = "snd (evidence_put i s)"
  have new: "?k \<notin> set (dict_keys (es_blobs s))" using stored(4) assms by (simp add: evidence_ok_def)
  have recs: "es_records ?s = es_records s @ [(?k, ?r)]" and blobs: "es_blobs ?s = es_blobs s @ [(?k, ei_payload i)]"
    and quota: "es_quota ?s = es_quota s"
    using dict_set_new [OF stored(4)] dict_set_new [OF new] by (simp_all add: stored(1))
  have each: "k = scoped_key (ev_hash r) (ev_tenant r) \<and> ev_retention r \<noteq> NEVER_PERSIST
      \<and> ev_size r \<le> qt_max_blob_bytes (es_quota s)
      \<and> (\<exists>payload. dict_get (es_blobs ?s) k = Some payload \<and> ev_size r = int (length payload))"
    if "(k, r) \<in> set (es_records ?s)" for k r
  proof (cases "(k, r) \<in> set (es_records s)")
    case True
    with assms show ?thesis by (auto simp: evidence_ok_def blobs dict_get_def map_add_def split: option.splits)
  next
    case False
    with that recs have "k = ?k" "r = ?r" by simp_all
    moreover have "dict_get (es_blobs ?s) ?k = Some (ei_payload i)"
      using new by (simp add: blobs dict_get_def map_add_def map_of_eq_None_iff [THEN iffD2])
    ultimately show ?thesis using stored(2,3) by (simp add: record_of_input_def)
  qed
  have "bytes_used ?s \<le> qt_max_bytes (es_quota s)" using stored(6) by (simp add: bytes_used_def recs record_of_input_def)
  moreover have "int (length (es_records ?s)) \<le> qt_max_blobs (es_quota s)" using stored(5) by (simp add: recs)
  moreover have "wf_dict (es_records ?s) \<and> wf_dict (es_blobs ?s) \<and> dict_keys (es_blobs ?s) = dict_keys (es_records ?s)"
    using assms new stored(4) by (simp add: evidence_ok_def recs blobs wf_dict_def)
  ultimately show ?thesis using each unfolding evidence_ok_def quota by blast
qed

lemma evidence_ok_run: "evidence_ok s \<Longrightarrow> evidence_ok (evidence_run ops s)"
proof (induction ops arbitrary: s)
  case (Cons op ops)
  then have "evidence_ok (evidence_op_step op s)"
    by (cases op) (simp_all add: evidence_ok_put evidence_ok_expire evidence_ok_erase)
  with Cons.IH show ?case by (simp add: evidence_run_def)
qed (simp add: evidence_run_def)

lemma evidence_ok_init: "mk_evidence_quota q = Inr q' \<Longrightarrow> evidence_ok (evidence_init q)"
  by (auto simp: mk_evidence_quota_def evidence_init_def evidence_ok_def bytes_used_def split: if_splits)

text \<open>Tombstones only accumulate.\<close>

lemma tombstones_step: "set (dict_keys (es_tombstones s)) \<subseteq> set (dict_keys (es_tombstones (evidence_op_step op s)))"
proof (cases op)
  case (EvPut i)
  then show ?thesis by (cases i s rule: evidence_put_cases) simp_all
qed (auto simp: evidence_expire_def evidence_expire_fold evidence_erase_facts)

lemma tombstones_run: "set (dict_keys (es_tombstones s)) \<subseteq> set (dict_keys (es_tombstones (evidence_run ops s)))"
proof (induction ops arbitrary: s)
  case (Cons op ops)
  then show ?case using tombstones_step [of s op] by (simp add: evidence_run_def) blast
qed (simp add: evidence_run_def)


lemma evidence_quota_run: "es_quota (evidence_run ops s) = es_quota s"
proof (induction ops arbitrary: s)
  case (Cons op ops)
  have "es_quota (evidence_op_step op s) = es_quota s"
  proof (cases op)
    case (EvPut i)
    then show ?thesis by (cases i s rule: evidence_put_cases) simp_all
  qed (simp_all add: evidence_expire_def evidence_expire_fold evidence_erase_facts)
  with Cons show ?case by (simp add: evidence_run_def)
qed (simp add: evidence_run_def)

lemma evidence_run_ok:
  assumes "mk_evidence_quota q = Inr q"
  shows "evidence_ok (evidence_run ops (evidence_init q))" and "es_quota (evidence_run ops (evidence_init q)) = q"
  using evidence_ok_run [OF evidence_ok_init [OF assms]] by (simp_all add: evidence_quota_run evidence_init_def)

lemma blob_hash_of_ref [simp]: "blob_hash_of (''sha256:'' @ h) = h"
  by (simp add: blob_hash_of_def)

lemma evidence_get_erased:
  "scoped_key (blob_hash_of b) t \<in> set (dict_keys (es_tombstones s)) \<Longrightarrow>
     evidence_get b t s = \<lparr>ef_status = ERASED_EVIDENCE, ef_payload = None, ef_observation = None\<rparr>"
  by (simp add: evidence_get_def Let_def)

lemma scoped_key_inject:
  assumes "CHR ''/'' \<notin> set t" and "CHR ''/'' \<notin> set u" and "scoped_key h t = scoped_key g u"
  shows "t = u \<and> h = g"
proof -
  have split: "takeWhile (\<lambda>c. c \<noteq> CHR ''/'') (scoped_key h t) = t" if "CHR ''/'' \<notin> set t" for h t
    using that by (induction t) (auto simp: scoped_key_def)
  from split [OF assms(1), of h] split [OF assms(2), of g] assms(3) have "t = u" by simp
  with assms(3) show ?thesis by (simp add: scoped_key_def)
qed

text \<open>
  What the code does at the edges. An erasure window is compared with the time of expiry, because
  that is what a new record's \<^verbatim>\<open>stored_at\<close> is; expired evidence is reported as never stored; content
  put again under an erased key is counted but never readable; and a hash that contains a slash
  names another tenant's blob when a tenant's identifier contains one.
\<close>

lemma erase_window_reads_expiry:
  "ei_expires_at i = Some x \<Longrightarrow>
     erase_scope_matches (record_of_input i)
       \<lparr>ec_tenant = ei_tenant i, ec_objects = [], ec_cameras = [], ec_before = Some T, ec_after = None, ec_authority = a\<rparr>
     \<longleftrightarrow> instant_ns x < instant_ns T"
  by (auto simp: erase_scope_matches_def record_of_input_def)

lemma expired_is_reported_as_never_stored:
  assumes "evidence_ok s" and "dict_get (es_records s) k = Some r" and "evidence_expires now tn r"
    and "scoped_key (blob_hash_of b) t = k" and "k \<notin> set (dict_keys (es_tombstones s))"
  shows "ef_status (evidence_get b t (snd (evidence_expire now tn s))) = EVIDENCE_NOT_FOUND"
proof -
  have "k \<in> set (doomed_keys (evidence_expires now tn) (es_records s))"
    using assms(2,3) by (force simp: doomed_keys_def dest: dict_get_Some_in)
  then have "dict_get (without_keys (doomed_keys (evidence_expires now tn) (es_records s)) (es_records s)) k = None"
    by (auto simp: dict_get_None_iff keys_without simp del: set_map)
  with assms(4,5) show ?thesis by (simp add: evidence_get_def evidence_expire_def evidence_expire_fold)
qed

lemma erased_content_is_stored_unreadable:
  assumes "fst (evidence_put i s) = Inr ref" and "scoped_key (ei_hash i) (ei_tenant i) \<in> set (dict_keys (es_tombstones s))"
    and "ei_retention i \<noteq> NEVER_PERSIST"
  shows "evidence_exists (ei_hash i) (ei_tenant i) (snd (evidence_put i s))"
    and "ef_status (evidence_get ref (ei_tenant i) (snd (evidence_put i s))) = ERASED_EVIDENCE"
proof -
  have ref: "ref = ''sha256:'' @ ei_hash i" using assms(1) by (auto simp: evidence_put_def Let_def split: if_splits)
  have "es_tombstones (snd (evidence_put i s)) = es_tombstones s"
    by (cases i s rule: evidence_put_cases) simp_all
  with assms(2) show "ef_status (evidence_get ref (ei_tenant i) (snd (evidence_put i s))) = ERASED_EVIDENCE"
    by (simp add: ref evidence_get_erased del: append_Cons append_Nil)
  show "evidence_exists (ei_hash i) (ei_tenant i) (snd (evidence_put i s))"
    using assms(1,3) by (auto simp: evidence_put_def Let_def evidence_exists_def dict_simps split: if_splits)
qed

lemma slash_reads_another_tenant:
  "evidence_get (''sha256:'' @ u @ ''/'' @ h) t s = evidence_get (''sha256:'' @ h) (t @ ''/'' @ u) s"
  by (simp add: evidence_get_def scoped_key_def blob_hash_of_def)

section \<open>The store keeps its quota and its promises\<close>


text \<open>
  C20: An erasure removes exactly the records its scope matches. Whatever is put, expired or erased
  afterwards, every fetch of an erased key says that it was erased and returns no payload, and the
  evidence call of the Observation API over that store never returns a payload for it, for any
  caller, purpose and time.
\<close>

theorem erasure_is_permanent:
  assumes "mk_evidence_quota q = Inr q" and "s = evidence_run ops (evidence_init q)"
    and "dict_get (es_records s) (scoped_key (blob_hash_of b) t) = Some r" and "erase_scope_matches r sc"
    and "s' = evidence_run rest (snd (evidence_erase sc s))"
  shows "es_records (snd (evidence_erase sc s)) = filter (\<lambda>(k, r). \<not> erase_scope_matches r sc) (es_records s)
    \<and> evidence_get b t s' = \<lparr>ef_status = ERASED_EVIDENCE, ef_payload = None, ef_observation = None\<rparr>
    \<and> (pr_tenant p = t \<longrightarrow> ae_evidence e = Some (\<lambda>b t. evidence_get b t s') \<longrightarrow>
         raises (fst (get_evidence e now p b purpose api)))"
proof (intro conjI impI)
  let ?k = "scoped_key (blob_hash_of b) t"
  have "wf_dict (es_records s)" using evidence_run_ok [OF assms(1)] by (simp add: assms(2) evidence_ok_def)
  then show "es_records (snd (evidence_erase sc s)) = filter (\<lambda>(k, r). \<not> erase_scope_matches r sc) (es_records s)"
    by (simp add: evidence_erase_facts without_doomed o_def case_prod_beta')
  have "?k \<in> set (doomed_keys (\<lambda>r. erase_scope_matches r sc) (es_records s))"
    using assms(3,4) by (force simp: doomed_keys_def dest: dict_get_Some_in)
  then have "?k \<in> set (dict_keys (es_tombstones (snd (evidence_erase sc s))))" by (simp add: evidence_erase_facts)
  then have tomb: "?k \<in> set (dict_keys (es_tombstones s'))"
    using tombstones_run [of "snd (evidence_erase sc s)" rest] assms(5) by blast
  then show "evidence_get b t s' = \<lparr>ef_status = ERASED_EVIDENCE, ef_payload = None, ef_observation = None\<rparr>"
    by (rule evidence_get_erased)
  then show "raises (fst (get_evidence e now p b purpose api))"
    if "pr_tenant p = t" and "ae_evidence e = Some (\<lambda>b t. evidence_get b t s')"
    using that by (auto simp: get_evidence_def Let_def split: sum.splits prod.splits)
qed

definition example_quota :: evidence_quota where
  "example_quota = \<lparr>qt_max_bytes = 10, qt_max_blobs = 2, qt_max_blob_bytes = 8\<rparr>"

definition example_input :: "string \<Rightarrow> int list \<Rightarrow> evidence_input" where
  "example_input h bytes = \<lparr>ei_hash = h, ei_payload = bytes, ei_tenant = ''acme'', ei_retention = EVIDENCE,
     ei_privacy = C1_IMAGERY, ei_expires_at = Some (Instant 50), ei_camera = Some ''cam'', ei_object = Some ''o1'',
     ei_observation = None\<rparr>"

lemmas example_evidence_simps =
  example_quota_def example_input_def evidence_run_def evidence_init_def evidence_put_def scoped_key_def dict_set_def
  bytes_used_def record_of_input_def Let_def


theorem erasure_is_permanent_witness:
  "evidence_get ''sha256:h1'' ''acme''
     (evidence_run [EvPut (example_input ''h1'' [1, 2, 3])]
       (snd (evidence_erase \<lparr>ec_tenant = ''acme'', ec_objects = [''o1''], ec_cameras = [], ec_before = None, ec_after = None, ec_authority = ''dpo''\<rparr>
         (evidence_run [EvPut (example_input ''h1'' [1, 2, 3])] (evidence_init example_quota)))))
   = \<lparr>ef_status = ERASED_EVIDENCE, ef_payload = None, ef_observation = None\<rparr>"
proof -
  have "mk_evidence_quota example_quota = Inr example_quota" by (simp add: mk_evidence_quota_def example_quota_def)
  moreover have "dict_get (es_records (evidence_run [EvPut (example_input ''h1'' [1, 2, 3])] (evidence_init example_quota)))
      (scoped_key (blob_hash_of ''sha256:h1'') ''acme'') = Some (record_of_input (example_input ''h1'' [1, 2, 3]))"
    by (simp add: example_evidence_simps blob_hash_of_def dict_get_def)
  moreover have "erase_scope_matches (record_of_input (example_input ''h1'' [1, 2, 3]))
      \<lparr>ec_tenant = ''acme'', ec_objects = [''o1''], ec_cameras = [], ec_before = None, ec_after = None, ec_authority = ''dpo''\<rparr>"
    by (simp add: erase_scope_matches_def example_evidence_simps listed_def)
  ultimately show ?thesis by (rule erasure_is_permanent [OF _ refl _ _ refl, THEN conjunct2, THEN conjunct1])
qed

end
