(* ===== verification/Event_Bus.thy ===== *)
theory Event_Bus
  imports Timebase Gap_Queue
begin

text \<open>
  The kernel's event bus (\<^verbatim>\<open>vision_os/kernel/events/bus.py\<close>) over the catalogue of event types of
  \<^verbatim>\<open>events.py\<close>. An event is its type's name, its partition key and a body that the bus never looks
  at. Subscription objects live in a list and are named by their index, so that the identity
  comparisons of the code are comparisons of indices; the identifier made up for a subscription
  without one is an argument. A predicate may raise. The transport is a function that says whether
  its \<^verbatim>\<open>deliver\<close> raises.
\<close>

section \<open>Events and subscriptions\<close>

record 'a event =
  be_type :: string
  be_partition :: string
  be_body :: 'a

definition all_event_types :: "string list" where
  "all_event_types =
    [''stream.connected'', ''stream.lost'', ''stream.epoch_advanced'', ''stream.decode_failed'',
     ''privacy.mask_failed'', ''stream.clock_quality_changed'', ''scheduler.sustained_drop'',
     ''scheduler.budget_exceeded'', ''buffer.pool_pressure'', ''buffer.lease_leaked'', ''buffer.frame_evicted'',
     ''camera.changed'', ''camera.viewpoint_drift_suspected'', ''config.changed'', ''plugin.loaded'',
     ''plugin.rejected'', ''health.changed'', ''health.coverage_changed'', ''health.silent_failure_suspected'',
     ''runtime.pipeline_attached'', ''runtime.pipeline_detached'', ''bus.gap'', ''model.loaded'', ''model.evicted'',
     ''model.swapped'', ''model.device_pressure'', ''model.canary_promoted'', ''detection.completed'',
     ''detection.failed'', ''detection.detector_loaded'', ''detection.detector_unloaded'',
     ''detection.threshold_exceeded'', ''detection.performance_warning'', ''tracking.track_created'',
     ''tracking.track_updated'', ''tracking.track_recovered'', ''tracking.track_lost'',
     ''tracking.track_terminated'', ''tracking.association_failure'', ''tracking.warning'',
     ''tracking.tracker_loaded'', ''tracking.tracker_unloaded'', ''tracking.epoch_advanced'',
     ''registry.object_created'', ''registry.lifecycle_changed'', ''registry.identity_asserted'',
     ''registry.identity_revised'', ''registry.region_transition'', ''registry.population_capped'',
     ''cropping.budget_exhausted'', ''cropping.gate_rejection_spike'', ''cropping.capability_gap'',
     ''understanding.failed'', ''understanding.fallback_engaged'', ''understanding.schema_drift_suspected'',
     ''synthesis.observation_rejected'', ''synthesis.schema_violation_spike'', ''state.partition_degraded'',
     ''state.partition_recovered'', ''state.observation_quarantined'', ''state.rebuilt'']"

datatype bus_overflow_policy = DROP_OLDEST | DROP_NEWEST | CONFLATE

record bus_policy =
  bp_capacity :: int
  bp_overflow :: bus_overflow_policy

definition mk_bus_policy :: "bus_policy \<Rightarrow> bus_policy result" where
  "mk_bus_policy p = (if bp_capacity p < 1 then Inl ValueError else Inr p)"

record 'a bus_subscription =
  bs_id :: string
  bs_types :: "string list"
  bs_filter :: "('a event \<Rightarrow> bool result) option"
  bs_policy :: bus_policy
  bs_queue :: "'a event list"
  bs_dropped :: int
  bs_undeclared :: int
  bs_closed :: bool

record bus_gap =
  bg_occurred_at :: instant
  bg_subscription :: string
  bg_dropped :: int

definition bus_matches :: "'a event \<Rightarrow> 'a bus_subscription \<Rightarrow> bool" where
  "bus_matches e s =
     (if bs_types s \<noteq> [] \<and> be_type e \<notin> set (bs_types s) then False
      else case bs_filter s of None \<Rightarrow> True
           | Some f \<Rightarrow> (case f e of Inl err \<Rightarrow> False | Inr keep \<Rightarrow> keep))"

text \<open>The loop of \<open>CONFLATE\<close>: the first queued event with the key is replaced where it stands.\<close>

fun replace_keyed :: "'a event \<Rightarrow> 'a event list \<Rightarrow> 'a event list option" where
  "replace_keyed e [] = None"
| "replace_keyed e (x # q) =
     (if be_partition x = be_partition e then Some (e # q)
      else case replace_keyed e q of None \<Rightarrow> None | Some q' \<Rightarrow> Some (x # q'))"

definition bus_count_drop :: "'a bus_subscription \<Rightarrow> 'a bus_subscription" where
  "bus_count_drop s = s\<lparr>bs_dropped := bs_dropped s + 1, bs_undeclared := bs_undeclared s + 1\<rparr>"

definition bus_enqueue :: "'a event \<Rightarrow> 'a bus_subscription \<Rightarrow> int \<times> 'a bus_subscription" where
  "bus_enqueue e s =
     (if int (length (bs_queue s)) < bp_capacity (bs_policy s) then (0, s\<lparr>bs_queue := bs_queue s @ [e]\<rparr>)
      else if bp_overflow (bs_policy s) = DROP_NEWEST then (1, bus_count_drop s)
      else (1, bus_count_drop (s\<lparr>bs_queue := tl (bs_queue s) @ [e]\<rparr>)))"

definition bus_offer :: "'a event \<Rightarrow> 'a bus_subscription \<Rightarrow> int \<times> 'a bus_subscription" where
  "bus_offer e s =
     (if bs_closed s then (0, s)
      else if bp_overflow (bs_policy s) = CONFLATE
      then (case replace_keyed e (bs_queue s) of
              Some q \<Rightarrow> (0, s\<lparr>bs_queue := q\<rparr>)
            | None \<Rightarrow> bus_enqueue e s)
      else bus_enqueue e s)"

definition bus_drain ::
  "instant \<Rightarrow> int option \<Rightarrow> 'a bus_subscription \<Rightarrow> (bus_gap option \<times> 'a event list) \<times> 'a bus_subscription" where
  "bus_drain now limit s =
     (let gap = (if bs_undeclared s \<noteq> 0
                 then Some \<lparr>bg_occurred_at = now, bg_subscription = bs_id s, bg_dropped = bs_undeclared s\<rparr> else None);
          n = (case limit of None \<Rightarrow> length (bs_queue s)
               | Some k \<Rightarrow> if k \<ge> int (length (bs_queue s)) then length (bs_queue s) else nat k)
      in ((gap, take n (bs_queue s)), s\<lparr>bs_undeclared := 0, bs_queue := drop n (bs_queue s)\<rparr>))"

definition bus_close_subscription :: "'a bus_subscription \<Rightarrow> 'a bus_subscription" where
  "bus_close_subscription s = s\<lparr>bs_closed := True, bs_queue := []\<rparr>"

section \<open>The bus\<close>

record bus_stats =
  bst_published :: int
  bst_delivered :: int
  bst_dropped :: int
  bst_gaps_emitted :: int
  bst_transport_failures :: int
  bst_by_type :: "(string, int) dict"

record 'a bus =
  eb_subscriptions :: "'a bus_subscription list"
  eb_by_type :: "(string, nat list) dict"
  eb_all :: "nat list"
  eb_registered :: "string list"
  eb_stats :: bus_stats

definition bus_init :: "'a bus" where
  "bus_init = \<lparr>eb_subscriptions = [], eb_by_type = [], eb_all = [], eb_registered = all_event_types,
     eb_stats = \<lparr>bst_published = 0, bst_delivered = 0, bst_dropped = 0, bst_gaps_emitted = 0,
                bst_transport_failures = 0, bst_by_type = []\<rparr>\<rparr>"

definition register_event_type :: "string \<Rightarrow> 'a bus \<Rightarrow> 'a bus" where
  "register_event_type n b = b\<lparr>eb_registered := List.insert n (eb_registered b)\<rparr>"

definition is_registered :: "string \<Rightarrow> 'a bus \<Rightarrow> bool" where
  "is_registered n b \<longleftrightarrow> n \<in> set (eb_registered b)"

definition subscribers :: "string \<Rightarrow> 'a bus \<Rightarrow> nat list" where
  "subscribers n b = (case dict_get (eb_by_type b) n of None \<Rightarrow> [] | Some rs \<Rightarrow> rs)"

definition bus_targets :: "'a event \<Rightarrow> 'a bus \<Rightarrow> nat list" where
  "bus_targets e b = subscribers (be_type e) b @ eb_all b"

definition count_published :: "'a event \<Rightarrow> bus_stats \<Rightarrow> bus_stats" where
  "count_published e st =
     st\<lparr>bst_published := bst_published st + 1,
        bst_by_type := dict_set (be_type e) ((case dict_get (bst_by_type st) (be_type e) of None \<Rightarrow> 0 | Some n \<Rightarrow> n) + 1)
          (bst_by_type st)\<rparr>"

definition count_offer :: "int \<Rightarrow> bus_stats \<Rightarrow> bus_stats" where
  "count_offer dropped st =
     (if dropped \<noteq> 0 then st\<lparr>bst_dropped := bst_dropped st + dropped, bst_gaps_emitted := bst_gaps_emitted st + dropped\<rparr>
      else st\<lparr>bst_delivered := bst_delivered st + 1\<rparr>)"

definition deliver_to :: "'a event \<Rightarrow> nat \<Rightarrow> 'a bus \<Rightarrow> 'a bus" where
  "deliver_to e r b =
     (if \<not> bus_matches e (eb_subscriptions b ! r) then b
      else case bus_offer e (eb_subscriptions b ! r) of
             (dropped, s) \<Rightarrow> b\<lparr>eb_subscriptions := (eb_subscriptions b)[r := s], eb_stats := count_offer dropped (eb_stats b)\<rparr>)"

definition forward_event :: "('a event \<Rightarrow> bool) option \<Rightarrow> 'a event \<Rightarrow> 'a bus \<Rightarrow> 'a bus" where
  "forward_event transport e b =
     (case transport of None \<Rightarrow> b
      | Some fails \<Rightarrow> if fails e
          then b\<lparr>eb_stats := (eb_stats b)\<lparr>bst_transport_failures := bst_transport_failures (eb_stats b) + 1\<rparr>\<rparr> else b)"

definition bus_publish :: "('a event \<Rightarrow> bool) option \<Rightarrow> 'a event \<Rightarrow> 'a bus \<Rightarrow> unit result \<times> 'a bus" where
  "bus_publish transport e b =
     (if be_type e \<notin> set (eb_registered b) then (Inl ValueError, b)
      else (Inr (), forward_event transport e
             (fold (deliver_to e) (bus_targets e b) (b\<lparr>eb_stats := count_published e (eb_stats b)\<rparr>))))"

definition index_subscription :: "nat \<Rightarrow> string \<Rightarrow> (string, nat list) dict \<Rightarrow> (string, nat list) dict" where
  "index_subscription r n d = dict_set n ((case dict_get d n of None \<Rightarrow> [] | Some rs \<Rightarrow> rs) @ [r]) d"

definition new_subscription ::
  "string \<Rightarrow> string list \<Rightarrow> ('a event \<Rightarrow> bool result) option \<Rightarrow> bus_policy \<Rightarrow> 'a bus_subscription" where
  "new_subscription i names f pol =
     \<lparr>bs_id = i, bs_types = names, bs_filter = f, bs_policy = pol, bs_queue = [], bs_dropped = 0, bs_undeclared = 0,
      bs_closed = False\<rparr>"

definition default_bus_policy :: bus_policy where
  "default_bus_policy = \<lparr>bp_capacity = 1024, bp_overflow = DROP_OLDEST\<rparr>"

definition bus_subscribe ::
  "string \<Rightarrow> string list option \<Rightarrow> ('a event \<Rightarrow> bool result) option \<Rightarrow> bus_policy option \<Rightarrow> string option
   \<Rightarrow> 'a bus \<Rightarrow> nat result \<times> 'a bus" where
  "bus_subscribe fresh types f pol sid b =
     (let names = (case types of None \<Rightarrow> [] | Some ns \<Rightarrow> remdups ns);
          i = (case sid of None \<Rightarrow> fresh | Some i \<Rightarrow> if i = [] then fresh else i);
          s = new_subscription i names f (case pol of None \<Rightarrow> default_bus_policy | Some p \<Rightarrow> p);
          r = length (eb_subscriptions b)
      in if \<exists>n\<in>set names. n \<notin> set (eb_registered b) then (Inl ValueError, b)
         else if names \<noteq> []
         then (Inr r, b\<lparr>eb_subscriptions := eb_subscriptions b @ [s],
                       eb_by_type := fold (index_subscription r) names (eb_by_type b)\<rparr>)
         else (Inr r, b\<lparr>eb_subscriptions := eb_subscriptions b @ [s], eb_all := eb_all b @ [r]\<rparr>))"

definition bus_unsubscribe :: "nat \<Rightarrow> 'a bus \<Rightarrow> 'a bus" where
  "bus_unsubscribe r b =
     b\<lparr>eb_by_type := map (\<lambda>(n, rs). (n, remove1 r rs)) (eb_by_type b), eb_all := remove1 r (eb_all b),
       eb_subscriptions := (eb_subscriptions b)[r := bus_close_subscription (eb_subscriptions b ! r)]\<rparr>"

definition bus_drain_subscription ::
  "instant \<Rightarrow> int option \<Rightarrow> nat \<Rightarrow> 'a bus \<Rightarrow> (bus_gap option \<times> 'a event list) \<times> 'a bus" where
  "bus_drain_subscription now limit r b =
     (case bus_drain now limit (eb_subscriptions b ! r) of
        (out, s) \<Rightarrow> (out, b\<lparr>eb_subscriptions := (eb_subscriptions b)[r := s]\<rparr>))"

definition close_at :: "nat \<Rightarrow> 'a bus_subscription list \<Rightarrow> 'a bus_subscription list" where
  "close_at r ss = ss[r := bus_close_subscription (ss ! r)]"

definition bus_close :: "'a bus \<Rightarrow> 'a bus" where
  "bus_close b =
     (let everything = eb_all b @ concat (map snd (eb_by_type b))
      in b\<lparr>eb_all := [], eb_by_type := [], eb_subscriptions := fold close_at everything (eb_subscriptions b)\<rparr>)"

definition subscription_count :: "'a bus \<Rightarrow> int" where
  "subscription_count b = int (length (eb_all b)) + sum_list (map (\<lambda>(n, rs). int (length rs)) (eb_by_type b))"


section \<open>One subscription is a gap-reporting queue\<close>

definition dropping_oldest :: "'a bus_subscription \<Rightarrow> bool" where
  "dropping_oldest s \<longleftrightarrow> bp_overflow (bs_policy s) = DROP_OLDEST \<and> 1 \<le> bp_capacity (bs_policy s)
     \<and> \<not> bs_closed s \<and> 0 \<le> bs_undeclared s"

definition bus_missed :: "bus_gap option \<Rightarrow> nat" where
  "bus_missed g = (case g of None \<Rightarrow> 0 | Some g \<Rightarrow> nat (bg_dropped g))"

definition bus_drain_entry ::
  "instant \<times> int option \<Rightarrow> 'a bus_subscription \<Rightarrow> (nat \<times> 'a event list) \<times> 'a bus_subscription" where
  "bus_drain_entry d s = apfst (apfst bus_missed) (bus_drain (fst d) (snd d) s)"

lemma bus_offer_dropping:
  assumes "dropping_oldest s"
  shows "dropping_oldest (snd (bus_offer e s))"
    and "\<exists>k \<le> length (bs_queue s). nat (bs_undeclared (snd (bus_offer e s))) = nat (bs_undeclared s) + k
      \<and> bs_queue (snd (bus_offer e s)) = drop k (bs_queue s @ [e])"
proof -
  show "dropping_oldest (snd (bus_offer e s))"
    using assms by (auto simp: bus_offer_def bus_enqueue_def bus_count_drop_def dropping_oldest_def)
  show "\<exists>k \<le> length (bs_queue s). nat (bs_undeclared (snd (bus_offer e s))) = nat (bs_undeclared s) + k
      \<and> bs_queue (snd (bus_offer e s)) = drop k (bs_queue s @ [e])"
  proof (cases "int (length (bs_queue s)) < bp_capacity (bs_policy s)")
    case True
    with assms show ?thesis
      by (intro exI [of _ 0]) (simp add: bus_offer_def bus_enqueue_def dropping_oldest_def)
  next
    case False
    with assms obtain y ys where "bs_queue s = y # ys" by (cases "bs_queue s") (auto simp: dropping_oldest_def)
    with False assms show ?thesis
      by (intro exI [of _ 1]) (simp add: bus_offer_def bus_enqueue_def bus_count_drop_def dropping_oldest_def nat_add_distrib)
  qed
qed

interpretation bus_queue: gap_queue bs_queue "\<lambda>s. nat (bs_undeclared s)" "\<lambda>e. e" "\<lambda>e s. snd (bus_offer e s)"
  bus_drain_entry dropping_oldest
proof (unfold_locales, goal_cases)
  case (1 s i)
  then show ?case by (rule bus_offer_dropping)
next
  case (2 s i)
  then show ?case by (rule bus_offer_dropping)
next
  case (3 s d)
  then show ?case by (simp add: bus_drain_entry_def bus_drain_def dropping_oldest_def Let_def)
next
  case (4 s d)
  then show ?case by (simp add: bus_drain_entry_def bus_drain_def dropping_oldest_def bus_missed_def Let_def)
next
  case (5 s d)
  then show ?case by (auto simp: bus_drain_entry_def bus_drain_def Let_def)
qed

section \<open>The index and its subscriptions\<close>

definition linked :: "nat \<Rightarrow> 'a bus \<Rightarrow> bool" where
  "linked r b \<longleftrightarrow> r < length (eb_subscriptions b)
     \<and> (if bs_types (eb_subscriptions b ! r) = [] then r \<in> set (eb_all b)
        else \<forall>n\<in>set (bs_types (eb_subscriptions b ! r)). r \<in> set (subscribers n b))"

definition detached :: "nat \<Rightarrow> 'a bus \<Rightarrow> bool" where
  "detached r b \<longleftrightarrow> r \<notin> set (eb_all b) \<and> (\<forall>n. r \<notin> set (subscribers n b))"

definition bus_ok :: "'a bus \<Rightarrow> bool" where
  "bus_ok b \<longleftrightarrow> wf_dict (eb_by_type b) \<and> distinct (eb_all b) \<and> (\<forall>n. distinct (subscribers n b))
     \<and> (\<forall>r\<in>set (eb_all b). r < length (eb_subscriptions b) \<and> bs_types (eb_subscriptions b ! r) = [])
     \<and> (\<forall>n. \<forall>r\<in>set (subscribers n b). r < length (eb_subscriptions b) \<and> n \<in> set (bs_types (eb_subscriptions b ! r)))
     \<and> (\<forall>r<length (eb_subscriptions b). linked r b \<or> detached r b)"

definition bus_take :: "'a event \<Rightarrow> 'a bus_subscription \<Rightarrow> 'a bus_subscription" where
  "bus_take e s = (if bus_matches e s then snd (bus_offer e s) else s)"

lemma bus_offer_frame [simp]:
  "bs_id (snd (bus_offer e s)) = bs_id s" "bs_types (snd (bus_offer e s)) = bs_types s"
  "bs_filter (snd (bus_offer e s)) = bs_filter s" "bs_policy (snd (bus_offer e s)) = bs_policy s"
  "bs_closed (snd (bus_offer e s)) = bs_closed s"
  by (simp_all add: bus_offer_def bus_enqueue_def bus_count_drop_def split: option.split)

lemma bus_take_types [simp]: "bs_types (bus_take e s) = bs_types s" "bus_matches x (bus_take e s) = bus_matches x s"
  by (simp_all add: bus_take_def bus_matches_def)

lemma deliver_to_subscriptions:
  "eb_subscriptions (deliver_to e r b) = (eb_subscriptions b)[r := bus_take e (eb_subscriptions b ! r)]"
  by (auto simp: deliver_to_def bus_take_def split: prod.split)

lemma deliver_to_frame [simp]:
  "eb_by_type (deliver_to e r b) = eb_by_type b" "eb_all (deliver_to e r b) = eb_all b"
  "eb_registered (deliver_to e r b) = eb_registered b"
  by (simp_all add: deliver_to_def split: prod.split)

lemma deliver_all_frame [simp]:
  "eb_by_type (fold (deliver_to e) rs b) = eb_by_type b" "eb_all (fold (deliver_to e) rs b) = eb_all b"
  "eb_registered (fold (deliver_to e) rs b) = eb_registered b"
  "length (eb_subscriptions (fold (deliver_to e) rs b)) = length (eb_subscriptions b)"
  by (induction rs arbitrary: b) (simp_all add: deliver_to_subscriptions)

lemma deliver_all_subscriptions:
  assumes "distinct rs" and "r < length (eb_subscriptions b)"
  shows "eb_subscriptions (fold (deliver_to e) rs b) ! r =
    (if r \<in> set rs then bus_take e (eb_subscriptions b ! r) else eb_subscriptions b ! r)"
  using assms
proof (induction rs arbitrary: b)
  case (Cons a rs)
  then show ?case by (cases "a = r") (simp_all add: deliver_to_subscriptions)
qed simp

lemma count_offer_sum:
  "bst_delivered (count_offer k st) + bst_dropped (count_offer k st) = bst_delivered st + bst_dropped st + (if k \<noteq> 0 then k else 1)"
  "bst_published (count_offer k st) = bst_published st"
  by (simp_all add: count_offer_def)

lemma bus_offer_count: "fst (bus_offer e s) = 0 \<or> fst (bus_offer e s) = 1"
  by (simp add: bus_offer_def bus_enqueue_def split: option.split)

lemma deliver_all_counts:
  assumes "distinct rs" and "\<forall>r\<in>set rs. r < length (eb_subscriptions b)"
  shows "bst_published (eb_stats (fold (deliver_to e) rs b)) = bst_published (eb_stats b)
    \<and> bst_delivered (eb_stats (fold (deliver_to e) rs b)) + bst_dropped (eb_stats (fold (deliver_to e) rs b)) =
        bst_delivered (eb_stats b) + bst_dropped (eb_stats b)
        + int (length (filter (\<lambda>r. bus_matches e (eb_subscriptions b ! r)) rs))"
  using assms
proof (induction rs arbitrary: b)
  case (Cons r rs)
  let ?b = "deliver_to e r b"
  have here: "bst_published (eb_stats ?b) = bst_published (eb_stats b)"
    "bst_delivered (eb_stats ?b) + bst_dropped (eb_stats ?b) =
       bst_delivered (eb_stats b) + bst_dropped (eb_stats b) + (if bus_matches e (eb_subscriptions b ! r) then 1 else 0)"
    using bus_offer_count [of e "eb_subscriptions b ! r"]
    by (auto simp: deliver_to_def count_offer_sum split: prod.splits)
  have "filter (\<lambda>i. bus_matches e (eb_subscriptions ?b ! i)) rs = filter (\<lambda>i. bus_matches e (eb_subscriptions b ! i)) rs"
    by (rule filter_cong) (use Cons.prems in \<open>auto simp: deliver_to_subscriptions nth_list_update\<close>)
  with Cons.IH [of ?b] Cons.prems here show ?case by (simp add: deliver_to_subscriptions)
qed simp


section \<open>Publishing reaches exactly the linked subscriptions\<close>

lemma bus_ok_targets:
  assumes "bus_ok b"
  shows "distinct (bus_targets e b)" and "\<forall>r\<in>set (bus_targets e b). r < length (eb_subscriptions b)"
    and "r < length (eb_subscriptions b) \<Longrightarrow>
      r \<in> set (bus_targets e b) \<longleftrightarrow>
        linked r b \<and> (bs_types (eb_subscriptions b ! r) = [] \<or> be_type e \<in> set (bs_types (eb_subscriptions b ! r)))"
proof -
  have all: "r \<in> set (eb_all b) \<Longrightarrow> bs_types (eb_subscriptions b ! r) = []" for r
    using assms by (simp add: bus_ok_def)
  have one: "r \<in> set (subscribers n b) \<Longrightarrow> n \<in> set (bs_types (eb_subscriptions b ! r))" for r n
    using assms by (simp add: bus_ok_def)
  have "set (subscribers (be_type e) b) \<inter> set (eb_all b) = {}" using all one by fastforce
  then show "distinct (bus_targets e b)" using assms by (simp add: bus_targets_def bus_ok_def)
  show "\<forall>r\<in>set (bus_targets e b). r < length (eb_subscriptions b)"
    using assms by (auto simp: bus_targets_def bus_ok_def)
  assume r: "r < length (eb_subscriptions b)"
  with assms have "linked r b \<or> detached r b" by (simp add: bus_ok_def)
  then show "r \<in> set (bus_targets e b) \<longleftrightarrow>
      linked r b \<and> (bs_types (eb_subscriptions b ! r) = [] \<or> be_type e \<in> set (bs_types (eb_subscriptions b ! r)))"
    using all [of r] one [of r] by (auto simp: bus_targets_def linked_def detached_def)
qed

lemma bus_publish_frame [simp]:
  "eb_by_type (snd (bus_publish tr e b)) = eb_by_type b" "eb_all (snd (bus_publish tr e b)) = eb_all b"
  "eb_registered (snd (bus_publish tr e b)) = eb_registered b"
  "length (eb_subscriptions (snd (bus_publish tr e b))) = length (eb_subscriptions b)"
  by (simp_all add: bus_publish_def forward_event_def split: option.split)

lemma bus_publish_effect:
  assumes "bus_ok b" and "be_type e \<in> set (eb_registered b)" and "r < length (eb_subscriptions b)"
  shows "eb_subscriptions (snd (bus_publish tr e b)) ! r =
    (if linked r b then bus_take e (eb_subscriptions b ! r) else eb_subscriptions b ! r)"
proof -
  let ?b = "b\<lparr>eb_stats := count_published e (eb_stats b)\<rparr>"
  have "eb_subscriptions (snd (bus_publish tr e b)) = eb_subscriptions (fold (deliver_to e) (bus_targets e b) ?b)"
    using assms(2) by (simp add: bus_publish_def forward_event_def split: option.split)
  with deliver_all_subscriptions [OF bus_ok_targets(1) [OF assms(1), of e], of r ?b e] assms(3)
    bus_ok_targets(3) [OF assms(1,3), of e]
  show ?thesis by (auto simp: bus_take_def bus_matches_def)
qed

lemma bus_publish_rejected: "be_type e \<notin> set (eb_registered b) \<Longrightarrow> bus_publish tr e b = (Inl ValueError, b)"
  by (simp add: bus_publish_def)

lemma bus_publish_types:
  "bus_ok b \<Longrightarrow> r < length (eb_subscriptions b) \<Longrightarrow>
     bs_types (eb_subscriptions (snd (bus_publish tr e b)) ! r) = bs_types (eb_subscriptions b ! r)"
  by (cases "be_type e \<in> set (eb_registered b)") (simp_all add: bus_publish_effect bus_publish_rejected)

text \<open>\<open>bus_ok\<close> and the links only depend on the index and the types.\<close>

lemma same_index:
  assumes "eb_by_type b' = eb_by_type b" and "eb_all b' = eb_all b"
    and "length (eb_subscriptions b') = length (eb_subscriptions b)"
    and "\<And>r. r < length (eb_subscriptions b) \<Longrightarrow> bs_types (eb_subscriptions b' ! r) = bs_types (eb_subscriptions b ! r)"
  shows "linked r b' \<longleftrightarrow> linked r b" and "bus_ok b \<Longrightarrow> bus_ok b'"
proof -
  have subs: "subscribers n b' = subscribers n b" for n by (simp add: subscribers_def assms(1))
  have linked: "linked r b' \<longleftrightarrow> linked r b" for r using assms by (auto simp: linked_def subs)
  then show "linked r b' \<longleftrightarrow> linked r b" .
  have "detached r b' \<longleftrightarrow> detached r b" for r by (simp add: detached_def subs assms(2))
  with linked show "bus_ok b \<Longrightarrow> bus_ok b'"
    using assms by (simp add: bus_ok_def subs)
qed

lemma subscribers_index:
  assumes "distinct names"
  shows "subscribers n (b\<lparr>eb_by_type := fold (index_subscription r) names (eb_by_type b)\<rparr>) =
      subscribers n b @ (if n \<in> set names then [r] else [])
    \<and> (wf_dict (eb_by_type b) \<longrightarrow> wf_dict (fold (index_subscription r) names (eb_by_type b)))"
  using assms
proof (induction names arbitrary: b)
  case (Cons m names)
  from Cons.IH [of "b\<lparr>eb_by_type := index_subscription r m (eb_by_type b)\<rparr>"] Cons.prems show ?case
    by (auto simp: subscribers_def index_subscription_def dict_simps)
qed (simp add: subscribers_def)

lemma types_list_update: "bs_types s = bs_types (ss ! r) \<Longrightarrow> bs_types (ss[r := s] ! i) = bs_types (ss ! i)"
  by (cases "r < length ss") (auto simp: nth_list_update list_update_beyond)

lemma bus_ok_init: "bus_ok bus_init"
  by (simp add: bus_ok_def bus_init_def subscribers_def)

lemma bus_ok_publish: "bus_ok b \<Longrightarrow> bus_ok (snd (bus_publish tr e b))"
  by (rule same_index(2) [of _ b]) (simp_all add: bus_publish_types)

lemma bus_ok_drain: "bus_ok b \<Longrightarrow> bus_ok (snd (bus_drain_subscription now limit r b))"
  by (rule same_index(2) [of _ b])
    (simp_all add: bus_drain_subscription_def bus_drain_def Let_def types_list_update)

lemma bus_ok_register: "bus_ok b \<Longrightarrow> bus_ok (register_event_type n b)"
  by (rule same_index(2) [of _ b]) (simp_all add: register_event_type_def)

lemma linked_subscribe:
  assumes ok: "bus_ok b" and sub: "bus_subscribe fresh types f pol sid b = (Inr r, b')"
  shows "bus_ok b'" and "linked r b'" and "r = length (eb_subscriptions b)"
    and "\<exists>s. eb_subscriptions b' = eb_subscriptions b @ [s]"
    and "linked i b \<Longrightarrow> linked i b'"
proof -
  define names where "names = (case types of None \<Rightarrow> [] | Some ns \<Rightarrow> remdups ns)"
  have names: "distinct names" by (simp add: names_def split: option.split)
  from sub have r: "r = length (eb_subscriptions b)"
    by (auto simp: bus_subscribe_def Let_def split: if_splits)
  obtain s where subs: "eb_subscriptions b' = eb_subscriptions b @ [s]" and types: "bs_types s = names"
    and index: "eb_by_type b' = (if names = [] then eb_by_type b else fold (index_subscription r) names (eb_by_type b))"
      "eb_all b' = (if names = [] then eb_all b @ [r] else eb_all b)"
    using sub r by (auto simp: bus_subscribe_def names_def new_subscription_def Let_def split: if_splits)
  have held: "subscribers n b' = subscribers n b @ (if n \<in> set names then [r] else [])" "wf_dict (eb_by_type b')" for n
    using subscribers_index [OF names, of n r b] ok by (simp_all add: subscribers_def index bus_ok_def)
  have old: "i < length (eb_subscriptions b)" if "i \<in> set (eb_all b) \<or> i \<in> set (subscribers n b)" for i n
    using that ok by (auto simp: bus_ok_def)
  show "r = length (eb_subscriptions b)" by (rule r)
  show "\<exists>s. eb_subscriptions b' = eb_subscriptions b @ [s]" using subs by blast
  show new: "linked r b'" by (simp add: linked_def subs r types held index)
  show keep: "linked i b \<Longrightarrow> linked i b'" for i
    by (auto simp: linked_def subs nth_append held index split: if_splits)
  have gone: "detached i b \<Longrightarrow> i < length (eb_subscriptions b) \<Longrightarrow> detached i b'" for i
    by (auto simp: detached_def held index r)
  show "bus_ok b'"
    unfolding bus_ok_def
  proof (intro conjI allI ballI impI)
    show "distinct (eb_all b')" "distinct (subscribers n b')" for n
      using ok old r by (force simp: held index bus_ok_def)+
    show "i < length (eb_subscriptions b')" "bs_types (eb_subscriptions b' ! i) = []" if "i \<in> set (eb_all b')" for i
      using that ok r by (auto simp: index subs types nth_append bus_ok_def split: if_splits)
    show "i < length (eb_subscriptions b')" if "i \<in> set (subscribers n b')" for i n
      using that old [of i n] r by (auto simp: held subs split: if_splits)
    show "n \<in> set (bs_types (eb_subscriptions b' ! i))" if "i \<in> set (subscribers n b')" for i n
      using that ok r by (auto simp: held subs types nth_append bus_ok_def split: if_splits)
    show "linked i b' \<or> detached i b'" if "i < length (eb_subscriptions b')" for i
    proof (cases "i = r")
      case False
      with that r have "i < length (eb_subscriptions b)" by (simp add: subs)
      with ok keep gone show ?thesis by (auto simp: bus_ok_def)
    qed (simp add: new)
  qed (rule held)
qed

lemma subscribers_unsubscribe: "subscribers n (bus_unsubscribe r b) = remove1 r (subscribers n b)"
  by (simp add: subscribers_def bus_unsubscribe_def dict_get_def map_of_map split: option.split)

lemma bus_unsubscribe_frame [simp]:
  "eb_all (bus_unsubscribe r b) = remove1 r (eb_all b)"
  "length (eb_subscriptions (bus_unsubscribe r b)) = length (eb_subscriptions b)"
  "bs_types (eb_subscriptions (bus_unsubscribe r b) ! i) = bs_types (eb_subscriptions b ! i)"
  "wf_dict (eb_by_type (bus_unsubscribe r b)) = wf_dict (eb_by_type b)"
  by (simp_all add: bus_unsubscribe_def types_list_update bus_close_subscription_def wf_dict_def o_def case_prod_beta')

lemma linked_unsubscribe:
  "i \<noteq> r \<Longrightarrow> linked i (bus_unsubscribe r b) = linked i b"
  "i \<noteq> r \<Longrightarrow> detached i (bus_unsubscribe r b) = detached i b"
  by (simp_all add: linked_def detached_def subscribers_unsubscribe)

lemma bus_ok_unsubscribe:
  assumes "bus_ok b"
  shows "bus_ok (bus_unsubscribe r b)"
proof -
  have "detached r (bus_unsubscribe r b)"
    using assms by (simp add: detached_def subscribers_unsubscribe bus_ok_def)
  then have "linked i (bus_unsubscribe r b) \<or> detached i (bus_unsubscribe r b)"
    if "i < length (eb_subscriptions b)" for i
    using that assms by (cases "i = r") (simp_all add: linked_unsubscribe bus_ok_def)
  with assms show ?thesis
    by (auto simp: bus_ok_def subscribers_unsubscribe dest: notin_set_remove1 intro: distinct_remove1)
qed

lemma close_at_types: "length (fold close_at rs ss) = length ss \<and> bs_types (fold close_at rs ss ! i) = bs_types (ss ! i)"
proof (induction rs arbitrary: ss)
  case (Cons r rs)
  have "bs_types (close_at r ss ! i) = bs_types (ss ! i)" "length (close_at r ss) = length ss"
    by (simp_all add: close_at_def bus_close_subscription_def types_list_update)
  with Cons [of "close_at r ss"] show ?case by simp
qed simp

lemma bus_ok_close: "bus_ok b \<Longrightarrow> bus_ok (bus_close b)"
  by (simp add: bus_ok_def bus_close_def Let_def detached_def subscribers_def)


section \<open>Runs of the bus\<close>

datatype 'a bus_op =
    BusPublish "('a event \<Rightarrow> bool) option" "'a event"
  | BusSubscribe string "string list option" "('a event \<Rightarrow> bool result) option" "bus_policy option" "string option"
  | BusUnsubscribe nat
  | BusDrain instant "int option" nat
  | BusRegister string
  | BusClose

text \<open>What a run leaves behind: the events that were accepted, and what each drain returned.\<close>

datatype 'a bus_output = Published "'a event" | Drained nat "bus_gap option" "'a event list"

primrec bus_step :: "'a bus_op \<Rightarrow> 'a bus \<Rightarrow> 'a bus_output list \<times> 'a bus" where
  "bus_step (BusPublish transport e) b =
     (case bus_publish transport e b of (res, b') \<Rightarrow> (if raises res then [] else [Published e], b'))"
| "bus_step (BusSubscribe fresh types f pol sid) b = ([], snd (bus_subscribe fresh types f pol sid b))"
| "bus_step (BusUnsubscribe r) b = ([], bus_unsubscribe r b)"
| "bus_step (BusDrain now limit r) b =
     (case bus_drain_subscription now limit r b of ((g, es), b') \<Rightarrow> ([Drained r g es], b'))"
| "bus_step (BusRegister n) b = ([], register_event_type n b)"
| "bus_step BusClose b = ([], bus_close b)"

fun bus_run :: "'a bus_op list \<Rightarrow> 'a bus \<Rightarrow> 'a bus_output list \<times> 'a bus" where
  "bus_run [] b = ([], b)"
| "bus_run (op # ops) b =
     (case bus_step op b of (outs, b1) \<Rightarrow> case bus_run ops b1 of (rest, b2) \<Rightarrow> (outs @ rest, b2))"

definition published :: "'a bus_output list \<Rightarrow> 'a event list" where
  "published outs = concat (map (\<lambda>x. case x of Published e \<Rightarrow> [e] | _ \<Rightarrow> []) outs)"

definition drained_by :: "nat \<Rightarrow> 'a bus_output list \<Rightarrow> 'a event gap_log" where
  "drained_by r outs = concat (map (\<lambda>x. case x of Drained i g es \<Rightarrow> if i = r then [(bus_missed g, es)] else [] | _ \<Rightarrow> []) outs)"

lemma output_simps [simp]:
  "published [] = []" "published (xs @ ys) = published xs @ published ys"
  "published [Published e] = [e]" "published [Drained i g es] = []"
  "drained_by r [] = []" "drained_by r (xs @ ys) = drained_by r xs @ drained_by r ys"
  "drained_by r [Published e] = []" "drained_by r [Drained i g es] = (if i = r then [(bus_missed g, es)] else [])"
  by (simp_all add: published_def drained_by_def)

primrec leaves :: "nat \<Rightarrow> 'a bus_op \<Rightarrow> bool" where
  "leaves r (BusPublish transport e) \<longleftrightarrow> False"
| "leaves r (BusSubscribe fresh types f pol sid) \<longleftrightarrow> False"
| "leaves r (BusUnsubscribe i) \<longleftrightarrow> i = r"
| "leaves r (BusDrain now limit i) \<longleftrightarrow> False"
| "leaves r (BusRegister n) \<longleftrightarrow> False"
| "leaves r BusClose \<longleftrightarrow> True"

lemma bus_ok_step: "bus_ok b \<Longrightarrow> bus_ok (snd (bus_step op b))"
proof (cases op)
  case (BusPublish tr e)
  assume "bus_ok b"
  from bus_ok_publish [OF this, of tr e] show ?thesis by (simp add: BusPublish case_prod_beta')
next
  case (BusSubscribe fresh types f pol sid)
  assume "bus_ok b"
  then show ?thesis
    using linked_subscribe(1) [of b fresh types f pol sid]
    by (cases "fst (bus_subscribe fresh types f pol sid b)") 
      (auto simp: BusSubscribe bus_subscribe_def Let_def split: if_splits)
next
  case (BusDrain now limit r)
  assume "bus_ok b"
  from bus_ok_drain [OF this, of now limit r] show ?thesis by (simp add: BusDrain case_prod_beta')
qed (simp_all add: bus_ok_unsubscribe bus_ok_register bus_ok_close)

lemma bus_ok_run: "bus_ok b \<Longrightarrow> bus_run ops b = (outs, b') \<Longrightarrow> bus_ok b'"
proof (induction ops arbitrary: b outs)
  case (Cons op ops)
  then show ?case using bus_ok_step [of b op] by (fastforce split: prod.splits)
qed simp

lemma bus_drain_matches: "bus_matches e (snd (bus_drain_entry d s)) = bus_matches e s"
  by (simp add: bus_drain_entry_def bus_drain_def bus_matches_def Let_def)

text \<open>The invariant of one linked subscription along a run.\<close>

definition receiving :: "nat \<Rightarrow> 'a bus \<Rightarrow> 'a event list \<Rightarrow> bool" where
  "receiving r b xs \<longleftrightarrow> bus_ok b \<and> linked r b \<and> dropping_oldest (eb_subscriptions b ! r)
     \<and> bus_queue.outstanding (eb_subscriptions b ! r) xs"

lemma bus_step_receiving:
  assumes inv: "receiving r b xs" and stays: "\<not> leaves r op" and step: "bus_step op b = (outs, b')"
  shows "(\<forall>e. bus_matches e (eb_subscriptions b' ! r) = bus_matches e (eb_subscriptions b ! r))
    \<and> (\<exists>ys. accounted (drained_by r outs) (xs @ filter (\<lambda>e. bus_matches e (eb_subscriptions b ! r)) (published outs)) = Some ys
         \<and> receiving r b' ys)"
proof -
  let ?s = "eb_subscriptions b ! r"
  have ok: "bus_ok b" "linked r b" "dropping_oldest ?s" "bus_queue.outstanding ?s xs"
    using inv by (simp_all add: receiving_def)
  then have len: "r < length (eb_subscriptions b)" by (simp add: linked_def)
  have ok': "bus_ok b'" using bus_ok_step [OF ok(1), of op] step by simp
  show ?thesis
  proof (cases op)
    case (BusPublish tr e)
    show ?thesis
    proof (cases "be_type e \<in> set (eb_registered b)")
      case True
      with BusPublish step have out: "outs = [Published e]" "b' = snd (bus_publish tr e b)"
        by (auto simp: bus_publish_def)
      have sub: "eb_subscriptions b' ! r = bus_take e ?s"
        using bus_publish_effect [OF ok(1) True len, of tr] ok(2) out by simp
      have "linked r b'" using same_index(1) [of b' b r] ok len out by (simp add: bus_publish_types)
      with ok ok' out sub bus_queue.put_outstanding [OF ok(3,4), of e] show ?thesis
        by (cases "bus_matches e ?s") (simp_all add: receiving_def bus_take_def bus_offer_dropping, simp add: bus_matches_def)
    next
      case False
      with BusPublish step inv show ?thesis by (simp add: bus_publish_rejected)
    qed
  next
    case (BusSubscribe fresh types f pol sid)
    show ?thesis
    proof (cases "fst (bus_subscribe fresh types f pol sid b)")
      case (Inl err)
      then have "snd (bus_subscribe fresh types f pol sid b) = b" by (auto simp: bus_subscribe_def Let_def split: if_splits)
      with BusSubscribe step inv show ?thesis by simp
    next
      case (Inr i)
      with BusSubscribe step have sub: "bus_subscribe fresh types f pol sid b = (Inr i, b')" by (auto intro: prod_eqI)
      from linked_subscribe(4,5) [OF ok(1) sub] ok(2) len have "eb_subscriptions b' ! r = ?s" "linked r b'"
        by (auto simp: nth_append)
      with BusSubscribe step ok ok' show ?thesis by (auto simp: receiving_def)
    qed
  next
    case (BusUnsubscribe i)
    with stays step have "outs = []" "b' = bus_unsubscribe i b" "i \<noteq> r" by auto
    with ok ok' show ?thesis by (simp add: receiving_def linked_unsubscribe) (simp add: bus_unsubscribe_def)
  next
    case (BusDrain now limit i)
    then obtain g es where out: "bus_drain_subscription now limit i b = ((g, es), b')" "outs = [Drained i g es]"
      using step by (auto split: prod.splits)
    have link: "linked r b'"
      using ok(2) same_index(1) [of b' b r] out(1)
      by (auto simp: bus_drain_subscription_def bus_drain_def Let_def types_list_update)
    show ?thesis
    proof (cases "i = r")
      case True
      have entry: "bus_drain_entry (now, limit) ?s = ((bus_missed g, es), eb_subscriptions b' ! r)"
        using out(1) True len by (auto simp: bus_drain_subscription_def bus_drain_entry_def split: prod.splits)
      have "\<forall>e. bus_matches e (eb_subscriptions b' ! r) = bus_matches e ?s"
        using bus_drain_matches [of _ "(now, limit)" ?s] entry by simp
      with bus_queue.take_outstanding [OF ok(3,4), of "(now, limit)"] bus_queue.take_usable [OF ok(3), of "(now, limit)"]
        entry True out link ok'
      show ?thesis by (simp add: receiving_def)
    next
      case False
      with out have "eb_subscriptions b' ! r = ?s" by (auto simp: bus_drain_subscription_def split: prod.splits)
      with False out link ok ok' show ?thesis by (simp add: receiving_def)
    qed
  next
    case (BusRegister n)
    with step have "outs = []" "b' = register_event_type n b" by auto
    with ok ok' same_index(1) [of b' b r] show ?thesis by (simp add: receiving_def register_event_type_def)
  qed (use stays in simp)
qed

lemma bus_run_receiving:
  assumes "receiving r b xs" and "\<forall>op\<in>set ops. \<not> leaves r op" and "bus_run ops b = (outs, b')"
  shows "\<exists>ys. accounted (drained_by r outs) (xs @ filter (\<lambda>e. bus_matches e (eb_subscriptions b ! r)) (published outs)) = Some ys
    \<and> receiving r b' ys"
  using assms
proof (induction ops arbitrary: b xs outs)
  case (Cons op ops)
  obtain outs1 b1 outs2 where step: "bus_step op b = (outs1, b1)" and rest: "bus_run ops b1 = (outs2, b')" "outs = outs1 @ outs2"
    using Cons.prems(3) by (auto split: prod.splits)
  let ?m = "\<lambda>e. bus_matches e (eb_subscriptions b ! r)"
  from bus_step_receiving [OF Cons.prems(1) _ step] Cons.prems(2) obtain ys
    where same: "\<forall>e. bus_matches e (eb_subscriptions b1 ! r) = ?m e"
      and ys: "accounted (drained_by r outs1) (xs @ filter ?m (published outs1)) = Some ys" "receiving r b1 ys" by auto
  from Cons.IH [OF ys(2) _ rest(1)] Cons.prems(2) same obtain zs
    where zs: "accounted (drained_by r outs2) (ys @ filter ?m (published outs2)) = Some zs" "receiving r b' zs" by auto
  from accounted_append [OF ys(1), of "filter ?m (published outs2)"] zs rest(2) show ?case
    by (auto simp: accounted_concat)
qed auto


text \<open>
  C9: The bus never loses an event silently. Take any run of the bus that subscribes with a valid
  policy that drops the oldest, and any further run in which that subscription is neither
  unsubscribed nor the bus closed, whatever else is published, subscribed, unsubscribed, drained or
  registered. Read in order, the drains of the subscription account for every published event that
  it matches: the gaps stand exactly where events were lost and count them exactly, and what is left
  is the undeclared loss followed by the queue, which never exceeds the capacity.
\<close>

theorem bus_accounts_for_every_event:
  assumes "bus_run before bus_init = (outs0, b0)" and "mk_bus_policy pol = Inr pol" and "bp_overflow pol = DROP_OLDEST"
    and "bus_subscribe fresh types f (Some pol) sid b0 = (Inr r, b)"
    and "\<forall>op\<in>set ops. \<not> leaves r op" and "bus_run ops b = (outs, b')"
  shows "\<exists>rest. accounted (drained_by r outs)
        (filter (\<lambda>e. bus_matches e (new_subscription ''any'' (case types of None \<Rightarrow> [] | Some ns \<Rightarrow> ns) f pol)) (published outs)) = Some rest
      \<and> drop (nat (bs_undeclared (eb_subscriptions b' ! r))) rest = bs_queue (eb_subscriptions b' ! r)
      \<and> nat (bs_undeclared (eb_subscriptions b' ! r)) + length (bs_queue (eb_subscriptions b' ! r)) = length rest"
proof -
  have ok: "bus_ok b0" by (rule bus_ok_run [OF bus_ok_init assms(1)])
  note sub = linked_subscribe [OF ok assms(4)]
  obtain i where new: "eb_subscriptions b ! r = new_subscription i (case types of None \<Rightarrow> [] | Some ns \<Rightarrow> remdups ns) f pol"
    using assms(4) by (auto simp: bus_subscribe_def Let_def split: if_splits)
  have "dropping_oldest (eb_subscriptions b ! r)" "bus_queue.outstanding (eb_subscriptions b ! r) []"
    using assms(2,3) by (auto simp: new dropping_oldest_def new_subscription_def mk_bus_policy_def
        bus_queue.outstanding_def split: if_splits)
  with sub(1,2) have "receiving r b []" by (simp add: receiving_def)
  from bus_run_receiving [OF this assms(5,6)] obtain ys
    where ys: "accounted (drained_by r outs) (filter (\<lambda>e. bus_matches e (eb_subscriptions b ! r)) (published outs)) = Some ys"
      "receiving r b' ys" by auto
  have "bus_matches e (eb_subscriptions b ! r) =
      bus_matches e (new_subscription ''any'' (case types of None \<Rightarrow> [] | Some ns \<Rightarrow> ns) f pol)" for e
    by (auto simp: new bus_matches_def new_subscription_def split: option.splits)
  with ys show ?thesis
    by (intro exI [of _ ys]) (auto simp: receiving_def bus_queue.outstanding_def dest: arg_cong [where f = length])
qed

text \<open>
  C25: In every reachable bus, publishing an event of a registered type offers it to each open
  subscription, exactly once, if its types and predicate match and it has not been unsubscribed, and
  changes no other; the number of deliveries and drops counted is the number of subscriptions that
  match. An event of an unregistered type is refused with ValueError and changes nothing.
\<close>

theorem bus_publish_reaches_linked:
  assumes "bus_run ops bus_init = (outs, b)" and "bus_publish transport e b = (res, b')"
  shows "if be_type e \<in> set (eb_registered b)
    then res = Inr () \<and> length (eb_subscriptions b') = length (eb_subscriptions b)
      \<and> (\<forall>r<length (eb_subscriptions b). eb_subscriptions b' ! r =
           (if linked r b \<and> bus_matches e (eb_subscriptions b ! r)
            then snd (bus_offer e (eb_subscriptions b ! r)) else eb_subscriptions b ! r))
      \<and> bst_published (eb_stats b') = bst_published (eb_stats b) + 1
      \<and> bst_delivered (eb_stats b') + bst_dropped (eb_stats b') = bst_delivered (eb_stats b) + bst_dropped (eb_stats b)
          + int (card {r. linked r b \<and> bus_matches e (eb_subscriptions b ! r)})
    else res = Inl ValueError \<and> b' = b"
proof (cases "be_type e \<in> set (eb_registered b)")
  case True
  have ok: "bus_ok b" by (rule bus_ok_run [OF bus_ok_init assms(1)])
  have b': "b' = snd (bus_publish transport e b)" and res: "res = Inr ()"
    using assms(2) True by (auto simp: bus_publish_def)
  let ?b = "b\<lparr>eb_stats := count_published e (eb_stats b)\<rparr>"
  note targets = bus_ok_targets(1,2) [OF ok, of e] bus_ok_targets(3) [OF ok, of _ e]
  have stats: "bst_published (eb_stats b') = bst_published (eb_stats (fold (deliver_to e) (bus_targets e b) ?b))
      \<and> bst_delivered (eb_stats b') = bst_delivered (eb_stats (fold (deliver_to e) (bus_targets e b) ?b))
      \<and> bst_dropped (eb_stats b') = bst_dropped (eb_stats (fold (deliver_to e) (bus_targets e b) ?b))"
    using True by (simp add: b' bus_publish_def forward_event_def split: option.split)
  let ?hit = "filter (\<lambda>r. bus_matches e (eb_subscriptions b ! r)) (bus_targets e b)"
  have "set ?hit = {r. linked r b \<and> bus_matches e (eb_subscriptions b ! r)}"
    using targets by (auto simp: linked_def bus_matches_def split: if_splits)
  moreover have "length ?hit = card (set ?hit)" by (rule distinct_card [symmetric]) (simp add: targets(1))
  ultimately have "length ?hit = card {r. linked r b \<and> bus_matches e (eb_subscriptions b ! r)}" by simp
  with stats deliver_all_counts [OF targets(1), of ?b e] targets(2) True res
    bus_publish_effect [OF ok True, of _ transport] show ?thesis
    by (simp add: count_published_def b' bus_take_def)
next
  case False
  with assms(2) show ?thesis by (simp add: bus_publish_rejected)
qed

text \<open>What the code does at the edges: an empty selection of types subscribes to everything, the
  gap of a subscription that drops the newest comes before events older than the loss, and an event
  offered to a subscription that was closed directly is counted as delivered.\<close>

lemma empty_selection_subscribes_to_everything:
  "bus_subscribe fresh (Some []) f pol sid b = bus_subscribe fresh None f pol sid b"
  by (simp add: bus_subscribe_def)

lemma drop_newest_gap_precedes_older_events:
  assumes "\<not> bs_closed s" and "bp_overflow (bs_policy s) = DROP_NEWEST"
    and "bp_capacity (bs_policy s) \<le> int (length (bs_queue s))" and "0 \<le> bs_undeclared s"
  shows "fst (bus_drain now None (snd (bus_offer e s))) =
    (Some \<lparr>bg_occurred_at = now, bg_subscription = bs_id s, bg_dropped = bs_undeclared s + 1\<rparr>, bs_queue s)"
  using assms by (simp add: bus_offer_def bus_enqueue_def bus_count_drop_def bus_drain_def)

lemma closed_subscription_counts_as_delivered:
  "bs_closed (eb_subscriptions b ! r) \<Longrightarrow> bus_matches e (eb_subscriptions b ! r) \<Longrightarrow>
     eb_stats (deliver_to e r b) = count_offer 0 (eb_stats b) \<and> eb_subscriptions (deliver_to e r b) = eb_subscriptions b"
  by (simp add: deliver_to_def bus_offer_def)

lemma gaps_emitted_counts_dropped_events:
  "bst_gaps_emitted (count_offer k st) - bst_gaps_emitted st = bst_dropped (count_offer k st) - bst_dropped st"
  by (simp add: count_offer_def)

section \<open>Examples\<close>

definition example_event :: "string \<Rightarrow> nat \<Rightarrow> nat event" where
  "example_event n k = \<lparr>be_type = n, be_partition = ''cam'', be_body = k\<rparr>"

definition example_bus_policy :: bus_policy where
  "example_bus_policy = \<lparr>bp_capacity = 1, bp_overflow = DROP_OLDEST\<rparr>"

definition example_bus_ops :: "nat bus_op list" where
  "example_bus_ops = [BusPublish None (example_event ''stream.lost'' 1), BusPublish None (example_event ''stream.lost'' 2),
     BusPublish None (example_event ''config.changed'' 3), BusDrain (Instant 5) None 0]"

lemmas example_bus_simps =
  bus_run.simps bus_step.simps bus_init_def all_event_types_def example_event_def example_bus_policy_def example_bus_ops_def
  bus_publish_def bus_targets_def subscribers_def deliver_to_def bus_matches_def bus_offer_def bus_enqueue_def bus_count_drop_def
  forward_event_def bus_drain_subscription_def bus_drain_def bus_subscribe_def new_subscription_def index_subscription_def
  dict_set_def dict_get_def Let_def

theorem bus_accounts_for_every_event_witness:
  "\<exists>b r b' rest. bus_subscribe ''s'' (Some [''stream.lost'']) None (Some example_bus_policy) None bus_init = (Inr r, b)
     \<and> bus_run example_bus_ops b = ([Published (example_event ''stream.lost'' 1), Published (example_event ''stream.lost'' 2),
          Published (example_event ''config.changed'' 3),
          Drained 0 (Some \<lparr>bg_occurred_at = Instant 5, bg_subscription = ''s'', bg_dropped = 1\<rparr>) [example_event ''stream.lost'' 2]], b')
     \<and> accounted [(1, [example_event ''stream.lost'' 2])] [example_event ''stream.lost'' 1, example_event ''stream.lost'' 2] = Some rest
     \<and> rest = []"
proof -
  let ?sub = "bus_subscribe ''s'' (Some [''stream.lost'']) None (Some example_bus_policy) None (bus_init :: nat bus)"
  have sub: "?sub = (Inr 0, snd ?sub)" by (simp add: example_bus_simps)
  let ?outs = "[Published (example_event ''stream.lost'' 1), Published (example_event ''stream.lost'' 2),
          Published (example_event ''config.changed'' 3),
          Drained 0 (Some \<lparr>bg_occurred_at = Instant 5, bg_subscription = ''s'', bg_dropped = 1\<rparr>) [example_event ''stream.lost'' 2]]"
  have run: "bus_run example_bus_ops (snd ?sub) = (?outs, snd (bus_run example_bus_ops (snd ?sub)))"
    by (simp add: example_bus_simps)
  have "bus_run [] bus_init = ([], bus_init :: nat bus)" "mk_bus_policy example_bus_policy = Inr example_bus_policy"
    "bp_overflow example_bus_policy = DROP_OLDEST" "\<forall>op\<in>set example_bus_ops. \<not> leaves 0 op"
    by (simp_all add: mk_bus_policy_def example_bus_policy_def example_bus_ops_def)
  from bus_accounts_for_every_event [OF this(1-3) sub this(4) run] obtain rest
    where "accounted (drained_by 0 ?outs) (filter (\<lambda>e. bus_matches e
        (new_subscription ''any'' [''stream.lost''] None example_bus_policy)) (published ?outs)) = Some rest" by auto
  then have "accounted [(1, [example_event ''stream.lost'' 2])] [example_event ''stream.lost'' 1, example_event ''stream.lost'' 2] = Some rest"
    by (simp add: drained_by_def published_def bus_missed_def bus_matches_def new_subscription_def example_event_def)
  moreover from this have "rest = []" by simp
  ultimately show ?thesis using sub run by blast
qed

theorem bus_publish_reaches_linked_witness:
  "\<exists>b b'. bus_run [BusSubscribe ''s'' (Some [''stream.lost'']) None (Some example_bus_policy) None] bus_init = ([], b)
     \<and> bus_publish None (example_event ''stream.lost'' 1) b = (Inr (), b')
     \<and> bst_delivered (eb_stats b') + bst_dropped (eb_stats b') = 1"
proof -
  let ?ops = "[BusSubscribe ''s'' (Some [''stream.lost'']) None (Some example_bus_policy) None]"
  let ?b = "snd (bus_run ?ops (bus_init :: nat bus))" and ?e = "example_event ''stream.lost'' 1"
  have run: "bus_run ?ops bus_init = ([], ?b)" by simp
  obtain res b' where pub: "bus_publish None ?e ?b = (res, b')" by fastforce
  have reg: "be_type ?e \<in> set (eb_registered ?b)"
    by (simp add: example_event_def bus_subscribe_def bus_init_def all_event_types_def Let_def)
  have subs: "eb_subscriptions ?b = [new_subscription ''s'' [''stream.lost''] None example_bus_policy]"
    "eb_by_type ?b = [(''stream.lost'', [0])]" "eb_stats ?b = eb_stats (bus_init :: nat bus)"
    by (simp_all add: bus_subscribe_def bus_init_def all_event_types_def Let_def index_subscription_def dict_set_def)
  have "{r. linked r ?b \<and> bus_matches ?e (eb_subscriptions ?b ! r)} = {0}"
    unfolding linked_def subs subscribers_def
    by (auto simp: new_subscription_def dict_get_def bus_matches_def example_event_def)
  with bus_publish_reaches_linked [OF run pub] reg subs(3) have "res = Inr ()"
    "bst_delivered (eb_stats b') + bst_dropped (eb_stats b') = 1"
    by (simp_all add: bus_init_def)
  with run pub show ?thesis by blast
qed

end
