(* ===== verification/Memory_Pool.thy ===== *)
theory Memory_Pool
  imports Prelude
begin

text \<open>
  The allocator port (\<^verbatim>\<open>vision_os/core/ports/buffer.py\<close>) and its host memory adapter
  (\<^verbatim>\<open>vision_os/adapters/memory/pool.py\<close>). An allocation is the index of its buffer; the bytes
  themselves are not modelled. The locale \<open>allocator\<close> states what the frame buffer relies on; it is
  interpreted on the host pool.
\<close>

section \<open>The port\<close>

record 'p allocator_port =
  ap_allocate :: "int \<Rightarrow> 'p \<Rightarrow> nat result \<times> 'p"
  ap_release :: "nat \<Rightarrow> 'p \<Rightarrow> 'p"

locale allocator =
  fixes port :: "'p allocator_port" and live :: "'p \<Rightarrow> nat set" and total :: "'p \<Rightarrow> nat" and slot_bytes :: "'p \<Rightarrow> int"
    and valid :: "'p \<Rightarrow> bool"
  assumes allocated: "valid p \<Longrightarrow> ap_allocate port n p = (Inr a, p') \<Longrightarrow>
      a \<notin> live p \<and> live p' = insert a (live p) \<and> valid p' \<and> total p' = total p \<and> slot_bytes p' = slot_bytes p"
    and exhausted: "valid p \<Longrightarrow> ap_allocate port n p = (Inl e, p') \<Longrightarrow>
      p' = p \<and> e = PoolExhaustedError \<and> (slot_bytes p < n \<or> card (live p) = total p)"
    and released: "valid p \<Longrightarrow> valid (ap_release port a p) \<and> live (ap_release port a p) = live p - {a}
      \<and> total (ap_release port a p) = total p \<and> slot_bytes (ap_release port a p) = slot_bytes p"
    and bounded: "valid p \<Longrightarrow> finite (live p) \<and> card (live p) \<le> total p"
begin

lemma allocate_frame: "valid p \<Longrightarrow> valid (snd (ap_allocate port n p)) \<and> total (snd (ap_allocate port n p)) = total p"
  using allocated [of p n] exhausted [of p n] by (cases "ap_allocate port n p", cases "fst (ap_allocate port n p)") auto

lemma allocates_when_free: "valid p \<Longrightarrow> n \<le> slot_bytes p \<Longrightarrow> card (live p) < total p \<Longrightarrow> \<exists>a p'. ap_allocate port n p = (Inr a, p')"
  using exhausted [of p n] by (cases "ap_allocate port n p", cases "fst (ap_allocate port n p)") fastforce+

end

section \<open>The host pool\<close>

record host_pool =
  hp_bytes_per_slot :: int
  hp_slots :: nat
  hp_free :: "nat list"
  hp_in_use :: "nat list"

definition pool_init :: "int \<Rightarrow> int \<Rightarrow> host_pool result" where
  "pool_init slots bytes =
     (if slots < 1 then Inl ValueError
      else if bytes < 1 then Inl ValueError
      else Inr \<lparr>hp_bytes_per_slot = bytes, hp_slots = nat slots, hp_free = [0..<nat slots], hp_in_use = []\<rparr>)"

definition pool_allocate :: "int \<Rightarrow> host_pool \<Rightarrow> nat result \<times> host_pool" where
  "pool_allocate n p =
     (if n > hp_bytes_per_slot p then (Inl PoolExhaustedError, p)
      else if hp_free p = [] then (Inl PoolExhaustedError, p)
      else (let i = last (hp_free p)
            in (Inr i, p\<lparr>hp_free := butlast (hp_free p), hp_in_use := List.insert i (hp_in_use p)\<rparr>)))"

definition pool_release :: "nat \<Rightarrow> host_pool \<Rightarrow> host_pool" where
  "pool_release i p =
     (if i \<in> set (hp_in_use p) then p\<lparr>hp_in_use := removeAll i (hp_in_use p), hp_free := hp_free p @ [i]\<rparr> else p)"

record pool_stats =
  ps_total_slots :: int
  ps_in_use :: int
  ps_bytes_per_slot :: int

definition pool_statistics :: "host_pool \<Rightarrow> pool_stats" where
  "pool_statistics p = \<lparr>ps_total_slots = int (hp_slots p), ps_in_use = int (length (hp_in_use p)), ps_bytes_per_slot = hp_bytes_per_slot p\<rparr>"

definition host_port :: "host_pool allocator_port" where
  "host_port = \<lparr>ap_allocate = pool_allocate, ap_release = pool_release\<rparr>"

text \<open>Every slot is free or in use, and never both.\<close>

definition pool_ok :: "host_pool \<Rightarrow> bool" where
  "pool_ok p \<longleftrightarrow> distinct (hp_free p) \<and> distinct (hp_in_use p) \<and> set (hp_free p) \<inter> set (hp_in_use p) = {}
     \<and> set (hp_free p) \<union> set (hp_in_use p) = {..<hp_slots p}"

lemma pool_init_ok: "pool_init slots bytes = Inr p \<Longrightarrow> pool_ok p \<and> hp_in_use p = [] \<and> hp_slots p = nat slots"
  by (auto simp: pool_init_def pool_ok_def split: if_splits)

lemma pool_ok_full: "pool_ok p \<Longrightarrow> card (set (hp_in_use p)) = hp_slots p - length (hp_free p)"
proof -
  assume ok: "pool_ok p"
  then have "card (set (hp_free p) \<union> set (hp_in_use p)) = card (set (hp_free p)) + card (set (hp_in_use p))"
    by (intro card_Un_disjoint) (auto simp: pool_ok_def)
  with ok show ?thesis by (simp add: pool_ok_def distinct_card)
qed

text \<open>The pools of \<open>n\<close> slots.\<close>

definition pool_of_size :: "nat \<Rightarrow> host_pool \<Rightarrow> bool" where
  "pool_of_size n p \<longleftrightarrow> pool_ok p \<and> hp_slots p = n"

interpretation host: allocator host_port "\<lambda>p. set (hp_in_use p)" hp_slots hp_bytes_per_slot "pool_of_size n" for n
proof (unfold_locales, goal_cases)
  case (1 p k a p')
  then have ok: "pool_ok p" "hp_slots p = n" and free: "hp_free p \<noteq> []" "a = last (hp_free p)"
    "p' = p\<lparr>hp_free := butlast (hp_free p), hp_in_use := List.insert a (hp_in_use p)\<rparr>"
    by (auto simp: host_port_def pool_allocate_def pool_of_size_def Let_def split: if_splits)
  from free(1) obtain xs where xs: "hp_free p = xs @ [a]" using free(2) by (metis append_butlast_last_id)
  with ok free(3) show ?case by (auto simp: pool_ok_def pool_of_size_def)
next
  case (2 p k e p')
  then show ?case using pool_ok_full [of p]
    by (auto simp: host_port_def pool_allocate_def pool_of_size_def Let_def split: if_splits)
next
  case (3 p a)
  then show ?case by (auto simp: host_port_def pool_release_def pool_of_size_def pool_ok_def distinct_removeAll)
next
  case (4 p)
  then show ?case using pool_ok_full [of p] by (simp add: pool_of_size_def)
qed

end
