(* ===== verification/Frame_Buffer.thy ===== *)
theory Frame_Buffer
  imports Memory_Pool Track_Table
begin

text \<open>
  The frame buffer (\<^verbatim>\<open>vision_os/acquisition/buffer/buffer.py\<close>): rings of frames per camera over
  the allocator port, leases with deadlines, pins, eviction and the maintenance sweep. Entries,
  leases and pins are objects that several parties hold, so they live in lists and are named by
  their index; a ring maps a frame reference to an entry. What a frame carries beside its reference,
  privacy state and size is a type parameter. Metrics and the wall-clock times of the events are left
  out; \<open>now\<close> is the monotonic clock's reading.
\<close>

section \<open>State\<close>

datatype source_semantics = REALTIME | ARCHIVAL | DISCRETE

definition may_drop_frames :: "source_semantics \<Rightarrow> bool" where
  "may_drop_frames s \<longleftrightarrow> s = REALTIME"

datatype privacy_state = MASKED | UNMASKED_PERMITTED | MASK_FAILED

definition emittable :: "privacy_state \<Rightarrow> bool" where
  "emittable s \<longleftrightarrow> s \<noteq> MASK_FAILED"

record buffer_section =
  bf_slots_per_camera :: int
  bf_bytes_per_slot :: int
  bf_lease_deadline_ms :: int
  bf_history_window_ms :: int

definition mk_buffer_section :: "buffer_section \<Rightarrow> buffer_section result" where
  "mk_buffer_section c =
     (if bf_slots_per_camera c < 1 then Inl ValidationError
      else if bf_bytes_per_slot c < 1 then Inl ValidationError
      else if bf_lease_deadline_ms c < 1 then Inl ValidationError else Inr c)"

record frame_slot =
  sl_allocation :: nat
  sl_camera :: camera_id

record lease =
  le_entry :: nat
  le_holder :: string
  le_deadline :: instant
  le_released :: bool

record pin =
  pn_frame_ref :: frame_ref
  pn_expires_at :: instant
  pn_reason :: string
  pn_released :: bool

record 'f buffer_entry =
  en_frame_ref :: frame_ref
  en_privacy :: privacy_state
  en_bytes :: int
  en_frame :: 'f
  en_allocation :: nat
  en_published_at :: instant
  en_leases :: "nat list"
  en_pins :: "nat list"

definition reclaimable :: "'f buffer_entry \<Rightarrow> bool" where
  "reclaimable e \<longleftrightarrow> en_leases e = [] \<and> en_pins e = []"

record ring =
  rg_capacity :: int
  rg_entries :: "(frame_ref, nat) dict"
  rg_order :: "frame_ref list"

datatype buffer_event =
    PoolPressure camera_id int int
  | LeaseLeaked camera_id string frame_ref
  | FrameEvicted camera_id frame_ref

record ('f, 'p) frame_buffer =
  fb_config :: buffer_section
  fb_rings :: "(camera_id, ring) dict"
  fb_entries :: "'f buffer_entry list"
  fb_leases :: "lease list"
  fb_pins :: "pin list"
  fb_pool :: 'p
  fb_leases_active :: int
  fb_pins_active :: int
  fb_evictions :: int
  fb_lease_leaks :: int
  fb_pool_exhaustions :: int
  fb_events :: "buffer_event list"

definition buffer_init :: "buffer_section \<Rightarrow> 'p \<Rightarrow> ('f, 'p) frame_buffer" where
  "buffer_init c p =
     \<lparr>fb_config = c, fb_rings = [], fb_entries = [], fb_leases = [], fb_pins = [], fb_pool = p, fb_leases_active = 0,
      fb_pins_active = 0, fb_evictions = 0, fb_lease_leaks = 0, fb_pool_exhaustions = 0, fb_events = []\<rparr>"

section \<open>Rings\<close>

definition new_ring :: "buffer_section \<Rightarrow> ring" where
  "new_ring c = \<lparr>rg_capacity = bf_slots_per_camera c, rg_entries = [], rg_order = []\<rparr>"

definition ensure_ring :: "camera_id \<Rightarrow> ('f, 'p) frame_buffer \<Rightarrow> ('f, 'p) frame_buffer" where
  "ensure_ring c b =
     (if c \<in> set (dict_keys (fb_rings b)) then b
      else b\<lparr>fb_rings := dict_set c (new_ring (fb_config b)) (fb_rings b)\<rparr>)"

definition ring_of :: "camera_id \<Rightarrow> ('f, 'p) frame_buffer \<Rightarrow> ring" where
  "ring_of c b = (case dict_get (fb_rings b) c of None \<Rightarrow> new_ring (fb_config b) | Some r \<Rightarrow> r)"

definition set_ring :: "camera_id \<Rightarrow> ring \<Rightarrow> ('f, 'p) frame_buffer \<Rightarrow> ('f, 'p) frame_buffer" where
  "set_ring c r b = b\<lparr>fb_rings := dict_set c r (fb_rings b)\<rparr>"

definition entry_of :: "frame_ref \<Rightarrow> ('f, 'p) frame_buffer \<Rightarrow> nat option" where
  "entry_of ref b = dict_get (rg_entries (ring_of (fr_camera ref) b)) ref"

definition release_allocation :: "'p allocator_port \<Rightarrow> nat \<Rightarrow> ('f, 'p) frame_buffer \<Rightarrow> ('f, 'p) frame_buffer" where
  "release_allocation al a b = b\<lparr>fb_pool := ap_release al a (fb_pool b)\<rparr>"

text \<open>The entry and the reference leave the ring, and the memory goes back to the pool.\<close>

definition drop_ref :: "frame_ref \<Rightarrow> ring \<Rightarrow> ring" where
  "drop_ref ref r = r\<lparr>rg_entries := dict_del ref (rg_entries r), rg_order := remove1 ref (rg_order r)\<rparr>"

definition reclaim :: "'p allocator_port \<Rightarrow> camera_id \<Rightarrow> frame_ref \<Rightarrow> nat \<Rightarrow> ('f, 'p) frame_buffer \<Rightarrow> ('f, 'p) frame_buffer" where
  "reclaim al c ref e b =
     release_allocation al (en_allocation (fb_entries b ! e)) (set_ring c (drop_ref ref (ring_of c b)) b)"

definition update_entry :: "nat \<Rightarrow> ('f buffer_entry \<Rightarrow> 'f buffer_entry) \<Rightarrow> ('f, 'p) frame_buffer \<Rightarrow> ('f, 'p) frame_buffer" where
  "update_entry e f b = b\<lparr>fb_entries := (fb_entries b)[e := f (fb_entries b ! e)]\<rparr>"

definition remove_lease :: "nat \<Rightarrow> 'f buffer_entry \<Rightarrow> 'f buffer_entry" where
  "remove_lease l e = e\<lparr>en_leases := remove1 l (en_leases e)\<rparr>"

definition remove_pin :: "nat \<Rightarrow> 'f buffer_entry \<Rightarrow> 'f buffer_entry" where
  "remove_pin h e = e\<lparr>en_pins := remove1 h (en_pins e)\<rparr>"

definition mark_lease :: "nat \<Rightarrow> ('f, 'p) frame_buffer \<Rightarrow> ('f, 'p) frame_buffer" where
  "mark_lease l b = b\<lparr>fb_leases := (fb_leases b)[l := (fb_leases b ! l)\<lparr>le_released := True\<rparr>]\<rparr>"

definition mark_pin :: "nat \<Rightarrow> ('f, 'p) frame_buffer \<Rightarrow> ('f, 'p) frame_buffer" where
  "mark_pin h b = b\<lparr>fb_pins := (fb_pins b)[h := (fb_pins b ! h)\<lparr>pn_released := True\<rparr>]\<rparr>"

section \<open>Maintenance\<close>

definition break_lease :: "nat \<Rightarrow> nat \<Rightarrow> ('f, 'p) frame_buffer \<Rightarrow> ('f, 'p) frame_buffer" where
  "break_lease e l b =
     (let b1 = mark_lease l (update_entry e (remove_lease l) b);
          ref = en_frame_ref (fb_entries b ! e)
      in b1\<lparr>fb_leases_active := fb_leases_active b1 - 1, fb_lease_leaks := fb_lease_leaks b1 + 1,
            fb_events := fb_events b1 @ [LeaseLeaked (fr_camera ref) (le_holder (fb_leases b ! l)) ref]\<rparr>)"

definition break_expired_leases :: "instant \<Rightarrow> nat \<Rightarrow> ('f, 'p) frame_buffer \<Rightarrow> ('f, 'p) frame_buffer" where
  "break_expired_leases now e b =
     fold (break_lease e)
       (filter (\<lambda>l. instant_ns (le_deadline (fb_leases b ! l)) < instant_ns now) (en_leases (fb_entries b ! e))) b"

definition expire_pin :: "nat \<Rightarrow> nat \<Rightarrow> ('f, 'p) frame_buffer \<Rightarrow> ('f, 'p) frame_buffer" where
  "expire_pin e h b =
     (let b1 = mark_pin h (update_entry e (remove_pin h) b) in b1\<lparr>fb_pins_active := fb_pins_active b1 - 1\<rparr>)"

definition expire_pins :: "instant \<Rightarrow> nat \<Rightarrow> ('f, 'p) frame_buffer \<Rightarrow> ('f, 'p) frame_buffer" where
  "expire_pins now e b =
     fold (expire_pin e)
       (filter (\<lambda>h. instant_ns (pn_expires_at (fb_pins b ! h)) < instant_ns now) (en_pins (fb_entries b ! e))) b"

definition tidy_entry :: "instant \<Rightarrow> nat \<Rightarrow> ('f, 'p) frame_buffer \<Rightarrow> ('f, 'p) frame_buffer" where
  "tidy_entry now e b = expire_pins now e (break_expired_leases now e b)"

definition past_history :: "instant \<Rightarrow> 'f buffer_entry \<Rightarrow> ('f, 'p) frame_buffer \<Rightarrow> bool" where
  "past_history now e b \<longleftrightarrow>
     instant_ns now - instant_ns (en_published_at e) > bf_history_window_ms (fb_config b) * 1000000"

fun evict_scan ::
  "'p allocator_port \<Rightarrow> instant \<Rightarrow> source_semantics \<Rightarrow> camera_id \<Rightarrow> frame_ref list \<Rightarrow> ('f, 'p) frame_buffer
   \<Rightarrow> bool \<times> ('f, 'p) frame_buffer" where
  "evict_scan al now sem c [] b = (False, b)"
| "evict_scan al now sem c (ref # refs) b =
     (case dict_get (rg_entries (ring_of c b)) ref of
        None \<Rightarrow> evict_scan al now sem c refs
                  (set_ring c ((ring_of c b)\<lparr>rg_order := remove1 ref (rg_order (ring_of c b))\<rparr>) b)
      | Some e \<Rightarrow>
          (let b1 = tidy_entry now e b
           in if \<not> reclaimable (fb_entries b1 ! e) then evict_scan al now sem c refs b1
              else if \<not> may_drop_frames sem \<and> \<not> past_history now (fb_entries b1 ! e) b1 then evict_scan al now sem c refs b1
              else (let b2 = reclaim al c ref e b1
                    in (True, b2\<lparr>fb_evictions := fb_evictions b2 + 1, fb_events := fb_events b2 @ [FrameEvicted c ref]\<rparr>))))"

definition evict_oldest ::
  "'p allocator_port \<Rightarrow> instant \<Rightarrow> source_semantics \<Rightarrow> camera_id \<Rightarrow> ('f, 'p) frame_buffer \<Rightarrow> bool \<times> ('f, 'p) frame_buffer" where
  "evict_oldest al now sem c b = evict_scan al now sem c (rg_order (ring_of c b)) b"

definition sweep_ref ::
  "'p allocator_port \<Rightarrow> instant \<Rightarrow> camera_id \<Rightarrow> frame_ref \<Rightarrow> nat \<times> ('f, 'p) frame_buffer \<Rightarrow> nat \<times> ('f, 'p) frame_buffer" where
  "sweep_ref al now c ref nb =
     (case nb of (n, b) \<Rightarrow>
        case dict_get (rg_entries (ring_of c b)) ref of
          None \<Rightarrow> (n, b)
        | Some e \<Rightarrow>
            (let b1 = tidy_entry now e b
             in if past_history now (fb_entries b1 ! e) b1 \<and> reclaimable (fb_entries b1 ! e)
                then (n + 1, reclaim al c ref e b1) else (n, b1)))"

definition sweep_ring ::
  "'p allocator_port \<Rightarrow> instant \<Rightarrow> camera_id \<Rightarrow> nat \<times> ('f, 'p) frame_buffer \<Rightarrow> nat \<times> ('f, 'p) frame_buffer" where
  "sweep_ring al now c nb = fold (sweep_ref al now c) (rg_order (ring_of c (snd nb))) nb"

definition buffer_sweep :: "'p allocator_port \<Rightarrow> instant \<Rightarrow> ('f, 'p) frame_buffer \<Rightarrow> nat \<times> ('f, 'p) frame_buffer" where
  "buffer_sweep al now b = fold (sweep_ring al now) (dict_keys (fb_rings b)) (0, b)"

section \<open>Writing and reading\<close>

definition register_camera :: "camera_id \<Rightarrow> ('f, 'p) frame_buffer \<Rightarrow> ('f, 'p) frame_buffer" where
  "register_camera c b = ensure_ring c b"

definition forget_ref :: "'p allocator_port \<Rightarrow> frame_ref \<Rightarrow> (frame_ref, nat) dict \<times> ('f, 'p) frame_buffer
    \<Rightarrow> (frame_ref, nat) dict \<times> ('f, 'p) frame_buffer" where
  "forget_ref al ref db =
     (case db of (d, b) \<Rightarrow>
        case dict_get d ref of
          None \<Rightarrow> (d, b)
        | Some e \<Rightarrow> (dict_del ref d, release_allocation al (en_allocation (fb_entries b ! e)) b))"

definition forget_camera :: "'p allocator_port \<Rightarrow> camera_id \<Rightarrow> ('f, 'p) frame_buffer \<Rightarrow> ('f, 'p) frame_buffer" where
  "forget_camera al c b =
     (case dict_get (fb_rings b) c of
        None \<Rightarrow> b
      | Some r \<Rightarrow> snd (fold (forget_ref al) (rg_order r) (rg_entries r, b\<lparr>fb_rings := dict_del c (fb_rings b)\<rparr>)))"

definition acquire_slot ::
  "'p allocator_port \<Rightarrow> instant \<Rightarrow> camera_id \<Rightarrow> source_semantics \<Rightarrow> ('f, 'p) frame_buffer
   \<Rightarrow> frame_slot result \<times> ('f, 'p) frame_buffer" where
  "acquire_slot al now c sem b =
     (let b1 = ensure_ring c b;
          (room, b2) = (if int (length (rg_order (ring_of c b1))) \<ge> rg_capacity (ring_of c b1)
                        then evict_oldest al now sem c b1 else (True, b1))
      in if \<not> room then (Inl PoolExhaustedError, b2\<lparr>fb_pool_exhaustions := fb_pool_exhaustions b2 + 1\<rparr>)
         else (case ap_allocate al (bf_bytes_per_slot (fb_config b2)) (fb_pool b2) of
                 (Inl e, p) \<Rightarrow> (Inl e, b2\<lparr>fb_pool := p\<rparr>)
               | (Inr a, p) \<Rightarrow> (Inr \<lparr>sl_allocation = a, sl_camera = c\<rparr>, b2\<lparr>fb_pool := p\<rparr>)))"

definition discard_slot :: "'p allocator_port \<Rightarrow> frame_slot \<Rightarrow> ('f, 'p) frame_buffer \<Rightarrow> ('f, 'p) frame_buffer" where
  "discard_slot al slot b = release_allocation al (sl_allocation slot) b"

definition publish_frame ::
  "'p allocator_port \<Rightarrow> instant \<Rightarrow> frame_slot \<Rightarrow> frame_ref \<Rightarrow> privacy_state \<Rightarrow> int \<Rightarrow> 'f \<Rightarrow> ('f, 'p) frame_buffer
   \<Rightarrow> nat result \<times> ('f, 'p) frame_buffer" where
  "publish_frame al now slot ref privacy written frame b =
     (if \<not> emittable privacy then (Inl ValueError, discard_slot al slot b)
      else (let e = length (fb_entries b);
                entry = \<lparr>en_frame_ref = ref, en_privacy = privacy, en_bytes = written, en_frame = frame,
                         en_allocation = sl_allocation slot, en_published_at = now, en_leases = [], en_pins = []\<rparr>;
                b1 = ensure_ring (fr_camera ref) b;
                r = ring_of (fr_camera ref) b1;
                r1 = r\<lparr>rg_entries := dict_set ref e (rg_entries r), rg_order := rg_order r @ [ref]\<rparr>;
                b2 = set_ring (fr_camera ref) r1 (b1\<lparr>fb_entries := fb_entries b1 @ [entry]\<rparr>);
                used = int (length (rg_order r1))
            in (Inr e, if used \<ge> rg_capacity r1
                       then b2\<lparr>fb_events := fb_events b2 @ [PoolPressure (fr_camera ref) used (rg_capacity r1)]\<rparr> else b2)))"

definition acquire_frame ::
  "instant \<Rightarrow> frame_ref \<Rightarrow> string \<Rightarrow> duration option \<Rightarrow> ('f, 'p) frame_buffer \<Rightarrow> nat result \<times> ('f, 'p) frame_buffer" where
  "acquire_frame now ref holder deadline b =
     (let b1 = ensure_ring (fr_camera ref) b
      in case entry_of ref b1 of
           None \<Rightarrow> (Inl FrameUnavailableError, b1)
         | Some e \<Rightarrow>
             (let span = (case deadline of None \<Rightarrow> duration_from_millis (bf_lease_deadline_ms (fb_config b1)) | Some d \<Rightarrow> d);
                  l = length (fb_leases b1);
                  b2 = update_entry e (\<lambda>x. x\<lparr>en_leases := en_leases x @ [l]\<rparr>)
                         (b1\<lparr>fb_leases := fb_leases b1 @
                              [\<lparr>le_entry = e, le_holder = holder, le_deadline = instant_plus now span, le_released = False\<rparr>]\<rparr>)
              in (Inr l, b2\<lparr>fb_leases_active := fb_leases_active b2 + 1\<rparr>)))"

definition try_acquire ::
  "instant \<Rightarrow> frame_ref \<Rightarrow> string \<Rightarrow> ('f, 'p) frame_buffer \<Rightarrow> nat option \<times> ('f, 'p) frame_buffer" where
  "try_acquire now ref holder b =
     (case acquire_frame now ref holder None b of (Inl e, b') \<Rightarrow> (None, b') | (Inr l, b') \<Rightarrow> (Some l, b'))"

text \<open>What a lease's \<^verbatim>\<open>frame\<close> and \<^verbatim>\<open>pixels\<close> give: the entry, whose memory is its allocation.\<close>

definition lease_frame :: "nat \<Rightarrow> ('f, 'p) frame_buffer \<Rightarrow> 'f buffer_entry result" where
  "lease_frame l b =
     (if le_released (fb_leases b ! l) then Inl FrameUnavailableError else Inr (fb_entries b ! le_entry (fb_leases b ! l)))"

definition release_lease :: "nat \<Rightarrow> ('f, 'p) frame_buffer \<Rightarrow> ('f, 'p) frame_buffer" where
  "release_lease l b =
     (if le_released (fb_leases b ! l) then b
      else (let b1 = update_entry (le_entry (fb_leases b ! l)) (remove_lease l) (mark_lease l b)
            in b1\<lparr>fb_leases_active := fb_leases_active b1 - 1\<rparr>))"

definition pin_frame ::
  "instant \<Rightarrow> frame_ref \<Rightarrow> duration \<Rightarrow> string \<Rightarrow> ('f, 'p) frame_buffer \<Rightarrow> nat result \<times> ('f, 'p) frame_buffer" where
  "pin_frame now ref ttl reason b =
     (let b1 = ensure_ring (fr_camera ref) b
      in case entry_of ref b1 of
           None \<Rightarrow> (Inl FrameUnavailableError, b1)
         | Some e \<Rightarrow>
             (let h = length (fb_pins b1);
                  b2 = update_entry e (\<lambda>x. x\<lparr>en_pins := en_pins x @ [h]\<rparr>)
                         (b1\<lparr>fb_pins := fb_pins b1 @
                              [\<lparr>pn_frame_ref = ref, pn_expires_at = instant_plus now ttl, pn_reason = reason, pn_released = False\<rparr>]\<rparr>)
              in (Inr h, b2\<lparr>fb_pins_active := fb_pins_active b2 + 1\<rparr>)))"

definition unpin_frame :: "nat \<Rightarrow> ('f, 'p) frame_buffer \<Rightarrow> ('f, 'p) frame_buffer" where
  "unpin_frame h b =
     (if pn_released (fb_pins b ! h) then b
      else (let ref = pn_frame_ref (fb_pins b ! h);
                b1 = ensure_ring (fr_camera ref) b;
                b2 = (case entry_of ref b1 of None \<Rightarrow> b1 | Some e \<Rightarrow> update_entry e (remove_pin h) b1);
                b3 = mark_pin h b2
            in b3\<lparr>fb_pins_active := fb_pins_active b3 - 1\<rparr>))"

definition is_resident :: "frame_ref \<Rightarrow> ('f, 'p) frame_buffer \<Rightarrow> bool \<times> ('f, 'p) frame_buffer" where
  "is_resident ref b = (let b1 = ensure_ring (fr_camera ref) b in (entry_of ref b1 \<noteq> None, b1))"

record buffer_stats =
  bfs_slots_total :: int
  bfs_slots_in_use :: int
  bfs_leases_active :: int
  bfs_pins_active :: int
  bfs_evictions :: int
  bfs_lease_leaks :: int
  bfs_pool_exhaustions :: int

definition buffer_statistics :: "('f, 'p) frame_buffer \<Rightarrow> buffer_stats" where
  "buffer_statistics b =
     \<lparr>bfs_slots_total = sum_list (map (rg_capacity \<circ> snd) (fb_rings b)),
      bfs_slots_in_use = sum_list (map (\<lambda>(c, r). int (length (rg_order r))) (fb_rings b)),
      bfs_leases_active = fb_leases_active b, bfs_pins_active = fb_pins_active b, bfs_evictions = fb_evictions b,
      bfs_lease_leaks = fb_lease_leaks b, bfs_pool_exhaustions = fb_pool_exhaustions b\<rparr>"

definition buffer_close :: "'p allocator_port \<Rightarrow> ('f, 'p) frame_buffer \<Rightarrow> ('f, 'p) frame_buffer" where
  "buffer_close al b = fold (forget_camera al) (dict_keys (fb_rings b)) b"


section \<open>Who holds which memory\<close>

text \<open>The allocation behind a resident frame; the rings hold exactly the entries they list.\<close>

definition memory_of :: "('f, 'p) frame_buffer \<Rightarrow> frame_ref \<Rightarrow> nat option" where
  "memory_of b ref = map_option (\<lambda>e. en_allocation (fb_entries b ! e)) (entry_of ref b)"

definition rings_ok :: "('f, 'p) frame_buffer \<Rightarrow> bool" where
  "rings_ok b \<longleftrightarrow> (\<forall>c. wf_dict (rg_entries (ring_of c b)) \<and> distinct (rg_order (ring_of c b))
     \<and> set (rg_order (ring_of c b)) = set (dict_keys (rg_entries (ring_of c b)))
     \<and> (\<forall>ref e. dict_get (rg_entries (ring_of c b)) ref = Some e \<longrightarrow>
          fr_camera ref = c \<and> e < length (fb_entries b) \<and> en_frame_ref (fb_entries b ! e) = ref))"

text \<open>Slots handed out and resident frames share no memory, and together hold all that is allocated.\<close>

definition conserves :: "nat set \<Rightarrow> ('k \<Rightarrow> nat option) \<Rightarrow> nat set \<Rightarrow> bool" where
  "conserves S mem L \<longleftrightarrow> L = S \<union> ran mem \<and> S \<inter> ran mem = {} \<and> inj_on mem (dom mem)"

lemma conserves_drop: "conserves S mem L \<Longrightarrow> mem k = Some a \<Longrightarrow> conserves S (mem(k := None)) (L - {a})"
proof -
  assume c: "conserves S mem L" and k: "mem k = Some a"
  have "ran (mem(k := None)) = ran mem - {a}"
  proof (intro equalityI subsetI)
    fix x assume "x \<in> ran (mem(k := None))"
    then obtain j where j: "j \<noteq> k" "mem j = Some x" by (auto simp: ran_def split: if_splits)
    with k c have "x \<noteq> a" by (auto simp: conserves_def inj_on_def dom_def)
    with j show "x \<in> ran mem - {a}" by (auto simp: ran_def)
  next
    fix x assume "x \<in> ran mem - {a}"
    then obtain j where j: "mem j = Some x" "x \<noteq> a" by (auto simp: ran_def)
    with k have "j \<noteq> k" by auto
    with j show "x \<in> ran (mem(k := None))" by (auto simp: ran_def)
  qed
  moreover have "a \<notin> S" using c k by (auto simp: conserves_def ran_def)
  moreover have "inj_on (mem(k := None)) (dom (mem(k := None)))"
    using c by (auto simp: conserves_def inj_on_def dom_def)
  ultimately show ?thesis using c by (auto simp: conserves_def)
qed

lemma conserves_hand_out: "conserves S mem L \<Longrightarrow> a \<notin> L \<Longrightarrow> conserves (insert a S) mem (insert a L)"
  by (auto simp: conserves_def)

lemma conserves_hand_back: "conserves S mem L \<Longrightarrow> a \<in> S \<Longrightarrow> conserves (S - {a}) mem (L - {a})"
  by (auto simp: conserves_def)

lemma conserves_publish:
  assumes "conserves S mem L" and "a \<in> S" and "mem k = None"
  shows "conserves (S - {a}) (mem(k \<mapsto> a)) L"
proof -
  have "a \<notin> ran mem" using assms(1,2) by (auto simp: conserves_def)
  moreover have "inj_on (mem(k \<mapsto> a)) (dom (mem(k \<mapsto> a)))"
    using assms(1,3) \<open>a \<notin> ran mem\<close> by (auto simp: conserves_def inj_on_def dom_def ran_def)
  ultimately show ?thesis using assms by (auto simp: conserves_def)
qed

text \<open>What tidying an entry leaves alone: everything but leases, pins, counters and events.\<close>

definition fixed_part :: "'f buffer_entry \<Rightarrow> frame_ref \<times> privacy_state \<times> int \<times> 'f \<times> nat \<times> instant" where
  "fixed_part x = (en_frame_ref x, en_privacy x, en_bytes x, en_frame x, en_allocation x, en_published_at x)"

definition same_frames :: "('f, 'p) frame_buffer \<Rightarrow> ('f, 'p) frame_buffer \<Rightarrow> bool" where
  "same_frames b b' \<longleftrightarrow> (\<forall>c. ring_of c b' = ring_of c b) \<and> fb_pool b' = fb_pool b \<and> fb_config b' = fb_config b
     \<and> map fixed_part (fb_entries b') = map fixed_part (fb_entries b)"

lemma same_frames_refl: "same_frames b b"
  by (simp add: same_frames_def)

lemma same_frames_trans: "same_frames a b \<Longrightarrow> same_frames b c \<Longrightarrow> same_frames a c"
  by (simp add: same_frames_def)

lemma same_frames_nth:
  assumes "same_frames b b'"
  shows "length (fb_entries b') = length (fb_entries b)"
    and "e < length (fb_entries b) \<Longrightarrow> fixed_part (fb_entries b' ! e) = fixed_part (fb_entries b ! e)"
proof -
  have eq: "map fixed_part (fb_entries b') = map fixed_part (fb_entries b)" using assms by (simp add: same_frames_def)
  then show len: "length (fb_entries b') = length (fb_entries b)" by (rule map_eq_imp_length_eq)
  show "fixed_part (fb_entries b' ! e) = fixed_part (fb_entries b ! e)" if "e < length (fb_entries b)"
    using that len arg_cong [OF eq, of "\<lambda>xs. xs ! e"] by simp
qed

lemma same_frames_ok:
  assumes "same_frames b b'"
  shows "entry_of ref b' = entry_of ref b" and "rings_ok b \<Longrightarrow> rings_ok b'" and "rings_ok b \<Longrightarrow> memory_of b' = memory_of b"
proof -
  have ring: "\<And>c. ring_of c b' = ring_of c b" using assms by (simp add: same_frames_def)
  then show entry: "\<And>ref. entry_of ref b' = entry_of ref b" by (simp add: entry_of_def)
  note len = same_frames_nth(1) [OF assms]
  have part: "en_frame_ref (fb_entries b' ! e) = en_frame_ref (fb_entries b ! e)
       \<and> en_allocation (fb_entries b' ! e) = en_allocation (fb_entries b ! e)" if "e < length (fb_entries b)" for e
    using same_frames_nth(2) [OF assms that] by (simp add: fixed_part_def)
  show "rings_ok b'" if "rings_ok b"
    using that part unfolding rings_ok_def ring len by metis
  show "memory_of b' = memory_of b" if ok: "rings_ok b"
  proof
    fix ref
    show "memory_of b' ref = memory_of b ref"
    proof (cases "entry_of ref b")
      case (Some e)
      with ok have "e < length (fb_entries b)" by (simp add: entry_of_def rings_ok_def)
      with Some part show ?thesis by (simp add: memory_of_def entry)
    qed (simp add: memory_of_def entry)
  qed
qed

lemma ring_of_ensure [simp]: "ring_of c (ensure_ring c' b) = ring_of c b"
proof (cases "c' \<in> set (dict_keys (fb_rings b))")
  case False
  then have "dict_get (fb_rings b) c' = None" by (simp only: dict_get_None_iff not_False_eq_True)
  with False show ?thesis by (simp add: ensure_ring_def ring_of_def dict_simps split: option.split)
qed (simp add: ensure_ring_def)

lemma ring_of_set [simp]: "ring_of c (set_ring c' r b) = (if c = c' then r else ring_of c b)"
  by (simp add: ring_of_def set_ring_def dict_simps split: option.split)

lemma ring_of_simps [simp]:
  "ring_of c (release_allocation al a b) = ring_of c b" "ring_of c (update_entry e f b) = ring_of c b"
  "ring_of c (mark_lease l b) = ring_of c b" "ring_of c (mark_pin h b) = ring_of c b"
  "ring_of c (b\<lparr>fb_leases_active := n\<rparr>) = ring_of c b" "ring_of c (b\<lparr>fb_pins_active := n\<rparr>) = ring_of c b"
  "ring_of c (b\<lparr>fb_leases := ls\<rparr>) = ring_of c b" "ring_of c (b\<lparr>fb_pins := ps\<rparr>) = ring_of c b"
  "ring_of c (b\<lparr>fb_evictions := n\<rparr>) = ring_of c b" "ring_of c (b\<lparr>fb_events := evs\<rparr>) = ring_of c b"
  "ring_of c (b\<lparr>fb_lease_leaks := n\<rparr>) = ring_of c b" "ring_of c (b\<lparr>fb_pool_exhaustions := n\<rparr>) = ring_of c b"
  "ring_of c (b\<lparr>fb_pool := p\<rparr>) = ring_of c b" "ring_of c (b\<lparr>fb_entries := es\<rparr>) = ring_of c b"
  by (simp_all add: ring_of_def release_allocation_def update_entry_def mark_lease_def mark_pin_def split: option.split)

lemma update_entry_frames: "(\<And>x. fixed_part (f x) = fixed_part x) \<Longrightarrow> same_frames b (update_entry e f b)"
  by (cases "e < length (fb_entries b)")
    (auto simp: same_frames_def update_entry_def map_update list_update_beyond intro!: list_eq_iff_nth_eq [THEN iffD2]
      simp: nth_list_update)

lemma fixed_part_simps [simp]:
  "fixed_part (remove_lease l x) = fixed_part x" "fixed_part (remove_pin h x) = fixed_part x"
  "fixed_part (x\<lparr>en_leases := ls\<rparr>) = fixed_part x" "fixed_part (x\<lparr>en_pins := ps\<rparr>) = fixed_part x"
  by (simp_all add: fixed_part_def remove_lease_def remove_pin_def)

lemma same_frames_more [simp]:
  "same_frames a (mark_lease l b) = same_frames a b" "same_frames a (mark_pin h b) = same_frames a b"
  "same_frames a (b\<lparr>fb_leases_active := n\<rparr>) = same_frames a b" "same_frames a (b\<lparr>fb_pins_active := n\<rparr>) = same_frames a b"
  "same_frames a (b\<lparr>fb_lease_leaks := n\<rparr>) = same_frames a b" "same_frames a (b\<lparr>fb_events := evs\<rparr>) = same_frames a b"
  "same_frames a (b\<lparr>fb_leases := ls\<rparr>) = same_frames a b" "same_frames a (b\<lparr>fb_pins := ps\<rparr>) = same_frames a b"
  "same_frames a (b\<lparr>fb_evictions := n\<rparr>) = same_frames a b" "same_frames a (b\<lparr>fb_pool_exhaustions := n\<rparr>) = same_frames a b"
  "same_frames a (ensure_ring c b) = same_frames a b"
  by (simp_all add: same_frames_def mark_lease_def mark_pin_def) (simp_all add: ensure_ring_def)

lemma break_lease_frames: "same_frames b (break_lease e l b)"
  by (simp add: break_lease_def Let_def update_entry_frames)

lemma expire_pin_frames: "same_frames b (expire_pin e h b)"
  by (simp add: expire_pin_def Let_def update_entry_frames)

lemma fold_frames: "(\<And>x b. same_frames b (f x b)) \<Longrightarrow> same_frames b (fold f xs b)"
proof (induction xs arbitrary: b)
  case (Cons x xs)
  then have "same_frames b (f x b)" "same_frames (f x b) (fold f xs (f x b))" by blast+
  then show ?case by (auto intro: same_frames_trans)
qed (simp add: same_frames_refl)

lemma tidy_entry_frames: "same_frames b (tidy_entry now e b)"
  unfolding tidy_entry_def expire_pins_def break_expired_leases_def
  by (rule same_frames_trans [OF fold_frames fold_frames]) (rule break_lease_frames expire_pin_frames)+

lemma rings_ok_drop: "rings_ok b \<Longrightarrow> rings_ok (reclaim al c ref e b)"
proof -
  assume ok: "rings_ok b"
  have ring: "ring_of i (reclaim al c ref e b) = (if i = c then drop_ref ref (ring_of c b) else ring_of i b)"
    "fb_entries (reclaim al c ref e b) = fb_entries b" for i
    by (simp_all add: reclaim_def) (simp add: release_allocation_def set_ring_def)
  show ?thesis
    unfolding rings_ok_def ring
    using ok by (auto simp: rings_ok_def drop_ref_def dict_simps set_remove1_eq split: if_splits)
qed

lemma memory_of_reclaim:
  "rings_ok b \<Longrightarrow> fr_camera ref = c \<Longrightarrow> memory_of (reclaim al c ref e b) = (memory_of b)(ref := None)"
  by (rule ext) (auto simp: memory_of_def entry_of_def reclaim_def drop_ref_def dict_simps release_allocation_def set_ring_def
      ring_of_def split: option.split)


section \<open>The loops of eviction and sweep keep an invariant\<close>

locale buffer_invariant =
  fixes al :: "'p allocator_port" and now :: instant and I :: "('f, 'p) frame_buffer \<Rightarrow> bool"
  assumes tidy: "I b \<Longrightarrow> I (tidy_entry now e b)"
    and reclaim: "I b \<Longrightarrow> dict_get (rg_entries (ring_of c b)) ref = Some e \<Longrightarrow> reclaimable (fb_entries b ! e) \<Longrightarrow>
      I (reclaim al c ref e b)"
    and skip: "I b \<Longrightarrow> dict_get (rg_entries (ring_of c b)) ref = None \<Longrightarrow>
      I (set_ring c ((ring_of c b)\<lparr>rg_order := remove1 ref (rg_order (ring_of c b))\<rparr>) b)"
    and noted: "I b \<Longrightarrow> I (b\<lparr>fb_evictions := n, fb_events := evs\<rparr>)"
begin

lemma reclaim_tidied:
  "I b \<Longrightarrow> dict_get (rg_entries (ring_of c b)) ref = Some e \<Longrightarrow> reclaimable (fb_entries (tidy_entry now e b) ! e) \<Longrightarrow>
     I (reclaim al c ref e (tidy_entry now e b))"
  using reclaim [of "tidy_entry now e b" c ref e] tidy [of b e] tidy_entry_frames [of b now e]
  by (simp add: same_frames_def)

lemma evict_scan_keeps: "I b \<Longrightarrow> I (snd (evict_scan al now sem c refs b))"
proof (induction refs arbitrary: b)
  case (Cons ref refs)
  show ?case
  proof (cases "dict_get (rg_entries (ring_of c b)) ref")
    case None
    with Cons skip [OF Cons.prems None] show ?thesis by simp
  next
    case (Some e)
    show ?thesis
      using Cons.IH [OF tidy [OF Cons.prems, of e]] noted [OF reclaim_tidied [OF Cons.prems Some]] Some
      by (simp add: Let_def)
  qed
qed simp

lemma sweep_ref_keeps: "I (snd nb) \<Longrightarrow> I (snd (sweep_ref al now c ref nb))"
  using tidy reclaim_tidied by (auto simp: sweep_ref_def Let_def split: prod.split option.split)

lemma sweep_keeps: "I b \<Longrightarrow> I (snd (buffer_sweep al now b))"
proof -
  have refs: "I (snd nb) \<Longrightarrow> I (snd (fold (sweep_ref al now c) refs nb))" for c refs nb
    by (induction refs arbitrary: nb) (simp_all add: sweep_ref_keeps)
  have "I (snd nb) \<Longrightarrow> I (snd (fold (sweep_ring al now) cs nb))" for cs nb
    by (induction cs arbitrary: nb) (simp_all add: sweep_ring_def refs)
  from this [of "(0, b)"] show "I b \<Longrightarrow> I (snd (buffer_sweep al now b))" by (simp add: buffer_sweep_def)
qed

end

section \<open>Steps of the buffer\<close>

text \<open>
  A state pairs the buffer with the slots that were handed out and neither published nor discarded.
  The callers' side of the contract is \<open>allowed\<close>: a slot is discarded or published once, and a
  frame reference is not published while it is resident.
\<close>

datatype 'f buffer_op =
    OpRegister camera_id
  | OpForget camera_id
  | OpAcquireSlot instant camera_id source_semantics
  | OpDiscard frame_slot
  | OpPublish instant frame_slot frame_ref privacy_state int 'f
  | OpAcquire instant frame_ref string "duration option"
  | OpRelease nat
  | OpPin instant frame_ref duration string
  | OpUnpin nat
  | OpResident frame_ref
  | OpSweep instant
  | OpClose

type_synonym ('f, 'p) buffer_state = "nat set \<times> ('f, 'p) frame_buffer"

primrec buffer_do :: "'p allocator_port \<Rightarrow> 'f buffer_op \<Rightarrow> ('f, 'p) buffer_state \<Rightarrow> ('f, 'p) buffer_state" where
  "buffer_do al (OpRegister c) st = apsnd (register_camera c) st"
| "buffer_do al (OpForget c) st = apsnd (forget_camera al c) st"
| "buffer_do al (OpAcquireSlot now c sem) st =
     (case acquire_slot al now c sem (snd st) of
        (Inl e, b) \<Rightarrow> (fst st, b) | (Inr slot, b) \<Rightarrow> (insert (sl_allocation slot) (fst st), b))"
| "buffer_do al (OpDiscard slot) st = (fst st - {sl_allocation slot}, discard_slot al slot (snd st))"
| "buffer_do al (OpPublish now slot ref privacy written frame) st =
     (fst st - {sl_allocation slot}, snd (publish_frame al now slot ref privacy written frame (snd st)))"
| "buffer_do al (OpAcquire now ref holder deadline) st = apsnd (\<lambda>b. snd (acquire_frame now ref holder deadline b)) st"
| "buffer_do al (OpRelease l) st = apsnd (release_lease l) st"
| "buffer_do al (OpPin now ref ttl reason) st = apsnd (\<lambda>b. snd (pin_frame now ref ttl reason b)) st"
| "buffer_do al (OpUnpin h) st = apsnd (unpin_frame h) st"
| "buffer_do al (OpResident ref) st = apsnd (\<lambda>b. snd (is_resident ref b)) st"
| "buffer_do al (OpSweep now) st = apsnd (\<lambda>b. snd (buffer_sweep al now b)) st"
| "buffer_do al OpClose st = apsnd (buffer_close al) st"

fun allowed :: "'f buffer_op \<Rightarrow> ('f, 'p) buffer_state \<Rightarrow> bool" where
  "allowed (OpDiscard slot) st \<longleftrightarrow> sl_allocation slot \<in> fst st"
| "allowed (OpPublish now slot ref privacy written frame) st \<longleftrightarrow>
     sl_allocation slot \<in> fst st \<and> entry_of ref (snd st) = None"
| "allowed op st \<longleftrightarrow> True"

definition buffer_run :: "'p allocator_port \<Rightarrow> 'f buffer_op list \<Rightarrow> ('f, 'p) buffer_state \<Rightarrow> ('f, 'p) buffer_state" where
  "buffer_run al ops st = fold (buffer_do al) ops st"

fun all_allowed :: "'p allocator_port \<Rightarrow> 'f buffer_op list \<Rightarrow> ('f, 'p) buffer_state \<Rightarrow> bool" where
  "all_allowed al [] st = True"
| "all_allowed al (op # ops) st = (allowed op st \<and> all_allowed al ops (buffer_do al op st))"

section \<open>Memory is conserved\<close>

lemma acquire_frame_frames: "same_frames b (snd (acquire_frame now ref holder deadline b))"
  by (auto simp: acquire_frame_def Let_def same_frames_refl split: option.split
      intro!: same_frames_trans [OF _ update_entry_frames])

lemma pin_frame_frames: "same_frames b (snd (pin_frame now ref ttl reason b))"
  by (auto simp: pin_frame_def Let_def same_frames_refl split: option.split
      intro!: same_frames_trans [OF _ update_entry_frames])

lemma release_lease_frames: "same_frames b (release_lease l b)"
  by (auto simp: release_lease_def Let_def same_frames_refl intro!: same_frames_trans [OF _ update_entry_frames])

lemma unpin_frame_frames: "same_frames b (unpin_frame h b)"
  by (auto simp: unpin_frame_def Let_def same_frames_refl split: option.split
      intro!: same_frames_trans [OF _ update_entry_frames])

text \<open>Publishing adds the frame to its ring and its memory to the map, and asks nothing of the pool.\<close>

lemma published_frame:
  assumes ok: "rings_ok b" and emit: "emittable privacy"
    and B_def: "B = snd (publish_frame al now slot ref privacy written frame b)"
  shows "memory_of B = (memory_of b)(ref \<mapsto> sl_allocation slot)" and "fb_pool B = fb_pool b"
    and "length (rg_order (ring_of (fr_camera ref) B)) = Suc (length (rg_order (ring_of (fr_camera ref) b)))"
    and "entry_of ref b = None \<Longrightarrow> rings_ok B"
proof -
  let ?c = "fr_camera ref" and ?e = "length (fb_entries b)"
  define entry where "entry = \<lparr>en_frame_ref = ref, en_privacy = privacy, en_bytes = written, en_frame = frame,
    en_allocation = sl_allocation slot, en_published_at = now, en_leases = [], en_pins = []\<rparr>"
  let ?r = "(ring_of ?c b)\<lparr>rg_entries := dict_set ref ?e (rg_entries (ring_of ?c b)), rg_order := rg_order (ring_of ?c b) @ [ref]\<rparr>"
  have ring: "ring_of i B = (if i = ?c then ?r else ring_of i b)" for i
    using emit by (simp add: B_def publish_frame_def Let_def)
  have rest: "fb_entries B = fb_entries b @ [entry]" and pool: "fb_pool B = fb_pool b"
    using emit by (simp_all add: B_def publish_frame_def Let_def set_ring_def ensure_ring_def entry_def)
  have old: "dict_get (rg_entries (ring_of i b)) ref' = Some e \<Longrightarrow>
      fr_camera ref' = i \<and> e < ?e \<and> en_frame_ref (fb_entries b ! e) = ref'" for i ref' e
    using ok by (simp add: rings_ok_def)
  show "fb_pool B = fb_pool b" by (rule pool)
  show "length (rg_order (ring_of ?c B)) = Suc (length (rg_order (ring_of ?c b)))" by (simp add: ring)
  have entry_of: "entry_of ref' B = (if ref' = ref then Some ?e else entry_of ref' b)" for ref'
    by (simp add: entry_of_def ring dict_simps)
  have "memory_of B ref' = ((memory_of b)(ref \<mapsto> sl_allocation slot)) ref'" for ref'
  proof (cases "ref' = ref")
    case False
    have "e < ?e" if "entry_of ref' b = Some e" for e using that old by (simp add: entry_of_def)
    with False show ?thesis by (cases "entry_of ref' b") (simp_all add: memory_of_def entry_of rest nth_append)
  qed (simp add: memory_of_def entry_of rest, simp add: entry_def)
  then show "memory_of B = (memory_of b)(ref \<mapsto> sl_allocation slot)" by (rule ext)
  show "rings_ok B" if free: "entry_of ref b = None"
    unfolding rings_ok_def rest
  proof (intro allI conjI impI)
    have new: "ref \<notin> set (dict_keys (rg_entries (ring_of ?c b)))" using free by (simp add: entry_of_def dict_get_None_iff)
    fix i ref' e
    show "wf_dict (rg_entries (ring_of i B))" "distinct (rg_order (ring_of i B))"
      "set (rg_order (ring_of i B)) = set (dict_keys (rg_entries (ring_of i B)))"
      using ok new by (cases "i = ?c"; simp add: ring rings_ok_def fst_image_dict_set)+
    assume get: "dict_get (rg_entries (ring_of i B)) ref' = Some e"
    show "fr_camera ref' = i"  "e < length (fb_entries b @ [entry])" "en_frame_ref ((fb_entries b @ [entry]) ! e) = ref'"
      using get old [of i ref' e] by (auto simp: ring dict_get_set nth_append entry_def split: if_splits)
  qed
qed

context allocator
begin

definition inv :: "nat set \<Rightarrow> ('f, 'p) frame_buffer \<Rightarrow> bool" where
  "inv S b \<longleftrightarrow> rings_ok b \<and> valid (fb_pool b) \<and> conserves S (memory_of b) (live (fb_pool b))"

lemma inv_frames: "same_frames b b' \<Longrightarrow> inv S b \<Longrightarrow> inv S b'"
  using same_frames_ok(2,3) [of b b'] by (simp add: inv_def same_frames_def)

lemma inv_reclaim:
  assumes "inv S b" and "dict_get (rg_entries (ring_of c b)) ref = Some e"
  shows "inv S (reclaim port c ref e b)"
proof -
  have cam: "fr_camera ref = c" using assms by (auto simp: inv_def rings_ok_def)
  have mem: "memory_of b ref = Some (en_allocation (fb_entries b ! e))"
    using assms(2) cam by (simp add: memory_of_def entry_of_def)
  have "fb_pool (reclaim port c ref e b) = ap_release port (en_allocation (fb_entries b ! e)) (fb_pool b)"
    by (simp add: reclaim_def release_allocation_def set_ring_def)
  with assms(1) mem conserves_drop [where k = ref and mem = "memory_of b"] released [of "fb_pool b" "en_allocation (fb_entries b ! e)"]
  show ?thesis by (simp add: inv_def rings_ok_drop memory_of_reclaim cam)
qed

lemma inv_skip:
  assumes "inv S b" and "dict_get (rg_entries (ring_of c b)) ref = None"
  shows "inv S (set_ring c ((ring_of c b)\<lparr>rg_order := remove1 ref (rg_order (ring_of c b))\<rparr>) b)"
proof -
  have "ref \<notin> set (rg_order (ring_of c b))"
    using assms by (simp add: inv_def rings_ok_def dict_get_None_iff)
  then have "(ring_of c b)\<lparr>rg_order := remove1 ref (rg_order (ring_of c b))\<rparr> = ring_of c b"
    by (simp add: remove1_idem)
  then have "same_frames b (set_ring c ((ring_of c b)\<lparr>rg_order := remove1 ref (rg_order (ring_of c b))\<rparr>) b)"
    by (simp add: same_frames_def) (simp add: set_ring_def)
  with assms(1) show ?thesis by (rule inv_frames [rotated])
qed

lemma inv_loops: "buffer_invariant port now (inv S)"
  by unfold_locales
    (auto intro: inv_frames [OF tidy_entry_frames] inv_reclaim inv_skip inv_frames [rotated] simp: same_frames_refl)

lemma inv_pool:
  assumes "inv S b" and "ap_allocate port n (fb_pool b) = (r, p)"
  shows "inv (case r of Inl e \<Rightarrow> S | Inr a \<Rightarrow> insert a S) (b\<lparr>fb_pool := p\<rparr>)"
proof -
  have same: "rings_ok (b\<lparr>fb_pool := p\<rparr>) = rings_ok b" "memory_of (b\<lparr>fb_pool := p\<rparr>) = memory_of b"
    by (simp_all add: rings_ok_def memory_of_def entry_of_def fun_eq_iff)
  show ?thesis
    using assms allocated [of "fb_pool b" n] exhausted [of "fb_pool b" n] conserves_hand_out
    by (cases r) (auto simp: inv_def same)
qed

lemma inv_evict: "inv S b \<Longrightarrow> inv S (snd (evict_oldest port now sem c b))"
  unfolding evict_oldest_def by (rule buffer_invariant.evict_scan_keeps [OF inv_loops])

lemma inv_ensure: "inv S b \<Longrightarrow> inv S (ensure_ring c b)"
  by (rule inv_frames [of b]) (simp add: same_frames_refl)

lemma inv_acquire_slot:
  assumes "inv S b"
  shows "inv (fst (buffer_do port (OpAcquireSlot now c sem) (S, b))) (snd (buffer_do port (OpAcquireSlot now c sem) (S, b)))"
proof -
  obtain room b2 where rb: "(if rg_capacity (ring_of c b) \<le> int (length (rg_order (ring_of c b)))
      then evict_oldest port now sem c (ensure_ring c b) else (True, ensure_ring c b)) = (room, b2)" by fastforce
  have inv: "inv S b2"
    using inv_evict [OF inv_ensure [OF assms], of now sem c c] inv_ensure [OF assms, of c] rb by (auto split: if_splits)
  then have "inv S (b2\<lparr>fb_pool_exhaustions := n\<rparr>)" for n by (rule inv_frames [rotated]) (simp add: same_frames_refl)
  with inv_pool [OF inv, of "bf_bytes_per_slot (fb_config b2)"] show ?thesis
    by (auto simp: acquire_slot_def rb split: sum.splits prod.splits)
qed

lemma inv_discard:
  assumes "inv S b" and "a \<in> S"
  shows "inv (S - {a}) (release_allocation port a b)"
proof -
  have same: "rings_ok (release_allocation port a b) = rings_ok b" "memory_of (release_allocation port a b) = memory_of b"
    by (simp_all add: rings_ok_def memory_of_def entry_of_def fun_eq_iff) (simp_all add: release_allocation_def)
  with assms released [of "fb_pool b" a] conserves_hand_back [of S "memory_of b"] show ?thesis
    by (simp add: inv_def same) (simp add: release_allocation_def)
qed

lemma inv_publish:
  assumes inv: "inv S b" and slot: "sl_allocation slot \<in> S" and free: "entry_of ref b = None"
  shows "inv (S - {sl_allocation slot}) (snd (publish_frame port now slot ref privacy written frame b))"
proof (cases "emittable privacy")
  case True
  let ?B = "snd (publish_frame port now slot ref privacy written frame b)"
  note facts = published_frame [where al = port and now = now and slot = slot and ref = ref and written = written and frame = frame, OF _ True refl]
  have "memory_of b ref = None" using free by (simp add: memory_of_def)
  with inv slot facts free conserves_publish [of S "memory_of b" _ "sl_allocation slot" ref] show ?thesis
    by (simp add: inv_def)
next
  case False
  with inv_discard [OF inv slot] show ?thesis by (simp add: publish_frame_def discard_slot_def)
qed

lemma forget_refs:
  assumes "valid (fb_pool b)" and "\<forall>ref e. dict_get d ref = Some e \<longrightarrow> fr_camera ref = c"
    and "conserves S (\<lambda>ref. if fr_camera ref = c then map_option (\<lambda>e. en_allocation (fb_entries b ! e)) (dict_get d ref) else m ref)
      (live (fb_pool b))"
    and "fold (forget_ref port) refs (d, b) = (d', b')"
  shows "b' = b\<lparr>fb_pool := fb_pool b'\<rparr> \<and> valid (fb_pool b')
    \<and> (\<forall>ref. dict_get d' ref = (if ref \<in> set refs then None else dict_get d ref))
    \<and> conserves S (\<lambda>ref. if fr_camera ref = c then map_option (\<lambda>e. en_allocation (fb_entries b ! e)) (dict_get d' ref) else m ref)
        (live (fb_pool b'))"
  using assms
proof (induction refs arbitrary: b d)
  case (Cons ref refs)
  let ?mem = "\<lambda>d ref. if fr_camera ref = c then map_option (\<lambda>e. en_allocation (fb_entries b ! e)) (dict_get d ref) else m ref"
  show ?case
  proof (cases "dict_get d ref")
    case None
    with Cons.IH [OF Cons.prems(1-3)] Cons.prems(4) show ?thesis by (auto simp: forget_ref_def)
  next
    case (Some e)
    let ?a = "en_allocation (fb_entries b ! e)" and ?b = "release_allocation port (en_allocation (fb_entries b ! e)) b"
    have fields: "fb_entries ?b = fb_entries b" "fb_pool ?b = ap_release port ?a (fb_pool b)"
      by (simp_all add: release_allocation_def)
    have mem: "?mem d ref = Some ?a" using Some Cons.prems(2) by simp
    have "?mem (dict_del ref d) = (?mem d)(ref := None)"
      using Some Cons.prems(2) by (auto simp: dict_simps)
    with conserves_drop [where k = ref and mem = "?mem d", OF Cons.prems(3)] mem released [OF Cons.prems(1), of ?a]
    have cons: "conserves S (?mem (dict_del ref d)) (live (fb_pool ?b))" and valid: "valid (fb_pool ?b)"
      by (simp_all add: fields)
    have cam: "\<forall>ref' e. dict_get (dict_del ref d) ref' = Some e \<longrightarrow> fr_camera ref' = c"
      using Cons.prems(2) by (simp add: dict_simps)
    have step: "fold (forget_ref port) refs (dict_del ref d, ?b) = (d', b')"
      using Cons.prems(4) Some by (simp add: forget_ref_def [of port ref "(d, b)"])
    have pool: "?b\<lparr>fb_pool := x\<rparr> = b\<lparr>fb_pool := x\<rparr>" for x by (simp add: release_allocation_def)
    note IH = Cons.IH [OF valid cam _ step, unfolded fields(1) pool, OF cons]
    from IH have "\<forall>ref'. dict_get d' ref' = (if ref' \<in> set (ref # refs) then None else dict_get d ref')"
      by (simp add: dict_simps)
    with IH show ?thesis by blast
  qed
qed simp

lemma inv_forget:
  assumes "inv S b"
  shows "inv S (forget_camera port c b)"
proof (cases "dict_get (fb_rings b) c")
  case None
  with assms show ?thesis by (simp add: forget_camera_def)
next
  case (Some r)
  let ?b = "b\<lparr>fb_rings := dict_del c (fb_rings b)\<rparr>"
  have ring: "ring_of c b = r" using Some by (simp add: ring_of_def)
  have ok: "rings_ok b" "valid (fb_pool b)" "conserves S (memory_of b) (live (fb_pool b))" using assms by (simp_all add: inv_def)
  obtain d' b' where fold: "fold (forget_ref port) (rg_order r) (rg_entries r, ?b) = (d', b')" by fastforce
  have cam: "\<forall>ref e. dict_get (rg_entries r) ref = Some e \<longrightarrow> fr_camera ref = c"
    and all: "set (rg_order r) = set (dict_keys (rg_entries r))"
    using ok(1) by (auto simp: rings_ok_def simp flip: ring)
  have "memory_of b = (\<lambda>ref. if fr_camera ref = c
      then map_option (\<lambda>e. en_allocation (fb_entries ?b ! e)) (dict_get (rg_entries r) ref) else memory_of b ref)"
    by (auto simp: memory_of_def entry_of_def ring)
  with ok(3) have cons: "conserves S (\<lambda>ref. if fr_camera ref = c
      then map_option (\<lambda>e. en_allocation (fb_entries ?b ! e)) (dict_get (rg_entries r) ref) else memory_of b ref) (live (fb_pool ?b))"
    by simp
  note after = forget_refs [OF _ cam cons fold]
  have gone: "dict_get d' ref = None" for ref
    using after ok(2) all dict_get_None_iff [of "rg_entries r" ref] by auto
  have b': "b' = ?b\<lparr>fb_pool := fb_pool b'\<rparr>" using after ok(2) by simp
  have ring': "ring_of i b' = (if i = c then new_ring (fb_config b) else ring_of i b)" for i
    by (subst b') (simp add: ring_of_def dict_simps split: option.split)
  have entries: "fb_entries b' = fb_entries b" by (subst b') simp
  have "rings_ok b'"
    using ok(1) unfolding rings_ok_def ring' entries by (auto simp: new_ring_def)
  moreover have "memory_of b' = (\<lambda>ref. if fr_camera ref = c then None else memory_of b ref)"
    unfolding memory_of_def entry_of_def ring' entries by (auto simp: new_ring_def)
  ultimately have "inv S b'" using after ok(2) by (simp add: inv_def gone cong: if_cong)
  with Some fold show ?thesis by (simp add: forget_camera_def)
qed

lemma inv_close: "inv S b \<Longrightarrow> inv S (buffer_close port b)"
proof -
  have "inv S b \<Longrightarrow> inv S (fold (forget_camera port) cs b)" for cs b
    by (induction cs arbitrary: b) (simp_all add: inv_forget)
  then show "inv S b \<Longrightarrow> inv S (buffer_close port b)" by (simp add: buffer_close_def)
qed

lemma inv_do:
  assumes "inv (fst st) (snd st)" and "allowed op st"
  shows "inv (fst (buffer_do port op st)) (snd (buffer_do port op st))"
proof (cases op)
  case (OpAcquireSlot now c sem)
  with inv_acquire_slot [of "fst st" "snd st" now c sem] assms(1) show ?thesis by simp
qed (use assms in \<open>auto simp: register_camera_def discard_slot_def is_resident_def Let_def inv_ensure inv_forget inv_close
      inv_discard inv_publish intro: inv_frames acquire_frame_frames pin_frame_frames release_lease_frames unpin_frame_frames
      buffer_invariant.sweep_keeps [OF inv_loops]\<close>)

lemma inv_run:
  "inv (fst st) (snd st) \<Longrightarrow> all_allowed port ops st \<Longrightarrow> inv (fst (buffer_run port ops st)) (snd (buffer_run port ops st))"
proof (induction ops arbitrary: st)
  case (Cons op ops)
  with inv_do [of st op] show ?case by (simp add: buffer_run_def)
qed (simp add: buffer_run_def)

lemma inv_init:
  assumes "valid p" and "live p = {}"
  shows "inv {} (buffer_init c p :: ('f, 'p) frame_buffer)"
proof -
  let ?b = "buffer_init c p :: ('f, 'p) frame_buffer"
  have "memory_of ?b = (\<lambda>ref. None)"
    by (rule ext) (simp add: memory_of_def entry_of_def ring_of_def buffer_init_def new_ring_def)
  moreover have "rings_ok ?b" "fb_pool ?b = p"
    by (simp_all add: rings_ok_def ring_of_def buffer_init_def new_ring_def)
  ultimately show ?thesis using assms by (simp add: inv_def conserves_def)
qed

end

section \<open>A lease protects its frame until its deadline\<close>

definition shielded ::
  "frame_ref \<Rightarrow> nat \<Rightarrow> nat \<Rightarrow> instant \<Rightarrow> frame_ref \<times> privacy_state \<times> int \<times> 'f \<times> nat \<times> instant \<Rightarrow> ('f, 'p) frame_buffer \<Rightarrow> bool" where
  "shielded ref e l d fp b \<longleftrightarrow> entry_of ref b = Some e \<and> e < length (fb_entries b) \<and> fixed_part (fb_entries b ! e) = fp
     \<and> l \<in> set (en_leases (fb_entries b ! e)) \<and> l < length (fb_leases b)
     \<and> \<not> le_released (fb_leases b ! l) \<and> le_entry (fb_leases b ! l) = e \<and> le_deadline (fb_leases b ! l) = d"

text \<open>It suffices that the frames are the same, the lease is untouched and stays in its entry's list.\<close>

lemma shielded_step:
  assumes "shielded ref e l d fp b" and "same_frames b b'"
    and "l \<in> set (en_leases (fb_entries b' ! e))" and "l < length (fb_leases b')" and "fb_leases b' ! l = fb_leases b ! l"
  shows "shielded ref e l d fp b'"
  using assms same_frames_ok(1) [OF assms(2), of ref] same_frames_nth [OF assms(2)] by (simp add: shielded_def)

lemma update_entry_nth:
  "e < length (fb_entries b) \<Longrightarrow> fb_entries (update_entry i f b) ! e = (if i = e then f (fb_entries b ! e) else fb_entries b ! e)"
  by (simp add: update_entry_def nth_list_update)

lemma leases_after_update:
  assumes "l \<in> set (en_leases (es ! e))" and "\<And>x. l \<in> set (en_leases x) \<Longrightarrow> l \<in> set (en_leases (f x))"
  shows "l \<in> set (en_leases (es[i := f (es ! i)] ! e))"
  using assms by (cases "i < length es") (auto simp: nth_list_update list_update_beyond)

lemma shielded_update:
  assumes "shielded ref e l d fp b" and "same_frames b b'" and "fb_entries b' = fb_entries (update_entry i f b)"
    and "\<And>x. l \<in> set (en_leases x) \<Longrightarrow> l \<in> set (en_leases (f x))"
    and "l < length (fb_leases b')" and "fb_leases b' ! l = fb_leases b ! l"
  shows "shielded ref e l d fp b'"
  by (rule shielded_step [OF assms(1,2) _ assms(5,6)])
    (use assms(1,3,4) in \<open>auto simp: update_entry_def shielded_def intro!: leases_after_update\<close>)

lemma shielded_break: "shielded ref e l d fp b \<Longrightarrow> j \<noteq> l \<Longrightarrow> shielded ref e l d fp (break_lease i j b)"
  by (rule shielded_update [where i = i and f = "remove_lease j", OF _ break_lease_frames])
    (auto simp: shielded_def break_lease_def Let_def mark_lease_def update_entry_def remove_lease_def)

lemma shielded_expire_pin: "shielded ref e l d fp b \<Longrightarrow> shielded ref e l d fp (expire_pin i h b)"
  by (rule shielded_update [where i = i and f = "remove_pin h", OF _ expire_pin_frames])
    (auto simp: shielded_def expire_pin_def Let_def mark_pin_def update_entry_def remove_pin_def)

lemma shielded_tidy:
  assumes "shielded ref e l d fp b" and "instant_ns now \<le> instant_ns d"
  shows "shielded ref e l d fp (tidy_entry now i b)"
proof -
  have breaks: "\<forall>j\<in>set js. j \<noteq> l \<Longrightarrow> shielded ref e l d fp b \<Longrightarrow> shielded ref e l d fp (fold (break_lease i) js b)" for js b
    by (induction js arbitrary: b) (simp_all add: shielded_break)
  have "\<forall>j\<in>set (filter (\<lambda>j. instant_ns (le_deadline (fb_leases b ! j)) < instant_ns now) (en_leases (fb_entries b ! i))). j \<noteq> l"
    using assms by (auto simp: shielded_def)
  from breaks [OF this assms(1)] have "shielded ref e l d fp (break_expired_leases now i b)"
    by (simp add: break_expired_leases_def)
  moreover have "shielded ref e l d fp b \<Longrightarrow> shielded ref e l d fp (fold (expire_pin i) hs b)" for hs b
    by (induction hs arbitrary: b) (simp_all add: shielded_expire_pin)
  ultimately show ?thesis by (simp add: tidy_entry_def expire_pins_def)
qed

lemma shielded_reclaim:
  assumes "rings_ok b" and "shielded ref e l d fp b" and "dict_get (rg_entries (ring_of c b)) ref' = Some e'"
    and "reclaimable (fb_entries b ! e')"
  shows "shielded ref e l d fp (reclaim al c ref' e' b)"
proof -
  have "ref' \<noteq> ref"
  proof
    assume "ref' = ref"
    with assms(1,3) have "entry_of ref b = Some e'" by (auto simp: entry_of_def rings_ok_def)
    with assms(2,4) show False by (auto simp: shielded_def reclaimable_def)
  qed
  then have "entry_of ref (reclaim al c ref' e' b) = entry_of ref b"
    by (simp add: entry_of_def reclaim_def drop_ref_def dict_simps)
  with assms(2) show ?thesis by (simp add: shielded_def) (simp add: reclaim_def release_allocation_def set_ring_def)
qed

lemma shielded_same:
  assumes "shielded ref e l d fp b" and "ring_of (fr_camera ref) b' = ring_of (fr_camera ref) b"
    and "fb_entries b' = fb_entries b" and "fb_leases b' = fb_leases b"
  shows "shielded ref e l d fp b'"
  using assms by (simp add: shielded_def entry_of_def)

lemma shielded_ensure: "shielded ref e l d fp b \<Longrightarrow> shielded ref e l d fp (ensure_ring c b)"
  by (erule shielded_same) (simp_all, simp_all add: ensure_ring_def)

lemma shielded_forget:
  assumes "shielded ref e l d fp b" and "c \<noteq> fr_camera ref"
  shows "shielded ref e l d fp (forget_camera al c b)"
proof (cases "dict_get (fb_rings b) c")
  case (Some r)
  have frame: "fb_rings (snd (fold (forget_ref al) refs db)) = fb_rings (snd db)
      \<and> fb_entries (snd (fold (forget_ref al) refs db)) = fb_entries (snd db)
      \<and> fb_leases (snd (fold (forget_ref al) refs db)) = fb_leases (snd db)
      \<and> fb_config (snd (fold (forget_ref al) refs db)) = fb_config (snd db)" for refs db
    by (induction refs arbitrary: db)
      (simp_all add: forget_ref_def release_allocation_def split: prod.split option.split)
  from frame [of "rg_order r" "(rg_entries r, b\<lparr>fb_rings := dict_del c (fb_rings b)\<rparr>)"] Some assms(2) show ?thesis
    by (intro shielded_same [OF assms(1)]) (simp_all add: forget_camera_def ring_of_def dict_simps split: option.split)
qed (use assms in \<open>simp add: forget_camera_def\<close>)

lemma shielded_publish:
  assumes "shielded ref e l d fp b" and "entry_of ref' b = None"
  shows "shielded ref e l d fp (snd (publish_frame al now slot ref' privacy written frame b))"
proof (cases "emittable privacy")
  case True
  define B where "B = snd (publish_frame al now slot ref' privacy written frame b)"
  have "ref' \<noteq> ref" using assms by (auto simp: shielded_def)
  then have "entry_of ref B = entry_of ref b" using True by (simp add: B_def entry_of_def publish_frame_def Let_def dict_simps)
  moreover have "\<exists>x. fb_entries B = fb_entries b @ [x]" "fb_leases B = fb_leases b"
    using True by (simp_all add: B_def publish_frame_def Let_def set_ring_def ensure_ring_def)
  ultimately have "shielded ref e l d fp B" using assms(1) by (auto simp: shielded_def nth_append)
  then show ?thesis by (simp add: B_def)
next
  case False
  with assms(1) show ?thesis
    by (intro shielded_same [OF assms(1)]) (simp_all add: publish_frame_def discard_slot_def, simp_all add: release_allocation_def)
qed

lemma shielded_acquire: "shielded ref e l d fp b \<Longrightarrow> shielded ref e l d fp (snd (acquire_frame now ref' holder deadline b))"
proof (cases "entry_of ref' (ensure_ring (fr_camera ref') b)")
  case None
  assume "shielded ref e l d fp b"
  then show ?thesis using None by (simp add: acquire_frame_def shielded_ensure)
next
  case (Some i)
  assume sh: "shielded ref e l d fp b"
  show ?thesis
    by (rule shielded_update [OF sh acquire_frame_frames, of _ _ _ _ i "\<lambda>x. x\<lparr>en_leases := en_leases x @ [length (fb_leases b)]\<rparr>"])
      (use sh Some in \<open>auto simp: acquire_frame_def Let_def shielded_def nth_append update_entry_def ensure_ring_def\<close>)
qed

lemma shielded_release: "shielded ref e l d fp b \<Longrightarrow> j \<noteq> l \<Longrightarrow> shielded ref e l d fp (release_lease j b)"
proof (cases "le_released (fb_leases b ! j)")
  case False
  assume sh: "shielded ref e l d fp b" and "j \<noteq> l"
  show ?thesis
    by (rule shielded_update [where i = "le_entry (fb_leases b ! j)" and f = "remove_lease j", OF sh release_lease_frames])
      (use sh False \<open>j \<noteq> l\<close> in \<open>auto simp: release_lease_def Let_def shielded_def update_entry_def mark_lease_def remove_lease_def\<close>)
qed (simp add: release_lease_def)

lemma shielded_pin: "shielded ref e l d fp b \<Longrightarrow> shielded ref e l d fp (snd (pin_frame now ref' ttl reason b))"
proof (cases "entry_of ref' (ensure_ring (fr_camera ref') b)")
  case None
  assume "shielded ref e l d fp b"
  then show ?thesis using None by (simp add: pin_frame_def shielded_ensure)
next
  case (Some i)
  assume sh: "shielded ref e l d fp b"
  show ?thesis
    by (rule shielded_update [OF sh pin_frame_frames, of _ _ _ _ i "\<lambda>x. x\<lparr>en_pins := en_pins x @ [length (fb_pins b)]\<rparr>"])
      (use sh Some in \<open>auto simp: pin_frame_def Let_def shielded_def update_entry_def ensure_ring_def\<close>)
qed

lemma shielded_remove_pin: "shielded ref e l d fp b \<Longrightarrow> shielded ref e l d fp (update_entry i (remove_pin h) b)"
  by (rule shielded_update [where i = i and f = "remove_pin h", OF _ update_entry_frames])
    (auto simp: shielded_def update_entry_def remove_pin_def fixed_part_def)

lemma shielded_mark_pin: "shielded ref e l d fp b \<Longrightarrow> shielded ref e l d fp ((mark_pin h b)\<lparr>fb_pins_active := n\<rparr>)"
  by (erule shielded_same) (simp_all, simp_all add: mark_pin_def)

lemma shielded_unpin: "shielded ref e l d fp b \<Longrightarrow> shielded ref e l d fp (unpin_frame h b)"
  by (auto simp: unpin_frame_def Let_def intro!: shielded_mark_pin shielded_remove_pin shielded_ensure split: option.split)

primrec disturbs :: "frame_ref \<Rightarrow> nat \<Rightarrow> 'f buffer_op \<Rightarrow> bool" where
  "disturbs ref l (OpRegister c) \<longleftrightarrow> False"
| "disturbs ref l (OpForget c) \<longleftrightarrow> c = fr_camera ref"
| "disturbs ref l (OpAcquireSlot now c sem) \<longleftrightarrow> False"
| "disturbs ref l (OpDiscard slot) \<longleftrightarrow> False"
| "disturbs ref l (OpPublish now slot r privacy written frame) \<longleftrightarrow> False"
| "disturbs ref l (OpAcquire now r holder deadline) \<longleftrightarrow> False"
| "disturbs ref l (OpRelease j) \<longleftrightarrow> j = l"
| "disturbs ref l (OpPin now r ttl reason) \<longleftrightarrow> False"
| "disturbs ref l (OpUnpin h) \<longleftrightarrow> False"
| "disturbs ref l (OpResident r) \<longleftrightarrow> False"
| "disturbs ref l (OpSweep now) \<longleftrightarrow> False"
| "disturbs ref l OpClose \<longleftrightarrow> True"

fun op_time :: "'f buffer_op \<Rightarrow> instant option" where
  "op_time (OpAcquireSlot now c sem) = Some now"
| "op_time (OpSweep now) = Some now"
| "op_time op = None"

context allocator
begin

lemma shielded_loops:
  "instant_ns now \<le> instant_ns d \<Longrightarrow> buffer_invariant port now (\<lambda>b. inv S b \<and> shielded ref e l d fp b)"
proof (unfold_locales, goal_cases)
  case (1 b i)
  then show ?case using inv_frames [OF tidy_entry_frames] shielded_tidy by blast
next
  case (2 b c ref' i)
  then have "inv S b" "shielded ref e l d fp b" "rings_ok b" by (simp_all add: inv_def)
  with 2(3,4) show ?case by (simp add: inv_reclaim shielded_reclaim)
next
  case (3 b c ref')
  then have skip: "inv S (set_ring c ((ring_of c b)\<lparr>rg_order := remove1 ref' (rg_order (ring_of c b))\<rparr>) b)"
    by (intro inv_skip) simp_all
  with 3 show ?case by (auto simp: shielded_def entry_of_def) (simp_all add: set_ring_def)
next
  case (4 b evs n)
  then show ?case using inv_frames [of b "b\<lparr>fb_evictions := n, fb_events := evs\<rparr>"]
    by (simp add: same_frames_refl shielded_def entry_of_def)
qed

lemma shielded_acquire_slot:
  assumes "inv S b" and "shielded ref e l d fp b" and "instant_ns now \<le> instant_ns d"
  shows "shielded ref e l d fp (snd (acquire_slot port now c sem b))"
proof -
  have ensured: "inv S (ensure_ring c b) \<and> shielded ref e l d fp (ensure_ring c b)"
    using inv_ensure [OF assms(1)] assms(2) by (simp add: shielded_def entry_of_def) (simp add: ensure_ring_def)
  obtain room b2 where rb: "(if rg_capacity (ring_of c b) \<le> int (length (rg_order (ring_of c b)))
      then evict_oldest port now sem c (ensure_ring c b) else (True, ensure_ring c b)) = (room, b2)" by fastforce
  have "shielded ref e l d fp b2"
    using buffer_invariant.evict_scan_keeps [OF shielded_loops [OF assms(3)] ensured, of sem c "rg_order (ring_of c b)"] ensured rb
    by (auto simp: evict_oldest_def split: if_splits)
  then show ?thesis
    by (auto simp: acquire_slot_def rb shielded_def entry_of_def split: sum.splits prod.splits)
qed

lemma shielded_sweep:
  assumes "inv S b" and "shielded ref e l d fp b" and "instant_ns now \<le> instant_ns d"
  shows "shielded ref e l d fp (snd (buffer_sweep port now b))"
  using buffer_invariant.sweep_keeps [OF shielded_loops [OF assms(3)], of S b] assms(1,2) by simp

lemma shielded_do:
  assumes "inv (fst st) (snd st)" and "allowed op st" and "\<not> disturbs ref l op"
    and "\<forall>t. op_time op = Some t \<longrightarrow> instant_ns t \<le> instant_ns d" and "shielded ref e l d fp (snd st)"
  shows "shielded ref e l d fp (snd (buffer_do port op st))"
proof (cases op)
  case (OpAcquireSlot now c sem)
  with shielded_acquire_slot [OF assms(1,5), of now c sem] assms(4) show ?thesis by (auto split: prod.splits sum.splits)
next
  case (OpDiscard slot)
  with assms(5) show ?thesis
    by (auto simp: discard_slot_def intro!: shielded_same [OF assms(5)]) (simp_all add: release_allocation_def)
qed (use assms in \<open>simp_all add: register_camera_def is_resident_def Let_def shielded_ensure shielded_forget shielded_publish
      shielded_acquire shielded_release shielded_pin shielded_unpin shielded_sweep\<close>)

lemma shielded_run:
  assumes "inv (fst st) (snd st)" and "all_allowed port ops st"
    and "\<forall>op\<in>set ops. \<not> disturbs ref l op \<and> (\<forall>t. op_time op = Some t \<longrightarrow> instant_ns t \<le> instant_ns d)"
    and "shielded ref e l d fp (snd st)"
  shows "shielded ref e l d fp (snd (buffer_run port ops st))"
  using assms
proof (induction ops arbitrary: st)
  case (Cons op ops)
  with inv_do [of st op] shielded_do [of st op ref l d e fp] show ?case by (simp add: buffer_run_def)
qed (simp add: buffer_run_def)

end

section \<open>On the host pool\<close>

interpretation host_loops: buffer_invariant host_port now "host.inv n S" for now n S
  by (rule host.inv_loops)

lemma host_reachable:
  fixes b :: "('f, host_pool) frame_buffer"
  assumes "pool_init slots bytes = Inr p" and "all_allowed host_port ops ({}, buffer_init cfg p)"
    and "buffer_run host_port ops ({}, buffer_init cfg p) = (S, b)"
  shows "host.inv (nat slots) S b"
proof -
  have "host.inv (nat slots) {} (buffer_init cfg p :: ('f, host_pool) frame_buffer)"
    using pool_init_ok [OF assms(1)] by (intro host.inv_init) (simp_all add: pool_of_size_def)
  then have "host.inv (nat slots) (fst ({}, buffer_init cfg p)) (snd ({}, buffer_init cfg p :: ('f, host_pool) frame_buffer))"
    by simp
  from host.inv_run [OF this assms(2)] show ?thesis using assms(3) by simp
qed


text \<open>
  C8: A lease protects its frame until its deadline. In a reachable buffer, once a lease on a resident
  frame is granted, any further run in which the camera is not forgotten, the buffer not closed, the
  lease not released and no eviction or sweep happens after the deadline leaves the lease readable:
  it gives the same frame, whose memory is still in use, is not handed out for writing and belongs to
  no other resident frame.
\<close>

theorem lease_protects_frame:
  assumes "pool_init slots bytes = Inr p" and "all_allowed host_port ops ({}, buffer_init cfg p)"
    and "buffer_run host_port ops ({}, buffer_init cfg p) = (S, b)"
    and "entry_of ref b = Some e" and "acquire_frame now ref holder (Some dl) b = (Inr l, b1)"
    and "all_allowed host_port rest (S, b1)"
    and "\<forall>op\<in>set rest. \<not> disturbs ref l op \<and> (\<forall>t. op_time op = Some t \<longrightarrow> instant_ns t \<le> instant_ns now + duration_ns dl)"
    and "buffer_run host_port rest (S, b1) = (S', b')"
  shows "\<exists>x. lease_frame l b' = Inr x \<and> fixed_part x = fixed_part (fb_entries b ! e) \<and> en_frame_ref x = ref
    \<and> memory_of b' ref = Some (en_allocation x) \<and> en_allocation x \<in> set (hp_in_use (fb_pool b')) \<and> en_allocation x \<notin> S'
    \<and> (\<forall>ref'. memory_of b' ref' = Some (en_allocation x) \<longrightarrow> ref' = ref)"
proof -
  have inv: "host.inv (nat slots) S b" by (rule host_reachable [OF assms(1-3)])
  then have rings: "e < length (fb_entries b)" "en_frame_ref (fb_entries b ! e) = ref"
    using assms(4) by (auto simp: host.inv_def rings_ok_def entry_of_def)
  let ?d = "instant_plus now dl" and ?fp = "fixed_part (fb_entries b ! e)"
  have inv1: "host.inv (nat slots) S b1"
    using host.inv_frames [OF acquire_frame_frames inv, of now ref holder "Some dl"] assms(5) by simp
  have entry: "entry_of ref (ensure_ring (fr_camera ref) b) = Some e" using assms(4) by (simp add: entry_of_def)
  have "shielded ref e l ?d ?fp b1"
    using assms(5) entry rings
    by (auto simp: acquire_frame_def Let_def shielded_def entry_of_def update_entry_def ensure_ring_def nth_append fixed_part_def)
  with host.shielded_run [of "nat slots" "(S, b1)" rest ref l ?d e ?fp] inv1 assms(6,7,8)
  have sh: "shielded ref e l ?d ?fp b'" by (simp add: instant_plus_def)
  have inv': "host.inv (nat slots) S' b'" using host.inv_run [of "nat slots" "(S, b1)" rest] inv1 assms(6,8) by simp
  let ?x = "fb_entries b' ! e"
  have mem: "memory_of b' ref = Some (en_allocation ?x)" using sh by (simp add: shielded_def memory_of_def)
  with inv' have "en_allocation ?x \<in> set (hp_in_use (fb_pool b'))" "en_allocation ?x \<notin> S'"
    "\<forall>ref'. memory_of b' ref' = Some (en_allocation ?x) \<longrightarrow> ref' = ref"
    by (auto simp: host.inv_def conserves_def ran_def dom_def inj_on_def)
  moreover have "lease_frame l b' = Inr ?x" "fixed_part ?x = ?fp" using sh by (simp_all add: lease_frame_def shielded_def)
  moreover have "en_frame_ref ?x = ref" using rings(2) \<open>fixed_part ?x = ?fp\<close> by (simp add: fixed_part_def)
  ultimately show ?thesis using mem by blast
qed

section \<open>What the code does at the edges\<close>

text \<open>Forgetting a camera gives back the memory of frames that are still leased.\<close>

lemma forget_frees_leased_memory:
  assumes "host.inv n S b" and "shielded ref e l d fp b"
  shows "\<exists>x. lease_frame l (forget_camera host_port (fr_camera ref) b) = Inr x
    \<and> en_allocation x \<notin> set (hp_in_use (fb_pool (forget_camera host_port (fr_camera ref) b)))"
proof -
  let ?b = "forget_camera host_port (fr_camera ref) b" and ?x = "fb_entries b ! e"
  have frame: "fb_entries (snd (fold (forget_ref host_port) refs db)) = fb_entries (snd db)
      \<and> fb_leases (snd (fold (forget_ref host_port) refs db)) = fb_leases (snd db)
      \<and> fb_rings (snd (fold (forget_ref host_port) refs db)) = fb_rings (snd db)" for refs and db :: "_ \<times> ('a, host_pool) frame_buffer"
    by (induction refs arbitrary: db)
      (simp_all add: forget_ref_def release_allocation_def split: prod.split option.split)
  have same: "fb_entries ?b = fb_entries b" "fb_leases ?b = fb_leases b" and gone: "entry_of ref ?b = None"
    and other: "fr_camera r \<noteq> fr_camera ref \<Longrightarrow> entry_of r ?b = entry_of r b" 
    and same_camera: "fr_camera r = fr_camera ref \<Longrightarrow> entry_of r ?b = None" for r
    by (auto simp: forget_camera_def frame entry_of_def ring_of_def dict_simps new_ring_def split: option.split)
  have mem: "memory_of b ref = Some (en_allocation ?x)" using assms(2) by (simp add: shielded_def memory_of_def)
  have "memory_of ?b r \<noteq> Some (en_allocation ?x)" for r
  proof
    assume r: "memory_of ?b r = Some (en_allocation ?x)"
    then have "memory_of b r = Some (en_allocation ?x)"
      using other [of r] same_camera [of r] by (cases "fr_camera r = fr_camera ref") (auto simp: memory_of_def same)
    with mem assms(1) have "r = ref" by (auto simp: host.inv_def conserves_def inj_on_def dom_def)
    with r gone show False by (simp add: memory_of_def)
  qed
  moreover have "en_allocation ?x \<notin> S" using assms(1) mem by (auto simp: host.inv_def conserves_def ran_def)
  moreover have "set (hp_in_use (fb_pool ?b)) = S \<union> ran (memory_of ?b)"
    using host.inv_forget [OF assms(1)] by (simp add: host.inv_def conserves_def)
  ultimately show ?thesis using assms(2) same by (auto simp: lease_frame_def shielded_def ran_def)
qed

text \<open>Publishing under a reference that is still resident loses the memory of the frame it replaces.\<close>

lemma republishing_leaks_memory:
  assumes "host.inv n S b" and "emittable privacy" and "sl_allocation slot \<in> S" and "memory_of b ref = Some a"
  shows "let B = snd (publish_frame host_port now slot ref privacy written frame b)
    in a \<in> set (hp_in_use (fb_pool B)) \<and> a \<notin> S - {sl_allocation slot} \<and> a \<notin> ran (memory_of B)"
proof -
  have inv: "rings_ok b" "set (hp_in_use (fb_pool b)) = S \<union> ran (memory_of b)" "S \<inter> ran (memory_of b) = {}"
    "inj_on (memory_of b) (dom (memory_of b))"
    using assms(1) by (simp_all add: host.inv_def conserves_def)
  have "a \<notin> S" "a \<in> ran (memory_of b)" using assms(4) inv(3) by (auto simp: ran_def)
  moreover have "a \<notin> ran ((memory_of b)(ref \<mapsto> sl_allocation slot))"
    using assms(3,4) inv(4) \<open>a \<notin> S\<close> by (auto simp: ran_def inj_on_def dom_def)
  ultimately show ?thesis
    using published_frame(1,2) [where al = host_port and now = now and slot = slot and ref = ref and written = written and frame = frame, OF inv(1) assms(2) refl] inv(2) by (simp add: Let_def)
qed

text \<open>Publishing never looks at the ring's capacity, so slots acquired ahead overfill the ring.\<close>

lemma publishing_ignores_capacity:
  "rings_ok b \<Longrightarrow> emittable privacy \<Longrightarrow>
     length (rg_order (ring_of (fr_camera ref) (snd (publish_frame al now slot ref privacy written frame b)))) =
       Suc (length (rg_order (ring_of (fr_camera ref) b)))"
  by (rule published_frame(3) [OF _ _ refl])

section \<open>Examples\<close>

definition example_section :: buffer_section where
  "example_section = \<lparr>bf_slots_per_camera = 2, bf_bytes_per_slot = 8, bf_lease_deadline_ms = 10, bf_history_window_ms = 5\<rparr>"

definition example_pool :: host_pool where
  "example_pool = \<lparr>hp_bytes_per_slot = 8, hp_slots = 2, hp_free = [0, 1], hp_in_use = []\<rparr>"

definition example_ref :: "int \<Rightarrow> frame_ref" where
  "example_ref n = FrameRef ''cam'' 0 n"

definition example_ops :: "nat buffer_op list" where
  "example_ops = [OpAcquireSlot (Instant 0) ''cam'' REALTIME,
     OpPublish (Instant 0) \<lparr>sl_allocation = 1, sl_camera = ''cam''\<rparr> (example_ref 1) MASKED 8 7]"

lemmas example_buffer_simps =
  example_section_def example_pool_def example_ref_def example_ops_def buffer_run_def buffer_init_def acquire_slot_def
  publish_frame_def ensure_ring_def ring_of_def new_ring_def set_ring_def dict_get_def dict_set_def host_port_def
  pool_allocate_def emittable_def entry_of_def Let_def

definition example_buffer :: "(nat, host_pool) frame_buffer" where
  "example_buffer = snd (buffer_run host_port example_ops ({}, buffer_init example_section example_pool))"

lemma example_pool_init: "pool_init 2 8 = Inr example_pool"
  by (simp add: pool_init_def example_pool_def upt_conv_Cons)

lemma example_run:
  "buffer_run host_port example_ops ({}, buffer_init example_section example_pool) = ({}, example_buffer)"
  "all_allowed host_port example_ops ({}, buffer_init example_section example_pool)"
  by (simp_all add: example_buffer_def) (simp_all add: example_buffer_simps)

lemma example_buffer_code:
  "fb_rings example_buffer = [(''cam'', \<lparr>rg_capacity = 2, rg_entries = [(example_ref 1, 0)], rg_order = [example_ref 1]\<rparr>)]"
  "fb_entries example_buffer = [\<lparr>en_frame_ref = example_ref 1, en_privacy = MASKED, en_bytes = 8, en_frame = 7,
     en_allocation = 1, en_published_at = Instant 0, en_leases = [], en_pins = []\<rparr>]"
  "fb_leases example_buffer = []" "hp_in_use (fb_pool example_buffer) = [1]"
  by (simp_all add: example_buffer_def example_buffer_simps)


theorem lease_protects_frame_witness:
  "\<exists>l b1 S' b'. acquire_frame (Instant 1) (example_ref 1) ''reader'' (Some (Duration 9)) example_buffer = (Inr l, b1)
     \<and> buffer_run host_port [OpSweep (Instant 10), OpAcquireSlot (Instant 10) ''cam'' REALTIME] ({}, b1) = (S', b')
     \<and> (\<exists>x. lease_frame l b' = Inr x \<and> en_frame x = 7)"
proof -
  have entry: "entry_of (example_ref 1) example_buffer = Some 0"
    by (simp add: entry_of_def ring_of_def dict_get_def example_buffer_code example_ref_def)
  obtain b1 where lease: "acquire_frame (Instant 1) (example_ref 1) ''reader'' (Some (Duration 9)) example_buffer = (Inr 0, b1)"
    by (simp add: acquire_frame_def Let_def entry_of_def ring_of_ensure ensure_ring_def ring_of_def dict_get_def
        example_buffer_code example_ref_def)
  let ?rest = "[OpSweep (Instant 10), OpAcquireSlot (Instant 10) ''cam'' REALTIME]"
  obtain S' b' where run: "buffer_run host_port ?rest ({}, b1) = (S', b')" by fastforce
  from lease_protects_frame [OF example_pool_init example_run(2,1) entry lease _ _ run]
  obtain x where "lease_frame 0 b' = Inr x" "fixed_part x = fixed_part (fb_entries example_buffer ! 0)" by auto
  then have "lease_frame 0 b' = Inr x \<and> en_frame x = 7" by (simp add: example_buffer_code fixed_part_def)
  with lease run show ?thesis by blast
qed

end
