(* ===== verification/Spec2Isabelle.thy ===== *)
theory Spec2Isabelle
  imports Tracking_Engine Compliance Authorization Subscription_Hub State_Refinement Api_Reads Demand_Intake
    Crop_Budget Understanding_Cache Evidence_Store Event_Bus Frame_Buffer
begin

text \<open>
  Verification library for the vision platform backend (\<^verbatim>\<open>src/vision_os\<close>, with the compliance
  evaluator of \<^verbatim>\<open>src/compliance\<close>).

  \<^bold>\<open>The program.\<close> Cameras deliver frames into the frame buffer; detection turns a frame into
  detections; the tracking engine associates them with tracks; the registry gives tracks stable
  objects; cropping and understanding spend a budget on reading attributes that consumers demanded;
  synthesis writes observations; the state manager appends them to the observation log and projects
  them into live state; the observation API authorizes principals, answers queries, delivers
  subscriptions, takes demands and hands out evidence; compliance rules are evaluated over objects as
  the API shows them. A kernel carries events between the parts.

  \<^bold>\<open>Which theory models what.\<close>

  Shared. \<open>Prelude\<close>: identifiers (\<^verbatim>\<open>core/model/ids.py\<close>), exceptions, Python's insertion-ordered
  dictionary, deques, slices, stable sorting, class hierarchy. \<open>Timebase\<close>
  (\<^verbatim>\<open>core/model/timebase.py\<close>): instants and durations in nanoseconds. Three theories hold interfaces
  as locales: \<open>Closed_Machine\<close> (a finite table of transitions, checked on every step, with terminal
  states; interpreted on the track, object and demand lifecycles), \<open>Gap_Queue\<close> (a bounded queue that
  reports what it drops; interpreted on the API's and on the event bus's subscription) and
  \<open>Lru_Cache\<close> (interpreted on the crop deduplication cache and on the understanding cache).
  \<open>Observation_Log\<close> and \<open>Memory_Pool\<close> state the ports \<open>log_port\<close> and \<open>allocator\<close> and interpret
  them on the adapters in memory.

  Acquisition. \<open>Memory_Pool\<close> (\<^verbatim>\<open>adapters/memory/pool.py\<close>) and \<open>Frame_Buffer\<close>
  (\<^verbatim>\<open>acquisition/buffer/buffer.py\<close>). Frames, leases and pins that the code shares by reference are
  entries of lists named by index. The state of a run is the buffer with the set of slots that were
  handed out; \<open>buffer_do\<close> is one call of any operation.

  Tracking (\<^verbatim>\<open>perception/tracking\<close>, \<^verbatim>\<open>adapters/tracking\<close>, \<^verbatim>\<open>core/model/track.py\<close>,
  \<^verbatim>\<open>core/model/space.py\<close>). \<open>Track_Lifecycle\<close>: the state machine. \<open>Track_Table\<close>: live tracks of a
  camera, issuing of ids, eviction, reset. \<open>Cost_Matrix\<close>: overlap, penalties and the cost of a pair.
  \<open>Association\<close>: the greedy associator. \<open>Motion\<close>: the motion predictors and box geometry.
  \<open>Tracker\<close>: the frame step of \<^verbatim>\<open>GeometricTracker\<close>, from the ordering check to the published
  tracks; \<open>Tracker_Safety\<close>: its invariant and the theorems about reachable trackers.
  \<open>Tracking_Engine\<close>: the engine and the manager with verification of an update and fallback.

  Objects and observations. \<open>Object_Lifecycle\<close> (\<^verbatim>\<open>perception/registry/lifecycle.py\<close>);
  \<open>Confidence\<close> (\<^verbatim>\<open>core/model/confidence.py\<close>, \<^verbatim>\<open>provenance.py\<close>); \<open>Observation\<close>
  (\<^verbatim>\<open>core/model/observation.py\<close>).

  State (\<^verbatim>\<open>state/\<close>). \<open>State_Projection\<close>: one observation applied to a camera's partition, with its
  bounded rings and shedding. \<open>State_Manager\<close>: appending, buffering while the store is down,
  recovery, rebuild, replay and the consistency verifier. \<open>State_Refinement\<close>: the refinement of the
  log. \<open>Observation_Log\<close>: the log port and the log in memory.

  Exposure (\<^verbatim>\<open>exposure/\<close>, \<^verbatim>\<open>core/model/api.py\<close>). \<open>Api_Model\<close>: scopes, filters, views.
  \<open>Authorization\<close>: decisions and narrowing. \<open>Subscription\<close> and \<open>Subscription_Hub\<close>: one subscription
  and the fan-out over all of them. \<open>Observation_Api\<close>: the operations of the API with limits and
  audit; \<open>Api_Reads\<close>: what they return. \<open>Demand_Registry\<close> (\<^verbatim>\<open>perception/cropping/demands.py\<close>) and
  \<open>Demand_Intake\<close> (\<^verbatim>\<open>exposure/demands.py\<close>): demands, their ownership and their persistence.
  \<open>Evidence_Store\<close> (\<^verbatim>\<open>adapters/persistence/evidence.py\<close>): evidence in memory.

  Understanding. \<open>Crop_Budget\<close> (\<^verbatim>\<open>perception/cropping/budget.py\<close>) and \<open>Understanding_Cache\<close>
  (\<^verbatim>\<open>perception/understanding/cache.py\<close>).

  Compliance. \<open>Compliance\<close>: rule documents, findings and the evaluator (\<^verbatim>\<open>src/compliance\<close>).

  Kernel. \<open>Event_Bus\<close> (\<^verbatim>\<open>kernel/events/bus.py\<close> and the catalogue of \<^verbatim>\<open>events.py\<close>).

  \<^bold>\<open>How the model corresponds to the code.\<close> A class is a record, an enumeration a datatype with the
  source's members, a method a function of the same or a similar name that takes the object last and
  returns its result with the new object. A raised exception is \<open>Inl\<close> of a \<open>py_error\<close>; every raise
  and early return of a modelled method is a branch. Constructors with checks are \<open>mk_...\<close> functions.
  Integers are unbounded, as Python's are. Floats are exact rationals: rounding, infinities and NaN
  are not modelled. Square roots, angles and exponentials of the motion and cost code are functions
  of a record \<open>math_lib\<close>. Other modules that are called through a port (log, authorizer, allocator,
  associator, evidence reader, id factories, clocks) are arguments, with what is relied on as named
  hypotheses that an instance is shown to satisfy. A value read from a clock is an argument of the
  operation that reads it. Locks are left out: an operation runs to its end, and interleavings are
  sequences of whole operations.

  \<^bold>\<open>What the lemmas show.\<close> Lifecycles are closed and live (a missed track and an unmeasured object
  end within bounds that the policy names). A reachable tracker publishes valid, distinct tracks,
  refuses exactly frames out of order, and never reuses the id of a track that is gone; association
  leaves no blocking pair. Rule evaluation is strong Kleene logic over evidence, monotone in evidence,
  and accuses only on established grounds. Live state is the replay of the log. Grants are exact;
  reads are scoped and bounded; pagination is a partition of the result; rate limits are sliding
  windows. Subscriptions deliver to exactly those who asked, within their tenant, and report every
  loss where it happened; the event bus does so too. Demands are aggregated exactly. The budget bounds
  spending; the caches serve what is current; batching partitions. Erased evidence stays erased. The
  frame buffer neither leaks nor shares memory, and a lease protects its frame.

  Some theorems state behaviour that the surrounding documentation does not expect, because that is
  what the code does: an object is read across tenants by its id, a demand's id can be taken over, a
  restart revives revoked demands, a rebuild stops at a thousand records, a resent observation is
  lost while it is buffered, a disjoint request is granted every camera. Lemmas at the end of a
  theory, under a heading on the edges, state smaller ones.

  \<^bold>\<open>Loops.\<close> Loops over lists are folds or structural recursion. The loops with another measure are
  total functions with a termination proof (the chunks of a batch, the rebuild from the log by the
  position in the log, eviction from a cache by the entries left). Walking the pages of a query is
  the caller's loop and takes fuel; any fuel above the number of matching observations is enough, and
  the theorem says so.

  \<^bold>\<open>Not modelled\<close>, with the reason. Input and output, processes and vendors: camera sources, decoders
  and clock synchronisation, detector, tracker-model and vision-language adapters, model runtimes and
  devices, stores on files and in databases, the web application (\<^verbatim>\<open>src/app\<close>), its migrations,
  scripts and evaluation tools; they are bound to libraries outside the repository or only move data.
  The optimal associator calls a solver that is not part of the program. Wiring: bootstraps, runtimes
  and the plugin and configuration managers. Observability: metrics, health, exporters, and the texts
  of errors and audit details. Conformance kits are tests. The engines of detection, cropping,
  understanding, the object registry and the observation builder, and the acquisition scheduler, are
  program logic that this development does not cover yet; of the first ones it holds the lifecycle,
  budget, caches and demands that they rest on. Concurrency inside an operation is not modelled.
\<close>

end
